(* ===== verification/Prelude.thy ===== *)
theory Prelude
  imports Main "HOL-Library.Word" "HOL-Library.AList" "HOL-Library.Monad_Syntax"
begin

text \<open>
  Shared vocabulary of the development: machine integers at their width, the sentinel
  errors of \<^verbatim>\<open>src/internal/errors/types.go\<close>, Go maps, byte strings with
  \<^verbatim>\<open>bytes.Compare\<close>, and the standard-library searching and sorting that the sources
  call with a comparison function.

  Conventions used everywhere:
  \<^item> a Go map is an association list with distinct keys; the order of the list stands for the
    order in which a \<^verbatim>\<open>range\<close> loop happens to visit the map, so a theorem about
    every such list is a theorem about every iteration order;
  \<^item> a fallible Go function returns \<open>err + 'a\<close>, with \<open>Inl\<close> for the error;
  \<^item> a function that can end the process (a panic, or \<^verbatim>\<open>utils.ShutdownNow\<close>) returns an
    option, with \<open>None\<close> for a process that is gone;
  \<^item> a nil-able pointer or map is an option.
\<close>

section \<open>Integers and bytes\<close>

type_synonym u8 = "8 word"
type_synonym u32 = "32 word"
type_synonym u64 = "64 word"
type_synonym bytes = "u8 list"

abbreviation max_u64 :: u64 where
  "max_u64 \<equiv> - 1"

section \<open>Errors\<close>

datatype err =
    InternalError
  | InvalidRequest
  | PermissionDenied
  | Unavailable
  | NotFound
  | AlreadyExists
  | NotLeader
  | NotRegistered
  | FailedPrecondition
  | ResourceExhausted
  | TransactionAborted
  | CorruptedData
  | TimeOutOfRange
  | ValidationError string
  | OtherError string

section \<open>Collections of facts\<close>

named_theorems gomap_simps \<open>lookup, update and deletion of Go maps\<close>
named_theorems cmp_simps \<open>unfolding of the comparison functions\<close>

section \<open>Go maps\<close>

type_synonym ('k, 'v) gomap = "('k \<times> 'v) list"

abbreviation mget :: "('k, 'v) gomap \<Rightarrow> 'k \<Rightarrow> 'v option" where
  "mget m k \<equiv> map_of m k"

abbreviation mput :: "'k \<Rightarrow> 'v \<Rightarrow> ('k, 'v) gomap \<Rightarrow> ('k, 'v) gomap" where
  "mput \<equiv> AList.update"

abbreviation mdel :: "'k \<Rightarrow> ('k, 'v) gomap \<Rightarrow> ('k, 'v) gomap" where
  "mdel \<equiv> AList.delete"

definition mkeys :: "('k, 'v) gomap \<Rightarrow> 'k list" where
  "mkeys m = map fst m"

definition gomap_wf :: "('k, 'v) gomap \<Rightarrow> bool" where
  "gomap_wf m = distinct (map fst m)"

lemma mget_mput [simp, gomap_simps]: "mget (mput k v m) k' = (if k' = k then Some v else mget m k')"
  by (simp add: update_conv')

lemma mget_mdel [simp, gomap_simps]: "mget (mdel k m) k' = (if k' = k then None else mget m k')"
  by (simp add: delete_conv')

lemma gomap_wf_Nil [simp, intro]: "gomap_wf []"
  by (simp add: gomap_wf_def)

lemma gomap_wf_mput [simp, intro]: "gomap_wf m \<Longrightarrow> gomap_wf (mput k v m)"
  by (simp add: gomap_wf_def distinct_update)

lemma gomap_wf_mdel [simp, intro]: "gomap_wf m \<Longrightarrow> gomap_wf (mdel k m)"
  by (simp add: gomap_wf_def distinct_delete)

lemma gomap_wf_filter [simp, intro]: "gomap_wf m \<Longrightarrow> gomap_wf (filter P m)"
  by (simp add: gomap_wf_def distinct_map_filter)

lemma gomap_mem_iff: "gomap_wf m \<Longrightarrow> (k, v) \<in> set m \<longleftrightarrow> mget m k = Some v"
  by (simp add: gomap_wf_def)

lemma mget_filter_Some:
  "gomap_wf m \<Longrightarrow> mget (filter P m) k = Some v \<longleftrightarrow> mget m k = Some v \<and> P (k, v)"
  using gomap_mem_iff [of m k v] gomap_mem_iff [OF gomap_wf_filter [of m P], of k v] by auto

lemma mget_None_iff: "mget m k = None \<longleftrightarrow> k \<notin> fst ` set m"
  by (simp add: map_of_eq_None_iff)

end
