(* ===== verification/Hlc.thy ===== *)
theory Hlc
  imports Prelude
begin

unbundle bit_operations_syntax

text \<open>
  The hybrid logical clock of \<^verbatim>\<open>src/internal/hlc/hlc.go\<close>. A timestamp is a 64-bit word whose
  low 16 bits are the logical counter and whose high 48 bits are the wall clock in nanoseconds.
  The wall clock is not part of the program: every operation takes the sequence of readings
  \<open>clk\<close> that its successive calls of \<^verbatim>\<open>time.Now\<close> return, and nothing is assumed of it (it
  may jump in both directions). An operation that ends in \<^verbatim>\<open>utils.ShutdownNow\<close> returns
  \<open>None\<close>.
\<close>

section \<open>Model\<close>

definition logicalMask :: u64 where "logicalMask = push_bit 16 1 - 1"
definition logicalMax :: u64 where "logicalMax = logicalMask"
definition physicalMask :: u64 where "physicalMask = max_u64 - logicalMax"
definition maxRetries :: nat where "maxRetries = 3"

record stats_now =
  sn_Total :: nat
  sn_LogicalReset :: nat
  sn_LogicalInc :: nat
  sn_BackwardJumps :: nat
  sn_HitLogicalMax :: nat

record stats_update =
  su_Total :: nat
  su_OutOfRange :: nat
  su_LogicalReset :: nat
  su_LogicalTies :: nat
  su_LogicalOurs :: nat
  su_LogicalTheirs :: nat
  su_HitLogicalMax :: nat

record hlc =
  h_maxOffset :: u64
  h_physical :: u64
  h_logical :: u64
  h_statsNow :: stats_now
  h_statsUpdate :: stats_update

definition physical :: "u64 \<Rightarrow> u64" where
  "physical ts = ts AND physicalMask"

definition split_ts :: "u64 \<Rightarrow> u64 \<times> u64" where
  "split_ts ts = (ts AND physicalMask, ts AND logicalMask)"

definition zero_stats_now :: stats_now where
  "zero_stats_now = \<lparr>sn_Total = 0, sn_LogicalReset = 0, sn_LogicalInc = 0,
     sn_BackwardJumps = 0, sn_HitLogicalMax = 0\<rparr>"

definition zero_stats_update :: stats_update where
  "zero_stats_update = \<lparr>su_Total = 0, su_OutOfRange = 0, su_LogicalReset = 0, su_LogicalTies = 0,
     su_LogicalOurs = 0, su_LogicalTheirs = 0, su_HitLogicalMax = 0\<rparr>"

definition hlc_new :: "u64 \<Rightarrow> u64 \<Rightarrow> hlc" where
  "hlc_new maxOffset now =
     \<lparr>h_maxOffset = physical maxOffset, h_physical = physical now, h_logical = 0,
      h_statsNow = zero_stats_now, h_statsUpdate = zero_stats_update\<rparr>"

definition bump_now :: "(stats_now \<Rightarrow> stats_now) \<Rightarrow> hlc \<Rightarrow> hlc" where
  "bump_now f h = h\<lparr>h_statsNow := f (h_statsNow h)\<rparr>"

definition bump_update :: "(stats_update \<Rightarrow> stats_update) \<Rightarrow> hlc \<Rightarrow> hlc" where
  "bump_update f h = h\<lparr>h_statsUpdate := f (h_statsUpdate h)\<rparr>"

text \<open>
  The body of the retry loop of \<^verbatim>\<open>Hlc.Now\<close>: the first argument is the number of retries left,
  \<open>i\<close> the index of the next clock reading.
\<close>

fun now_loop :: "nat \<Rightarrow> (nat \<Rightarrow> u64) \<Rightarrow> nat \<Rightarrow> hlc \<Rightarrow> (u64 \<times> hlc) option" where
  "now_loop 0 clk i h = None"
| "now_loop (Suc n) clk i h =
     (let now = physical (clk i) in
      if now > h_physical h then
        Some (now, (bump_now (\<lambda>s. s\<lparr>sn_LogicalReset := sn_LogicalReset s + 1\<rparr>) h)
                     \<lparr>h_physical := now, h_logical := 0\<rparr>)
      else if now < h_physical h then
        (let h = bump_now (\<lambda>s. s\<lparr>sn_BackwardJumps := sn_BackwardJumps s + 1\<rparr>) h;
             diff = h_physical h - now
         in if diff > h_maxOffset h then None else now_loop n clk (Suc i) h)
      else if h_logical h = logicalMax then
        now_loop n clk (Suc i) (bump_now (\<lambda>s. s\<lparr>sn_HitLogicalMax := sn_HitLogicalMax s + 1\<rparr>) h)
      else
        (let h = (bump_now (\<lambda>s. s\<lparr>sn_LogicalInc := sn_LogicalInc s + 1\<rparr>) h)
                   \<lparr>h_logical := h_logical h + 1\<rparr>
         in Some (h_physical h OR h_logical h, h)))"

definition hlc_now :: "(nat \<Rightarrow> u64) \<Rightarrow> hlc \<Rightarrow> (u64 \<times> hlc) option" where
  "hlc_now clk h =
     now_loop maxRetries clk 0 (bump_now (\<lambda>s. s\<lparr>sn_Total := sn_Total s + 1\<rparr>) h)"

definition checkUpdateTimeOffset :: "u64 \<Rightarrow> u64 \<Rightarrow> hlc \<Rightarrow> err option \<times> hlc" where
  "checkUpdateTimeOffset now inPhysical h =
     (if inPhysical \<le> now then (None, h)
      else if inPhysical - now > h_maxOffset h then
        (Some TimeOutOfRange,
         bump_update (\<lambda>s. s\<lparr>su_OutOfRange := su_OutOfRange s + 1\<rparr>) h)
      else (None, h))"

fun update_loop :: "nat \<Rightarrow> (nat \<Rightarrow> u64) \<Rightarrow> nat \<Rightarrow> u64 \<Rightarrow> u64 \<Rightarrow> hlc \<Rightarrow> hlc option" where
  "update_loop 0 clk i inPhysical inLogical h = None"
| "update_loop (Suc n) clk i inPhysical inLogical h =
     (let nextPhysical = max (max (h_physical h) inPhysical) (physical (clk i));
          (nextLogical, h) =
            (if nextPhysical = h_physical h \<and> nextPhysical = inPhysical then
               (max (h_logical h) inLogical + 1,
                bump_update (\<lambda>s. s\<lparr>su_LogicalTies := su_LogicalTies s + 1\<rparr>) h)
             else if nextPhysical = h_physical h then
               (h_logical h + 1,
                bump_update (\<lambda>s. s\<lparr>su_LogicalOurs := su_LogicalOurs s + 1\<rparr>) h)
             else if nextPhysical = inPhysical then
               (inLogical + 1,
                bump_update (\<lambda>s. s\<lparr>su_LogicalTheirs := su_LogicalTheirs s + 1\<rparr>) h)
             else
               (0, bump_update (\<lambda>s. s\<lparr>su_LogicalReset := su_LogicalReset s + 1\<rparr>) h))
      in if nextLogical > logicalMax then
           update_loop n clk (Suc i) inPhysical inLogical
             (bump_update (\<lambda>s. s\<lparr>su_HitLogicalMax := su_HitLogicalMax s + 1\<rparr>) h)
         else Some (h\<lparr>h_physical := nextPhysical, h_logical := nextLogical\<rparr>))"

definition hlc_update :: "(nat \<Rightarrow> u64) \<Rightarrow> u64 \<Rightarrow> hlc \<Rightarrow> (err option \<times> hlc) option" where
  "hlc_update clk incoming h =
     (let h = bump_update (\<lambda>s. s\<lparr>su_Total := su_Total s + 1\<rparr>) h;
          (inPhysical, inLogical) = split_ts incoming
      in case checkUpdateTimeOffset (physical (clk 0)) inPhysical h of
           (Some e, h) \<Rightarrow> Some (Some e, h)
         | (None, h) \<Rightarrow>
             map_option (\<lambda>h. (None, h)) (update_loop maxRetries clk 1 inPhysical inLogical h))"

text \<open>
  Conversions. A \<^verbatim>\<open>time.Time\<close> is the pair of whole seconds and nanoseconds that
  \<^verbatim>\<open>time.Unix\<close> normalises; Go's integer division truncates towards zero.
\<close>

definition go_div :: "int \<Rightarrow> int \<Rightarrow> int" where
  "go_div a b = sgn a * sgn b * (\<bar>a\<bar> div \<bar>b\<bar>)"

definition go_mod :: "int \<Rightarrow> int \<Rightarrow> int" where
  "go_mod a b = a - b * go_div a b"

definition time_Unix :: "int \<Rightarrow> int \<Rightarrow> int \<times> int" where
  "time_Unix sec nsec =
     (if nsec < 0 \<or> nsec \<ge> 1000000000 then
        (let n = go_div nsec 1000000000;
             sec = sec + n;
             nsec = nsec - n * 1000000000
         in if nsec < 0 then (sec - 1, nsec + 1000000000) else (sec, nsec))
      else (sec, nsec))"

definition UnixNano :: "int \<times> int \<Rightarrow> int" where
  "UnixNano t = sint (word_of_int (fst t * 1000000000 + snd t) :: u64)"

definition AsTime :: "u64 \<Rightarrow> int \<times> int" where
  "AsTime ts = (let x = sint ts in time_Unix (go_div x 1000000000) (go_mod x 1000000000))"

definition FromTime :: "int \<times> int \<Rightarrow> u64" where
  "FromTime t = word_of_int (UnixNano t)"

definition Subtract :: "u64 \<Rightarrow> u64 \<Rightarrow> int" where
  "Subtract a b =
     (let ap = physical a; bp = physical b
      in if ap \<ge> bp then sint (ap - bp) else sint (- (bp - ap)))"

section \<open>Word arithmetic of timestamps\<close>

lemma logicalMask_mask: "logicalMask = mask 16"
  by (simp add: logicalMask_def mask_eq_exp_minus_1 push_bit_eq_mult)

lemma logicalMax_mask: "logicalMax = mask 16"
  by (simp add: logicalMax_def logicalMask_mask)

lemma physicalMask_mask: "physicalMask = NOT (mask 16)"
  unfolding physicalMask_def logicalMax_mask not_eq_complement by simp

definition aligned :: "u64 \<Rightarrow> bool" where
  "aligned p = (p AND logicalMask = 0)"

definition hlc_wf :: "hlc \<Rightarrow> bool" where
  "hlc_wf h = (aligned (h_physical h) \<and> h_logical h \<le> logicalMax)"

definition hlc_val :: "hlc \<Rightarrow> u64" where
  "hlc_val h = h_physical h OR h_logical h"

lemma unat_and_logicalMask: "unat (w AND logicalMask) = unat w mod 65536"
proof -
  have "unat (take_bit 16 w) = take_bit 16 (unat w)"
    by (rule unsigned_take_bit_eq)
  then show ?thesis
    unfolding logicalMask_mask take_bit_eq_mask [symmetric] by (simp add: take_bit_nat_def)
qed

lemma aligned_iff: "aligned p \<longleftrightarrow> unat p mod 65536 = 0"
  unfolding aligned_def unat_and_logicalMask [symmetric] by (simp add: unat_eq_zero)

lemma aligned_physical [simp]: "aligned (physical ts)"
  by (simp add: aligned_def physical_def physicalMask_mask logicalMask_mask and.assoc)

lemma logical_le: "l \<le> logicalMax \<longleftrightarrow> unat l < 65536"
proof -
  have "unat logicalMax = 65535" by (simp add: logicalMax_def logicalMask_def)
  then show ?thesis by (auto simp: word_le_nat_alt)
qed

lemma logical_and_le [simp]: "w AND logicalMask \<le> logicalMax"
  by (simp add: logical_le unat_and_logicalMask)

lemma aligned_unat_le:
  assumes "aligned p"
  shows "unat p \<le> 2 ^ 64 - 65536"
proof -
  obtain k where k: "unat p = 65536 * k"
    using assms by (auto simp: aligned_iff mod_eq_0_iff_dvd)
  have "unat p < 2 ^ 64"
    using unsigned_less [of p, where ?'a = nat] by simp
  then show ?thesis using k by simp
qed

lemma unat_ts:
  assumes "aligned p" and "l \<le> logicalMax"
  shows "unat (p OR l) = unat p + unat l"
proof -
  have "unat (l AND logicalMask) = unat l"
    using assms(2) by (simp add: unat_and_logicalMask logical_le)
  then have l: "l AND logicalMask = l"
    by (simp only: word_unat_eq_iff)
  have "p AND (l AND logicalMask) = 0"
    using assms(1) by (simp add: aligned_def and.left_commute [of l] and.commute [of logicalMask])
      (metis and.assoc and.commute and_zero_eq)
  then have "p AND l = 0" unfolding l .
  then have "p OR l = p + l" by (simp add: disjunctive_add_eq_or)
  then show ?thesis
    using aligned_unat_le [OF assms(1)] assms(2) by (simp add: unat_word_ariths logical_le)
qed

lemma ts_less_iff:
  assumes "aligned p" "l \<le> logicalMax" "aligned q" "m \<le> logicalMax"
  shows "p OR l < q OR m \<longleftrightarrow> p < q \<or> p = q \<and> l < m"
proof -
  obtain a b where ab: "unat p = 65536 * a" "unat q = 65536 * b"
    using assms(1,3) by (auto simp: aligned_iff mod_eq_0_iff_dvd elim!: dvdE)
  show ?thesis
    unfolding word_less_nat_alt word_unat_eq_iff unat_ts [OF assms(1,2)] unat_ts [OF assms(3,4)] ab
    using assms(2,4) by (auto simp: logical_le)
qed

lemma split_ts_or: "fst (split_ts ts) OR snd (split_ts ts) = ts"
  by (simp add: split_ts_def physicalMask_mask logicalMask_mask bit_eq_iff bit_simps) blast

lemma split_ts_wf [simp]: "aligned (fst (split_ts ts))" "snd (split_ts ts) \<le> logicalMax"
  by (simp_all add: split_ts_def flip: physical_def)

lemma plus_one_le: "l \<le> logicalMax \<Longrightarrow> l < l + 1"
  by (simp add: logical_le word_less_nat_alt unat_word_ariths)

lemma inc_le: "l \<le> logicalMax \<Longrightarrow> l \<noteq> logicalMax \<Longrightarrow> l + 1 \<le> logicalMax"
  by (metis inc_le order_less_le)

section \<open>Clock operations\<close>

lemma bump_simps [simp]:
  "h_physical (bump_now f h) = h_physical h" "h_logical (bump_now f h) = h_logical h"
  "h_maxOffset (bump_now f h) = h_maxOffset h"
  "h_physical (bump_update g h) = h_physical h" "h_logical (bump_update g h) = h_logical h"
  "h_maxOffset (bump_update g h) = h_maxOffset h"
  by (simp_all add: bump_now_def bump_update_def)

lemma hlc_wf_bump [simp]: "hlc_wf (bump_now f h) = hlc_wf h" "hlc_wf (bump_update g h) = hlc_wf h"
  by (simp_all add: hlc_wf_def)

lemma hlc_val_bump [simp]: "hlc_val (bump_now f h) = hlc_val h" "hlc_val (bump_update g h) = hlc_val h"
  by (simp_all add: hlc_val_def)

lemma zero_le_logicalMax [simp]: "0 \<le> logicalMax"
  by simp

lemma hlc_val_less:
  assumes "hlc_wf h" "aligned p" "l \<le> logicalMax"
    and "h_physical h < p \<or> h_physical h = p \<and> h_logical h < l"
  shows "hlc_val h < p OR l"
  using assms by (simp add: hlc_wf_def hlc_val_def ts_less_iff)

lemma now_loop_correct:
  assumes "hlc_wf h" and "now_loop n clk i h = Some (ts, h')"
  shows "hlc_wf h' \<and> ts = hlc_val h' \<and> hlc_val h < ts \<and> h_maxOffset h' = h_maxOffset h"
  using assms
proof (induction n arbitrary: i h)
  case 0
  then show ?case by simp
next
  case (Suc n)
  have wf: "aligned (h_physical h)" "h_logical h \<le> logicalMax"
    using Suc.prems(1) by (simp_all add: hlc_wf_def)
  consider (fwd) "h_physical h < physical (clk i)" | (bwd) "physical (clk i) < h_physical h"
    | (full) "physical (clk i) = h_physical h" "h_logical h = logicalMax"
    | (inc) "physical (clk i) = h_physical h" "h_logical h \<noteq> logicalMax"
    by fastforce
  then show ?case
  proof cases
    case fwd
    then show ?thesis
      using Suc.prems hlc_val_less [OF Suc.prems(1) aligned_physical zero_le_logicalMax, of "clk i"]
      by (auto simp: Let_def hlc_wf_def hlc_val_def)
  next
    case bwd
    then show ?thesis
      using Suc.prems Suc.IH
        [of "bump_now (\<lambda>s. s\<lparr>sn_BackwardJumps := sn_BackwardJumps s + 1\<rparr>) h" "Suc i"]
      by (auto simp: Let_def split: if_splits)
  next
    case full
    then show ?thesis
      using Suc.prems Suc.IH
        [of "bump_now (\<lambda>s. s\<lparr>sn_HitLogicalMax := sn_HitLogicalMax s + 1\<rparr>) h" "Suc i"]
      by (auto simp: Let_def)
  next
    case inc
    then have "h_logical h + 1 \<le> logicalMax" "h_logical h < h_logical h + 1"
      using wf inc_le plus_one_le by blast+
    then show ?thesis
      using inc Suc.prems hlc_val_less [OF Suc.prems(1) wf(1), of "h_logical h + 1"] wf
      by (auto simp: Let_def hlc_wf_def hlc_val_def)
  qed
qed


lemma max_logical_inc:
  assumes "l \<le> logicalMax" "m \<le> logicalMax"
  shows "l < max l m + 1" "m < max l m + 1"
  using assms plus_one_le [of l] plus_one_le [of m] by (auto simp: max_def)


text \<open>One unfolding of the update loop, with the two branch results named.\<close>

definition next_logical :: "u64 \<Rightarrow> u64 \<Rightarrow> u64 \<Rightarrow> hlc \<Rightarrow> u64" where
  "next_logical np inP inL h =
     (if np = h_physical h \<and> np = inP then max (h_logical h) inL + 1
      else if np = h_physical h then h_logical h + 1
      else if np = inP then inL + 1 else 0)"

definition next_stats :: "u64 \<Rightarrow> u64 \<Rightarrow> hlc \<Rightarrow> stats_update \<Rightarrow> stats_update" where
  "next_stats np inP h =
     (if np = h_physical h \<and> np = inP then (\<lambda>s. s\<lparr>su_LogicalTies := su_LogicalTies s + 1\<rparr>)
      else if np = h_physical h then (\<lambda>s. s\<lparr>su_LogicalOurs := su_LogicalOurs s + 1\<rparr>)
      else if np = inP then (\<lambda>s. s\<lparr>su_LogicalTheirs := su_LogicalTheirs s + 1\<rparr>)
      else (\<lambda>s. s\<lparr>su_LogicalReset := su_LogicalReset s + 1\<rparr>))"

lemma update_loop_Suc:
  "update_loop (Suc n) clk i inP inL h =
     (let np = max (max (h_physical h) inP) (physical (clk i));
          nl = next_logical np inP inL h;
          h = bump_update (next_stats np inP h) h
      in if nl > logicalMax
         then update_loop n clk (Suc i) inP inL
                (bump_update (\<lambda>s. s\<lparr>su_HitLogicalMax := su_HitLogicalMax s + 1\<rparr>) h)
         else Some (h\<lparr>h_physical := np, h_logical := nl\<rparr>))"
proof -
  define np where "np = max (max (h_physical h) inP) (physical (clk i))"
  show ?thesis
    unfolding update_loop.simps np_def [symmetric] Let_def next_logical_def next_stats_def
    by simp
qed

lemma next_logical_gt:
  assumes "h_logical h \<le> logicalMax" "inL \<le> logicalMax" "h_physical h \<le> np" "inP \<le> np"
  shows "h_physical h < np \<or> h_physical h = np \<and> h_logical h < next_logical np inP inL h"
    and "inP < np \<or> inP = np \<and> inL < next_logical np inP inL h"
  using assms max_logical_inc [OF assms(1,2)]
  by (auto simp: next_logical_def plus_one_le)

declare update_loop.simps(2) [simp del]

lemma update_loop_correct:
  assumes "hlc_wf h" "aligned inP" "inL \<le> logicalMax"
    and "update_loop n clk i inP inL h = Some h'"
  shows "hlc_wf h' \<and> hlc_val h < hlc_val h' \<and> inP OR inL < hlc_val h' \<and>
         h_maxOffset h' = h_maxOffset h \<and>
         (\<exists>j \<ge> i. j < i + n \<and> h_physical h' = max (max (h_physical h) inP) (physical (clk j)))"
  using assms
proof (induction n arbitrary: i h)
  case 0
  then show ?case by simp
next
  case (Suc n)
  let ?np = "max (max (h_physical h) inP) (physical (clk i))"
  let ?nl = "next_logical ?np inP inL h"
  let ?h1 = "bump_update (next_stats ?np inP h) h"
  have wf: "aligned (h_physical h)" "h_logical h \<le> logicalMax"
    using Suc.prems(1) by (simp_all add: hlc_wf_def)
  have al: "aligned ?np" "h_physical h \<le> ?np" "inP \<le> ?np"
    using Suc.prems(2) wf by (auto simp: max_def)
  note gt = next_logical_gt [OF wf(2) Suc.prems(3) al(2,3)]
  show ?case
  proof (cases "?nl > logicalMax")
    case True
    let ?h2 = "bump_update (\<lambda>s. s\<lparr>su_HitLogicalMax := su_HitLogicalMax s + 1\<rparr>) ?h1"
    have wf2: "hlc_wf ?h2" using Suc.prems(1) by (simp only: hlc_wf_bump)
    have "update_loop n clk (Suc i) inP inL ?h2 = Some h'"
      using Suc.prems(4) True by (simp only: update_loop_Suc Let_def if_True)
    from Suc.IH [OF wf2 Suc.prems(2,3) this] show ?thesis
      by (metis (no_types, lifting) Suc_leD add_Suc add_Suc_right bump_simps(4,6) hlc_val_bump(2))
  next
    case False
    then have nl: "?nl \<le> logicalMax" by simp
    have h': "h' = ?h1\<lparr>h_physical := ?np, h_logical := ?nl\<rparr>"
      using Suc.prems(4) False by (simp only: update_loop_Suc Let_def if_False option.inject)
    have val: "hlc_val h' = ?np OR ?nl" "h_physical h' = ?np" "h_maxOffset h' = h_maxOffset h"
      "hlc_wf h'"
      using al(1) nl by (simp_all add: h' hlc_val_def hlc_wf_def)
    have "\<exists>j \<ge> i. j < i + Suc n \<and> ?np = max (max (h_physical h) inP) (physical (clk j))"
      by (rule exI [of _ i]) simp
    then show ?thesis
      unfolding val using gt(2) hlc_val_less [OF Suc.prems(1) al(1) nl gt(1)]
        ts_less_iff [OF Suc.prems(2,3) al(1) nl] val(4)
      by blast
  qed
qed

lemma hlc_now_correct:
  assumes "hlc_wf h" and "hlc_now clk h = Some (ts, h')"
  shows "hlc_wf h' \<and> ts = hlc_val h' \<and> hlc_val h < ts"
  using now_loop_correct [OF _ assms(2) [unfolded hlc_now_def]] assms(1) by auto


abbreviation out_of_range :: "u64 \<Rightarrow> u64 \<Rightarrow> hlc \<Rightarrow> bool" where
  "out_of_range now incoming h \<equiv>
     physical now < physical incoming \<and> h_maxOffset h < physical incoming - physical now"

lemma hlc_update_eq:
  "hlc_update clk incoming h =
     (let h1 = bump_update (\<lambda>s. s\<lparr>su_Total := su_Total s + 1\<rparr>) h
      in if out_of_range (clk 0) incoming h
         then Some (Some TimeOutOfRange, bump_update (\<lambda>s. s\<lparr>su_OutOfRange := su_OutOfRange s + 1\<rparr>) h1)
         else map_option (Pair None)
                (update_loop maxRetries clk 1 (fst (split_ts incoming)) (snd (split_ts incoming)) h1))"
proof -
  have "fst (split_ts incoming) = physical incoming"
    by (simp add: split_ts_def physical_def)
  then show ?thesis
    by (cases "physical incoming \<le> physical (clk 0)")
      (auto simp: hlc_update_def checkUpdateTimeOffset_def Let_def split_beta not_le)
qed

lemma hlc_update_correct:
  assumes "hlc_wf h" and "hlc_update clk incoming h = Some (r, h')"
  shows "hlc_wf h' \<and> hlc_val h \<le> hlc_val h' \<and>
         (r = None \<longrightarrow> hlc_val h < hlc_val h' \<and> incoming < hlc_val h')"
proof (cases "out_of_range (clk 0) incoming h")
  case True
  then show ?thesis using assms by (auto simp: hlc_update_eq Let_def)
next
  case False
  define h1 where "h1 = bump_update (\<lambda>s. s\<lparr>su_Total := su_Total s + 1\<rparr>) h"
  have h1: "hlc_wf h1" "hlc_val h1 = hlc_val h" using assms(1) by (simp_all add: h1_def)
  have "update_loop maxRetries clk 1 (fst (split_ts incoming)) (snd (split_ts incoming)) h1 = Some h'"
    using assms(2) False by (simp add: hlc_update_eq Let_def h1_def)
  from update_loop_correct [OF h1(1) split_ts_wf this] show ?thesis
    by (auto simp: split_ts_or h1(2))
qed

section \<open>Runs of the clock\<close>

text \<open>
  The clock is shared by every component of a node. A run is any interleaving of successful
  readings and updates, each with its own wall-clock readings.
\<close>

datatype clock_event = EvNow "nat \<Rightarrow> u64" | EvUpdate "nat \<Rightarrow> u64" u64

fun clock_run :: "hlc \<Rightarrow> clock_event list \<Rightarrow> (u64 list \<times> hlc) option" where
  "clock_run h [] = Some ([], h)"
| "clock_run h (EvNow clk # es) =
     do { (ts, h) \<leftarrow> hlc_now clk h; (out, h) \<leftarrow> clock_run h es; Some (ts # out, h) }"
| "clock_run h (EvUpdate clk incoming # es) =
     do { (r, h) \<leftarrow> hlc_update clk incoming h; clock_run h es }"

lemma clock_run_bound:
  assumes "hlc_wf h" and "clock_run h es = Some (out, h')"
  shows "sorted_wrt (<) out \<and> (\<forall>ts \<in> set out. hlc_val h < ts) \<and> hlc_wf h'"
  using assms
proof (induction h es arbitrary: out rule: clock_run.induct)
  case (1 h)
  then show ?case by auto
next
  case (2 h clk es)
  then obtain ts h1 out1 where
    run: "hlc_now clk h = Some (ts, h1)" "clock_run h1 es = Some (out1, h')" "out = ts # out1"
    by (auto simp: bind_eq_Some_conv)
  from hlc_now_correct [OF 2(2) run(1)] have h1: "hlc_wf h1" "ts = hlc_val h1" "hlc_val h < ts"
    by auto
  from 2(1) [OF run(1) refl h1(1) run(2)] h1 show ?case
    by (auto simp: run(3))
next
  case (3 h clk incoming es)
  then obtain r h1 where
    run: "hlc_update clk incoming h = Some (r, h1)" "clock_run h1 es = Some (out, h')"
    by (auto simp: bind_eq_Some_conv)
  from hlc_update_correct [OF 3(2) run(1)] have h1: "hlc_wf h1" "hlc_val h \<le> hlc_val h1" by auto
  from 3(1) [OF run(1) refl h1(1) run(2)] h1 show ?case by fastforce
qed

section \<open>Conversion to time\<close>

lemma go_div_mod: "b * go_div a b + go_mod a b = a"
  by (simp add: go_mod_def)

lemma time_Unix_total:
  "fst (time_Unix sec nsec) * 1000000000 + snd (time_Unix sec nsec) = sec * 1000000000 + nsec"
  by (simp add: time_Unix_def Let_def algebra_simps)

lemma UnixNano_AsTime: "UnixNano (AsTime ts) = sint ts"
  using time_Unix_total [of "go_div (sint ts) 1000000000" "go_mod (sint ts) 1000000000"]
    go_div_mod [of 1000000000 "sint ts"]
  by (simp add: UnixNano_def AsTime_def Let_def mult.commute)

section \<open>Properties\<close>

lemma hlc_wf_new [simp]: "hlc_wf (hlc_new mo now)"
  by (simp add: hlc_wf_def hlc_new_def)

lemma hlc_val_new [simp]: "hlc_val (hlc_new mo now) = physical now"
  by (simp add: hlc_val_def hlc_new_def)

text \<open>
  C28: timestamps handed out by one clock are strictly increasing. For every interleaving of
  readings and updates of a clock made by \<^verbatim>\<open>hlc.New\<close>, and for every behaviour of the wall clock
  (it may stand still or jump backwards), the timestamps returned by \<^verbatim>\<open>Now\<close> are strictly
  sorted and all lie above the wall clock at creation.
\<close>

theorem hlc_run_strictly_increasing:
  assumes "clock_run (hlc_new mo now) es = Some (out, h')"
  shows "sorted_wrt (<) out \<and> (\<forall>ts \<in> set out. physical now < ts)"
  using clock_run_bound [OF hlc_wf_new assms] by simp

theorem hlc_run_strictly_increasing_witness:
  "\<exists>out h'. clock_run (hlc_new 0 65536) [EvNow (\<lambda>_. 65536), EvNow (\<lambda>_. 131072)] = Some (out, h') \<and>
     length out = 2 \<and> sorted_wrt (<) out"
proof -
  have "clock_run (hlc_new 0 65536) [EvNow (\<lambda>_. 65536), EvNow (\<lambda>_. 131072)] =
      Some ([65537, 131072],
        (hlc_new 0 131072)\<lparr>h_statsNow := \<lparr>sn_Total = 2, sn_LogicalReset = 1, sn_LogicalInc = 1,
          sn_BackwardJumps = 0, sn_HitLogicalMax = 0\<rparr>\<rparr>)"
    by code_simp
  with hlc_run_strictly_increasing [OF this] show ?thesis by auto
qed

text \<open>
  C29: causality. Once a node has accepted a remote timestamp with \<^verbatim>\<open>Update\<close>, every timestamp it
  hands out afterwards is larger than the remote one.
\<close>

theorem hlc_update_causal:
  assumes "hlc_wf h" and "hlc_update clk incoming h = Some (None, h1)"
    and "clock_run h1 es = Some (out, h2)"
  shows "\<forall>ts \<in> set out. incoming < ts"
  using hlc_update_correct [OF assms(1,2)] clock_run_bound [OF _ assms(3)] by fastforce

theorem hlc_update_causal_witness:
  "\<exists>h1 out h2. hlc_update (\<lambda>_. 65536) 131075 (hlc_new 65536 65536) = Some (None, h1) \<and>
     clock_run h1 [EvNow (\<lambda>_. 131072)] = Some (out, h2) \<and> length out = 1 \<and>
     (\<forall>ts \<in> set out. 131075 < ts)"
proof -
  have u: "hlc_update (\<lambda>_. 65536) 131075 (hlc_new 65536 65536) =
    Some (None, (hlc_new 65536 131072)\<lparr>h_logical := 4,
      h_statsUpdate := zero_stats_update\<lparr>su_Total := 1, su_LogicalTheirs := 1\<rparr>\<rparr>)"
    by code_simp
  have r: "clock_run ((hlc_new 65536 131072)\<lparr>h_logical := 4,
      h_statsUpdate := zero_stats_update\<lparr>su_Total := 1, su_LogicalTheirs := 1\<rparr>\<rparr>)
      [EvNow (\<lambda>_. 131072)] =
    Some ([131077], (hlc_new 65536 131072)\<lparr>h_logical := 5,
      h_statsNow := zero_stats_now\<lparr>sn_Total := 1, sn_LogicalInc := 1\<rparr>,
      h_statsUpdate := zero_stats_update\<lparr>su_Total := 1, su_LogicalTheirs := 1\<rparr>\<rparr>)"
    by code_simp
  show ?thesis
    using u r hlc_update_causal [OF hlc_wf_new u r] by auto
qed

lemma unat_sub_le:
  fixes a b c :: u64
  assumes "a < b" "b - a \<le> c"
  shows "unat b \<le> unat a + unat c"
proof -
  have "unat (b - a) = unat b - unat a"
    using assms(1) by (simp add: unat_sub less_imp_le)
  then show ?thesis using assms by (simp add: word_le_nat_alt)
qed

text \<open>
  C30: bounded drift. \<^verbatim>\<open>Update\<close> rejects a timestamp exactly when its physical part is more than
  \<^verbatim>\<open>maxOffset\<close> ahead of the wall clock, and then leaves the clock as it was; when it accepts, the
  physical part of the clock does not pass its old value, the wall clock it read, or the wall
  clock plus \<^verbatim>\<open>maxOffset\<close>.
\<close>

theorem hlc_update_bounded:
  assumes "hlc_wf h" and "hlc_update clk incoming h = Some (r, h')"
  shows "(r = Some TimeOutOfRange \<longleftrightarrow> out_of_range (clk 0) incoming h) \<and>
    (r \<noteq> None \<longrightarrow> h_physical h' = h_physical h \<and> h_logical h' = h_logical h) \<and>
    (r = None \<longrightarrow> (\<exists>j. 1 \<le> j \<and> j \<le> maxRetries \<and>
       unat (h_physical h') \<le> max (unat (h_physical h))
         (max (unat (physical (clk 0)) + unat (h_maxOffset h)) (unat (physical (clk j))))))"
proof (cases "out_of_range (clk 0) incoming h")
  case True
  then show ?thesis using assms(2) by (auto simp: hlc_update_eq Let_def)
next
  case False
  define h1 where "h1 = bump_update (\<lambda>s. s\<lparr>su_Total := su_Total s + 1\<rparr>) h"
  have h1: "hlc_wf h1" "h_physical h1 = h_physical h" using assms(1) by (simp_all add: h1_def)
  have r: "r = None" and
    "update_loop maxRetries clk 1 (fst (split_ts incoming)) (snd (split_ts incoming)) h1 = Some h'"
    using assms(2) False by (auto simp: hlc_update_eq Let_def h1_def)
  from update_loop_correct [OF h1(1) split_ts_wf this(2)] obtain j where
    j: "1 \<le> j" "j \<le> maxRetries"
      "h_physical h' = max (max (h_physical h) (physical incoming)) (physical (clk j))"
    by (auto simp: h1(2) split_ts_def physical_def)
  have "unat (physical incoming) \<le> unat (physical (clk 0)) + unat (h_maxOffset h)"
  proof (cases "physical incoming \<le> physical (clk 0)")
    case True
    then show ?thesis by (simp add: word_le_nat_alt)
  next
    case gt: False
    with False show ?thesis by (intro unat_sub_le) auto
  qed
  then have "unat (h_physical h') \<le> max (unat (h_physical h))
      (max (unat (physical (clk 0)) + unat (h_maxOffset h)) (unat (physical (clk j))))"
    unfolding j(3) by (auto simp: max_def word_le_nat_alt)
  with r False j(1,2) show ?thesis by auto
qed

theorem hlc_update_bounded_witness:
  "\<exists>h'. hlc_update (\<lambda>_. 65536) 262144 (hlc_new 65536 65536) = Some (Some TimeOutOfRange, h') \<and>
     out_of_range 65536 262144 (hlc_new 65536 65536) \<and> h_physical h' = 65536"
proof -
  have u: "hlc_update (\<lambda>_. 65536) 262144 (hlc_new 65536 65536) =
    Some (Some TimeOutOfRange, (hlc_new 65536 65536)
      \<lparr>h_statsUpdate := zero_stats_update\<lparr>su_Total := 1, su_OutOfRange := 1\<rparr>\<rparr>)"
    by code_simp
  have p: "h_physical (hlc_new 65536 65536) = 65536" by code_simp
  show ?thesis using u p hlc_update_bounded [OF hlc_wf_new u] by auto
qed

lemma now_loop_returns:
  assumes "j < n" "h_physical h < physical (clk (i + j))"
    and "\<And>k. k < j \<Longrightarrow> physical (clk (i + k)) < h_physical h \<Longrightarrow>
           h_physical h - physical (clk (i + k)) \<le> h_maxOffset h"
  shows "\<exists>r. now_loop n clk i h = Some r"
  using assms
proof (induction n arbitrary: i j h)
  case 0
  then show ?case by simp
next
  case (Suc n)
  show ?case
  proof (cases j)
    case 0
    then show ?thesis using Suc.prems(2) by (simp add: Let_def)
  next
    case (Suc m)
    have step: "\<exists>r. now_loop n clk (Suc i) (bump_now f h) = Some r" for f
    proof (rule Suc.IH)
      show "m < n" "h_physical (bump_now f h) < physical (clk (Suc i + m))"
        using Suc.prems(1,2) \<open>j = Suc m\<close> by simp_all
      show "h_physical (bump_now f h) - physical (clk (Suc i + k)) \<le> h_maxOffset (bump_now f h)"
        if "k < m" "physical (clk (Suc i + k)) < h_physical (bump_now f h)" for k
        using Suc.prems(3) [of "Suc k"] that \<open>j = Suc m\<close> by simp
    qed
    show ?thesis
      using Suc.prems(3) [of 0] step \<open>j = Suc m\<close> by (auto simp: Let_def not_less)
  qed
qed

text \<open>
  C31: \<^verbatim>\<open>Now\<close> answers. If one of the first \<^verbatim>\<open>maxRetries\<close> readings of the wall clock is past the
  clock's physical part, and no earlier reading is behind it by more than \<^verbatim>\<open>maxOffset\<close>, then
  \<^verbatim>\<open>Now\<close> returns a timestamp instead of shutting the process down.
\<close>

theorem hlc_now_answers:
  assumes "j < maxRetries" "h_physical h < physical (clk j)"
    and "\<And>k. k < j \<Longrightarrow> physical (clk k) < h_physical h \<Longrightarrow>
           h_physical h - physical (clk k) \<le> h_maxOffset h"
  shows "\<exists>ts h'. hlc_now clk h = Some (ts, h')"
proof -
  have "\<exists>r. now_loop maxRetries clk 0 (bump_now (\<lambda>s. s\<lparr>sn_Total := sn_Total s + 1\<rparr>) h) = Some r"
    by (rule now_loop_returns [of j]) (use assms in auto)
  then show ?thesis by (simp add: hlc_now_def)
qed

theorem hlc_now_answers_witness:
  "\<exists>ts h'. hlc_now (\<lambda>i. if i = 0 then 65536 else 262144) (hlc_new 65536 131072) = Some (ts, h')"
proof (rule hlc_now_answers [of 1])
  show "1 < maxRetries" by (simp add: maxRetries_def)
  show "h_physical (hlc_new 65536 131072) < physical (if (1::nat) = 0 then 65536 else 262144)"
    by code_simp
  have "h_physical (hlc_new 65536 131072) - physical 65536 \<le> h_maxOffset (hlc_new 65536 131072)"
    by code_simp
  then show "h_physical (hlc_new 65536 131072) - physical (if k = 0 then 65536 else 262144)
      \<le> h_maxOffset (hlc_new 65536 131072)" if "k < 1" for k :: nat
    using that by simp
qed

text \<open>
  C36: the conversion of a timestamp to \<^verbatim>\<open>time.Time\<close> loses nothing: \<^verbatim>\<open>FromTime\<close> gives back the
  timestamp for every 64-bit value, also those whose top bit is set.
\<close>

theorem FromTime_AsTime: "FromTime (AsTime ts) = ts"
  by (simp only: FromTime_def UnixNano_AsTime of_int_sint scast_id)

end
