(* ===== verification/Ordering.thy ===== *)
theory Ordering
  imports Prelude
begin

text \<open>
  Three-way comparison. The sources order byte strings with \<^verbatim>\<open>bytes.Compare\<close>, key-value
  addresses with \<^verbatim>\<open>Address.Compare\<close> and RocksDB keys with their own comparator, and hand these
  functions to \<^verbatim>\<open>sort.Find\<close> and \<^verbatim>\<open>sort.Sort\<close>. The contract such a function has to meet is
  the locale \<open>comparator\<close>; searching and sorting are proved correct once, inside it.
\<close>

section \<open>Go's standard library: bytes.Compare, sort.Find, sort.Sort\<close>

fun bytes_compare :: "bytes \<Rightarrow> bytes \<Rightarrow> int" where
  "bytes_compare [] [] = 0"
| "bytes_compare [] (b # bs) = - 1"
| "bytes_compare (a # as) [] = 1"
| "bytes_compare (a # as) (b # bs) =
     (if a < b then - 1 else if b < a then 1 else bytes_compare as bs)"

text \<open>The binary search of \<^verbatim>\<open>sort.Find\<close>: the least index whose comparison is not positive.\<close>

function find_loop :: "(nat \<Rightarrow> int) \<Rightarrow> nat \<Rightarrow> nat \<Rightarrow> nat" where
  "find_loop c i j =
     (if i < j then
        (let h = (i + j) div 2 in if c h > 0 then find_loop c (h + 1) j else find_loop c i h)
      else i)"
  by pat_completeness auto
termination
  by (relation "measure (\<lambda>(c, i, j). j - i)") auto

declare find_loop.simps [simp del]

definition sort_find :: "nat \<Rightarrow> (nat \<Rightarrow> int) \<Rightarrow> nat \<times> bool" where
  "sort_find n c = (let i = find_loop c 0 n in (i, i < n \<and> c i = 0))"

text \<open>
  \<^verbatim>\<open>sort.Sort\<close> permutes its argument into an order that respects \<^verbatim>\<open>Less\<close>. Where the keys are
  distinct this determines the result, and insertion sort computes it.
\<close>

fun insert_by :: "('a \<Rightarrow> 'a \<Rightarrow> bool) \<Rightarrow> 'a \<Rightarrow> 'a list \<Rightarrow> 'a list" where
  "insert_by lt x [] = [x]"
| "insert_by lt x (y # ys) = (if lt y x then y # insert_by lt x ys else x # y # ys)"

definition sort_sort :: "('a \<Rightarrow> 'a \<Rightarrow> bool) \<Rightarrow> 'a list \<Rightarrow> 'a list" where
  "sort_sort lt xs = foldr (insert_by lt) xs []"

lemma set_insert_by [simp]: "set (insert_by lt x xs) = insert x (set xs)"
  by (induction xs) auto

lemma set_sort_sort [simp]: "set (sort_sort lt xs) = set xs"
  unfolding sort_sort_def by (induction xs) auto

lemma distinct_map_insert_by:
  "distinct (map k (insert_by lt x xs)) \<longleftrightarrow> k x \<notin> k ` set xs \<and> distinct (map k xs)"
  by (induction xs) auto

lemma distinct_map_sort_sort: "distinct (map k (sort_sort lt xs)) \<longleftrightarrow> distinct (map k xs)"
proof (induction xs)
  case Nil
  then show ?case by (simp add: sort_sort_def)
next
  case (Cons x xs)
  have "sort_sort lt (x # xs) = insert_by lt x (sort_sort lt xs)"
    by (simp add: sort_sort_def)
  then show ?case using Cons.IH by (simp add: distinct_map_insert_by)
qed

lemma find_loop_correct:
  assumes "i \<le> j" "j \<le> n" "\<And>k. k < i \<Longrightarrow> c k > 0" "\<And>k. j \<le> k \<Longrightarrow> k < n \<Longrightarrow> c k \<le> 0"
    and "\<And>a b. a \<le> b \<Longrightarrow> b < n \<Longrightarrow> c b > 0 \<Longrightarrow> c a > 0"
  shows "find_loop c i j \<le> n \<and> (\<forall>k < find_loop c i j. c k > 0) \<and>
         (\<forall>k. find_loop c i j \<le> k \<longrightarrow> k < n \<longrightarrow> c k \<le> 0)"
  using assms
proof (induction c i j rule: find_loop.induct)
  case (1 c i j)
  let ?h = "(i + j) div 2"
  note mono = "1.prems"(5)
  show ?case
  proof (cases "i < j")
    case True
    then have h: "i \<le> ?h" "?h < j" by auto
    show ?thesis
    proof (cases "c ?h > 0")
      case pos: True
      have "find_loop c i j = find_loop c (?h + 1) j"
        using True pos by (subst find_loop.simps) (simp add: Let_def)
      moreover have low: "c k > 0" if "k < ?h + 1" for k
        using that h "1.prems"(2) pos mono [of k ?h] by simp
      ultimately show ?thesis
        using "1.IH"(1) [OF True refl pos _ "1.prems"(2) low "1.prems"(4) mono] h by simp
    next
      case neg: False
      have "find_loop c i j = find_loop c i ?h"
        using True neg by (subst find_loop.simps) (simp add: Let_def)
      moreover have high: "c k \<le> 0" if "?h \<le> k" "k < n" for k
        using that neg mono [of ?h k] by (meson not_le)
      ultimately show ?thesis
        using "1.IH"(2) [OF True refl neg _ _ "1.prems"(3) high mono] h "1.prems"(2) by simp
    qed
  next
    case False
    then show ?thesis
      using "1.prems"(1-4) by (subst (1 2 3) find_loop.simps) auto
  qed
qed

section \<open>The contract of a comparison function\<close>

locale comparator =
  fixes cmp :: "'a \<Rightarrow> 'a \<Rightarrow> int"
  assumes cmp_eq: "cmp a b = 0 \<longleftrightarrow> a = b"
    and cmp_swap: "cmp b a < 0 \<longleftrightarrow> cmp a b > 0"
    and cmp_trans: "cmp a b < 0 \<Longrightarrow> cmp b c < 0 \<Longrightarrow> cmp a c < 0"
begin

lemma cmp_refl [simp]: "cmp a a = 0"
  by (simp add: cmp_eq)

lemma not_cmp_less: "\<not> cmp a b < 0 \<longleftrightarrow> cmp b a < 0 \<or> a = b"
  using cmp_swap [of a b] cmp_swap [of b a] cmp_eq [of a b] by auto

lemma cmp_less_asym: "cmp a b < 0 \<Longrightarrow> \<not> cmp b a < 0"
  using cmp_swap [of a b] by simp

lemma cmp_le_iff: "cmp a b \<le> 0 \<longleftrightarrow> cmp a b < 0 \<or> a = b"
  using cmp_eq [of a b] by auto

lemma cmp_antisym: "cmp a b \<le> 0 \<Longrightarrow> cmp b a \<le> 0 \<Longrightarrow> a = b"
  using cmp_less_asym [of a b] by (auto simp: cmp_le_iff)

lemma cmp_le_less_trans: "cmp a b \<le> 0 \<Longrightarrow> cmp b c < 0 \<Longrightarrow> cmp a c < 0"
  using cmp_trans [of a b c] cmp_eq [of a b] by fastforce

lemma cmp_less_le_trans: "cmp a b < 0 \<Longrightarrow> cmp b c \<le> 0 \<Longrightarrow> cmp a c < 0"
  using cmp_trans [of a b c] cmp_eq [of b c] by fastforce

lemma cmp_le_swap: "cmp a b \<le> 0 \<longleftrightarrow> \<not> cmp b a < 0"
  using cmp_swap [of b a] cmp_swap [of a b] by linarith

lemma cmp_ge_swap: "cmp a b \<ge> 0 \<longleftrightarrow> cmp b a \<le> 0"
  using cmp_swap [of b a] cmp_swap [of a b] by linarith

abbreviation sorted_by :: "('r \<Rightarrow> 'a) \<Rightarrow> 'r list \<Rightarrow> bool" where
  "sorted_by k xs \<equiv> sorted_wrt (\<lambda>x y. cmp (k x) (k y) < 0) xs"

lemma sorted_by_distinct: "sorted_by k xs \<Longrightarrow> distinct (map k xs)"
  by (induction xs) (auto simp: cmp_eq [symmetric])

lemma sorted_by_unique:
  "sorted_by k xs \<Longrightarrow> sorted_by k ys \<Longrightarrow> set xs = set ys \<Longrightarrow> xs = ys"
proof (induction xs arbitrary: ys)
  case (Cons x xs)
  then obtain y ys' where ys: "ys = y # ys'" by (cases ys) auto
  have "x = y"
  proof (rule ccontr)
    assume "x \<noteq> y"
    then have "cmp (k x) (k y) < 0" "cmp (k y) (k x) < 0"
      using Cons.prems by (auto simp: ys)
    then show False using cmp_less_asym by blast
  qed
  moreover have "x \<notin> set xs" "y \<notin> set ys'"
    using Cons.prems(1,2) by (auto simp: ys)
  ultimately have "set xs = set ys'" using Cons.prems(3) by (auto simp: ys)
  with \<open>x = y\<close> show ?case using Cons.IH [of ys'] Cons.prems by (simp add: ys)
qed simp

lemma insert_by_sorted:
  assumes "sorted_by k xs" and "k x \<notin> k ` set xs"
  shows "sorted_by k (insert_by (\<lambda>a b. cmp (k a) (k b) < 0) x xs)"
  using assms
proof (induction xs)
  case Nil
  then show ?case by simp
next
  case (Cons y ys)
  show ?case
  proof (cases "cmp (k y) (k x) < 0")
    case True
    then show ?thesis using Cons by auto
  next
    case False
    then have xy: "cmp (k x) (k y) < 0"
      using Cons.prems(2) not_cmp_less [of "k y" "k x"] by auto
    then show ?thesis
      using Cons.prems(1) False cmp_trans [OF xy] by auto
  qed
qed

lemma sort_sort_sorted:
  assumes "distinct (map k xs)"
  shows "sorted_by k (sort_sort (\<lambda>a b. cmp (k a) (k b) < 0) xs)"
  using assms
proof (induction xs)
  case Nil
  then show ?case by (simp add: sort_sort_def)
next
  case (Cons x xs)
  then show ?case
    using insert_by_sorted [of k "sort_sort (\<lambda>a b. cmp (k a) (k b) < 0) xs" x]
      set_sort_sort [of "\<lambda>a b. cmp (k a) (k b) < 0" xs]
    by (auto simp: sort_sort_def)
qed

text \<open>
  Binary search on a sorted list: everything before the index is smaller, everything from the
  index on is not, and the flag says whether the element is there.
\<close>

lemma sort_find_sorted:
  assumes "sorted_by k xs" and "sort_find (length xs) (\<lambda>i. cmp a (k (xs ! i))) = (i, found)"
  shows "i \<le> length xs"
    and "\<And>x. x \<in> set (take i xs) \<Longrightarrow> cmp (k x) a < 0"
    and "\<And>x. x \<in> set (drop i xs) \<Longrightarrow> cmp a (k x) \<le> 0"
    and "found \<longleftrightarrow> a \<in> k ` set xs"
    and "found \<Longrightarrow> i < length xs \<and> k (xs ! i) = a"
proof -
  let ?c = "\<lambda>i. cmp a (k (xs ! i))"
  have mono: "?c q > 0 \<Longrightarrow> ?c p > 0" if "p \<le> q" "q < length xs" for p q
    using that sorted_wrt_nth_less [OF assms(1), of p q] cmp_swap [of "k (xs ! p)" a]
      cmp_swap [of "k (xs ! q)" a] cmp_trans [of "k (xs ! p)" "k (xs ! q)" a]
    by (cases "p = q") auto
  have i: "i = find_loop ?c 0 (length xs)" "found \<longleftrightarrow> i < length xs \<and> ?c i = 0"
    using assms(2) by (auto simp: sort_find_def Let_def)
  have fl: "i \<le> length xs \<and> (\<forall>q < i. ?c q > 0) \<and> (\<forall>q. i \<le> q \<longrightarrow> q < length xs \<longrightarrow> ?c q \<le> 0)"
    unfolding i(1) by (rule find_loop_correct) (use mono in auto)
  show len: "i \<le> length xs" using fl by blast
  show "cmp (k x) a < 0" if "x \<in> set (take i xs)" for x
    using that fl len by (auto simp: in_set_conv_nth cmp_swap)
  show "cmp a (k x) \<le> 0" if "x \<in> set (drop i xs)" for x
    using that fl by (auto simp: in_set_conv_nth)
  show eq: "i < length xs \<and> k (xs ! i) = a" if found
    using that i(2) cmp_eq by metis
  show "found \<longleftrightarrow> a \<in> k ` set xs"
  proof
    assume "a \<in> k ` set xs"
    then obtain p where p: "p < length xs" "k (xs ! p) = a" by (auto simp: in_set_conv_nth)
    have "\<not> p < i" using fl p(2) cmp_refl [of a] by fastforce
    moreover have "\<not> i < p"
    proof
      assume "i < p"
      then have "cmp (k (xs ! i)) a < 0" using sorted_wrt_nth_less [OF assms(1), of i p] p by simp
      moreover have "cmp a (k (xs ! i)) \<le> 0" using fl \<open>i < p\<close> p(1) by simp
      ultimately show False by (simp add: cmp_le_swap)
    qed
    ultimately have "i = p" by simp
    then show found using p by (simp add: i(2))
  qed (use eq in auto)
qed

end

section \<open>bytes.Compare meets the contract\<close>

lemma bytes_compare_eq: "bytes_compare a b = 0 \<longleftrightarrow> a = b"
  by (induction a b rule: bytes_compare.induct) auto

lemma bytes_compare_swap: "bytes_compare b a = - bytes_compare a b"
  by (induction a b rule: bytes_compare.induct) auto

lemma bytes_compare_trans:
  "bytes_compare a b < 0 \<Longrightarrow> bytes_compare b c < 0 \<Longrightarrow> bytes_compare a c < 0"
proof (induction a b arbitrary: c rule: bytes_compare.induct)
  case (2 b bs)
  then show ?case by (cases c) auto
next
  case (4 a as b bs)
  then show ?case by (cases c) (auto split: if_splits)
qed auto

interpretation bc: comparator bytes_compare
proof unfold_locales
  show "bytes_compare a b = 0 \<longleftrightarrow> a = b" for a b
    by (rule bytes_compare_eq)
  show "bytes_compare b a < 0 \<longleftrightarrow> bytes_compare a b > 0" for a b
    by (subst bytes_compare_swap) simp
qed (rule bytes_compare_trans)

lemma bytes_compare_append_same: "bytes_compare (p @ a) (p @ b) = bytes_compare a b"
  by (induction p) auto

lemma bytes_compare_append_diff:
  assumes "length p = length q" and "p \<noteq> q"
  shows "bytes_compare (p @ a) (q @ b) = bytes_compare p q"
  using assms by (induction p q rule: list_induct2) auto

end
