(* ===== verification/Txn_Data.thy ===== *)
theory Txn_Data
  imports Ordering
begin

text \<open>
  The transaction messages of \<^verbatim>\<open>src/internal/data/data.proto\<close> and the logic that
  \<^verbatim>\<open>src/internal/data/data_txn.go\<close> attaches to them: which transactions are read-only, which
  lock an action needs, and when two locks are compatible. Messages reach this code after
  validation, so the sub-messages a validated message must carry (a transaction's identifier, the
  lock inside a lock action) are plain fields; the payload of an action can still be unknown.
\<close>

section \<open>Messages\<close>

record txn_id =
  PrincipalPid :: u32
  ServerId :: u64
  IdTimestamp :: u64

record key_lock =
  kl_Keyspace :: u32
  kl_Key :: bytes
  kl_Exclusive :: bool

record range_lock =
  rl_Keyspace :: u32
  rl_StartKey :: bytes
  rl_EndKey :: bytes
  rl_Exclusive :: bool

datatype lock_payload = Lock_KeyLock key_lock | Lock_RangeLock range_lock

record lock =
  l_ActionId :: u32
  l_Payload :: lock_payload

datatype lock_key_check = LockKey_None | LockKey_MustExist | LockKey_MustNotExist
datatype lock_range_check = LockRange_None | LockRange_MustBeEmpty | LockRange_MustNotBeEmpty

datatype action_payload =
    Action_Read u32 bytes
  | Action_ReadRange u32 bytes bytes u32
  | Action_Insert u32 bytes bytes
  | Action_Update u32 bytes bytes
  | Action_Upsert u32 bytes bytes
  | Action_Delete u32 bytes
  | Action_LockKey key_lock lock_key_check
  | Action_LockRange range_lock lock_range_check
  | Action_Unknown

record action =
  a_Id :: u32
  a_Payload :: action_payload

record txn =
  t_Id :: txn_id
  t_Actions :: "action list"
  t_ParticipantPids :: "u32 list"

datatype txn_state = Pending | Prepared | Committed | Aborted | Failed | Timedout | Decided

datatype action_code =
    Success | KeyNotFound | KeyAlreadyExists | LockCheckFailed | LockFailed | CorruptedDataCode

text \<open>\<^verbatim>\<open>data.Value\<close>: a oneof whose only known member is a byte string.\<close>

datatype go_value = Value_Bytes bytes | Value_Unknown

record action_status =
  as_Id :: u32
  as_Code :: action_code
  as_Results :: "go_value list"

record decision =
  d_Id :: txn_id
  d_Commit :: bool
  d_CommitTimestamp :: u64

section \<open>Operations\<close>

definition IsFinal :: "txn_state \<Rightarrow> bool" where
  "IsFinal s = (case s of
       Pending \<Rightarrow> False | Prepared \<Rightarrow> False | Decided \<Rightarrow> False
     | Committed \<Rightarrow> True | Aborted \<Rightarrow> True | Failed \<Rightarrow> True | Timedout \<Rightarrow> True)"

definition Action_IsReadOnly :: "action \<Rightarrow> bool" where
  "Action_IsReadOnly a = (case a_Payload a of
       Action_Read _ _ \<Rightarrow> True | Action_ReadRange _ _ _ _ \<Rightarrow> True | _ \<Rightarrow> False)"

fun all_read_only :: "action list \<Rightarrow> bool" where
  "all_read_only [] = True"
| "all_read_only (a # as) = (if \<not> Action_IsReadOnly a then False else all_read_only as)"

definition Txn_IsReadOnly :: "txn \<Rightarrow> bool" where
  "Txn_IsReadOnly t = all_read_only (t_Actions t)"

definition mk_key_lock :: "u32 \<Rightarrow> u32 \<Rightarrow> bytes \<Rightarrow> bool \<Rightarrow> lock" where
  "mk_key_lock aid ks k excl =
     \<lparr>l_ActionId = aid,
      l_Payload = Lock_KeyLock \<lparr>kl_Keyspace = ks, kl_Key = k, kl_Exclusive = excl\<rparr>\<rparr>"

definition BuildLock :: "action \<Rightarrow> lock option" where
  "BuildLock a = (case a_Payload a of
       Action_Read ks k \<Rightarrow> Some (mk_key_lock (a_Id a) ks k False)
     | Action_ReadRange ks s e _ \<Rightarrow> Some \<lparr>l_ActionId = a_Id a, l_Payload = Lock_RangeLock
         \<lparr>rl_Keyspace = ks, rl_StartKey = s, rl_EndKey = e, rl_Exclusive = False\<rparr>\<rparr>
     | Action_Insert ks k _ \<Rightarrow> Some (mk_key_lock (a_Id a) ks k True)
     | Action_Update ks k _ \<Rightarrow> Some (mk_key_lock (a_Id a) ks k True)
     | Action_Delete ks k \<Rightarrow> Some (mk_key_lock (a_Id a) ks k True)
     | Action_Upsert ks k _ \<Rightarrow> Some (mk_key_lock (a_Id a) ks k True)
     | Action_LockKey l _ \<Rightarrow> Some \<lparr>l_ActionId = a_Id a, l_Payload = Lock_KeyLock l\<rparr>
     | Action_LockRange l _ \<Rightarrow> Some \<lparr>l_ActionId = a_Id a, l_Payload = Lock_RangeLock l\<rparr>
     | Action_Unknown \<Rightarrow> None)"

fun build_locks :: "action list \<Rightarrow> lock list" where
  "build_locks [] = []"
| "build_locks (a # as) =
     (case BuildLock a of Some l \<Rightarrow> l # build_locks as | None \<Rightarrow> build_locks as)"

definition BuildLocks :: "txn \<Rightarrow> lock list" where
  "BuildLocks t = build_locks (t_Actions t)"

definition Code_ToError :: "action_code \<Rightarrow> err option" where
  "Code_ToError c = (case c of
       Success \<Rightarrow> None
     | KeyNotFound \<Rightarrow> Some NotFound
     | KeyAlreadyExists \<Rightarrow> Some AlreadyExists
     | LockCheckFailed \<Rightarrow> Some FailedPrecondition
     | LockFailed \<Rightarrow> Some TransactionAborted
     | CorruptedDataCode \<Rightarrow> Some CorruptedData)"

definition ActionStatus_ToError :: "action_status \<Rightarrow> err option" where
  "ActionStatus_ToError r = Code_ToError (as_Code r)"

definition keyLocksCompatible :: "key_lock \<Rightarrow> key_lock \<Rightarrow> bool" where
  "keyLocksCompatible a b =
     (if kl_Keyspace a \<noteq> kl_Keyspace b then True
      else if kl_Key a \<noteq> kl_Key b then True
      else \<not> kl_Exclusive a \<and> \<not> kl_Exclusive b)"

definition rangeLocksCompatible :: "range_lock \<Rightarrow> range_lock \<Rightarrow> bool" where
  "rangeLocksCompatible a b =
     (if rl_Keyspace a \<noteq> rl_Keyspace b then True
      else if bytes_compare (rl_EndKey a) (rl_StartKey b) \<le> 0 then True
      else if bytes_compare (rl_StartKey a) (rl_EndKey b) \<ge> 0 then True
      else \<not> rl_Exclusive a \<and> \<not> rl_Exclusive b)"

definition rangeLockCompatibleWithKeyLock :: "range_lock \<Rightarrow> key_lock \<Rightarrow> bool" where
  "rangeLockCompatibleWithKeyLock a b =
     (if rl_Keyspace a \<noteq> kl_Keyspace b then True
      else if bytes_compare (kl_Key b) (rl_StartKey a) < 0 then True
      else if bytes_compare (kl_Key b) (rl_EndKey a) \<ge> 0 then True
      else \<not> rl_Exclusive a \<and> \<not> kl_Exclusive b)"

definition KeyLock_CompatibleWith :: "key_lock \<Rightarrow> lock \<Rightarrow> bool" where
  "KeyLock_CompatibleWith l other = (case l_Payload other of
       Lock_KeyLock x \<Rightarrow> keyLocksCompatible l x
     | Lock_RangeLock x \<Rightarrow> rangeLockCompatibleWithKeyLock x l)"

definition RangeLock_CompatibleWith :: "range_lock \<Rightarrow> lock \<Rightarrow> bool" where
  "RangeLock_CompatibleWith l other = (case l_Payload other of
       Lock_KeyLock x \<Rightarrow> rangeLockCompatibleWithKeyLock l x
     | Lock_RangeLock x \<Rightarrow> rangeLocksCompatible l x)"

definition CompatibleWith :: "lock \<Rightarrow> lock \<Rightarrow> bool" where
  "CompatibleWith l other = (case l_Payload l of
       Lock_KeyLock x \<Rightarrow> KeyLock_CompatibleWith x other
     | Lock_RangeLock x \<Rightarrow> RangeLock_CompatibleWith x other)"

lemmas compat_defs = CompatibleWith_def KeyLock_CompatibleWith_def RangeLock_CompatibleWith_def
  keyLocksCompatible_def rangeLocksCompatible_def rangeLockCompatibleWithKeyLock_def

section \<open>What a lock protects\<close>

text \<open>
  The reference view of a lock: a set of points (keyspace and key), and whether it is exclusive.
  Two locks conflict when they share a point and one of them is exclusive.
\<close>

definition lock_covers :: "lock \<Rightarrow> u32 \<Rightarrow> bytes \<Rightarrow> bool" where
  "lock_covers l ks k = (case l_Payload l of
       Lock_KeyLock x \<Rightarrow> kl_Keyspace x = ks \<and> kl_Key x = k
     | Lock_RangeLock x \<Rightarrow> rl_Keyspace x = ks \<and>
         bytes_compare (rl_StartKey x) k \<le> 0 \<and> bytes_compare k (rl_EndKey x) < 0)"

definition lock_exclusive :: "lock \<Rightarrow> bool" where
  "lock_exclusive l = (case l_Payload l of
       Lock_KeyLock x \<Rightarrow> kl_Exclusive x | Lock_RangeLock x \<Rightarrow> rl_Exclusive x)"

text \<open>A range lock is proper when its range is not empty; a key lock always is.\<close>

definition lock_proper :: "lock \<Rightarrow> bool" where
  "lock_proper l = (case l_Payload l of
       Lock_KeyLock x \<Rightarrow> True
     | Lock_RangeLock x \<Rightarrow> bytes_compare (rl_StartKey x) (rl_EndKey x) < 0)"

definition locks_conflict :: "lock \<Rightarrow> lock \<Rightarrow> bool" where
  "locks_conflict a b \<longleftrightarrow>
     (lock_exclusive a \<or> lock_exclusive b) \<and> (\<exists>ks k. lock_covers a ks k \<and> lock_covers b ks k)"

lemma CompatibleWith_sym: "CompatibleWith a b = CompatibleWith b a"
proof (cases "l_Payload a"; cases "l_Payload b")
  fix x y assume "l_Payload a = Lock_RangeLock x" "l_Payload b = Lock_RangeLock y"
  then show ?thesis
    by (auto simp: compat_defs bc.cmp_ge_swap)
qed (auto simp: compat_defs)

lemma conflict_imp_incompatible:
  assumes "locks_conflict a b"
  shows "\<not> CompatibleWith a b"
proof -
  obtain ks k where k: "lock_covers a ks k" "lock_covers b ks k"
    and ex: "lock_exclusive a \<or> lock_exclusive b"
    using assms by (auto simp: locks_conflict_def)
  show ?thesis
  proof (cases "l_Payload a"; cases "l_Payload b")
    fix x y assume pl: "l_Payload a = Lock_RangeLock x" "l_Payload b = Lock_RangeLock y"
    have "bytes_compare (rl_StartKey y) (rl_EndKey x) < 0"
      "bytes_compare (rl_StartKey x) (rl_EndKey y) < 0"
      using k pl by (auto simp: lock_covers_def intro: bc.cmp_le_less_trans)
    then show ?thesis
      using k ex pl by (auto simp: compat_defs lock_covers_def lock_exclusive_def bc.cmp_le_swap)
  qed (use k ex in \<open>auto simp: compat_defs lock_covers_def lock_exclusive_def bc.cmp_le_swap\<close>)
qed

lemma incompatible_imp_conflict:
  assumes "\<not> CompatibleWith a b" "lock_proper a" "lock_proper b"
  shows "locks_conflict a b"
proof (cases "l_Payload a"; cases "l_Payload b")
  fix x y assume pl: "l_Payload a = Lock_RangeLock x" "l_Payload b = Lock_RangeLock y"
  define k where "k = (if bytes_compare (rl_StartKey x) (rl_StartKey y) < 0
    then rl_StartKey y else rl_StartKey x)"
  have "lock_covers a (rl_Keyspace x) k" "lock_covers b (rl_Keyspace x) k"
    using assms pl unfolding k_def
    by (auto simp: compat_defs lock_covers_def lock_proper_def bc.cmp_le_swap bc.cmp_ge_swap
        bc.cmp_less_asym split: if_splits)
  moreover have "lock_exclusive a \<or> lock_exclusive b"
    using assms(1) pl by (auto simp: compat_defs lock_exclusive_def split: if_splits)
  ultimately show ?thesis by (auto simp: locks_conflict_def)
qed (use assms(1) in \<open>auto simp: compat_defs locks_conflict_def lock_covers_def lock_exclusive_def
      bc.cmp_le_swap split: if_splits\<close>)

lemma build_locks_mem: "l \<in> set (build_locks as) \<longleftrightarrow> (\<exists>a \<in> set as. BuildLock a = Some l)"
  by (induction as) (auto split: option.splits)

lemma all_read_only_iff: "all_read_only as \<longleftrightarrow> (\<forall>a \<in> set as. Action_IsReadOnly a)"
  by (induction as) auto

text \<open>The points an action writes, and the points its outcome depends on.\<close>

definition action_writes :: "action \<Rightarrow> u32 \<Rightarrow> bytes \<Rightarrow> bool" where
  "action_writes a ks k = (case a_Payload a of
       Action_Insert ks' k' _ \<Rightarrow> ks' = ks \<and> k' = k
     | Action_Update ks' k' _ \<Rightarrow> ks' = ks \<and> k' = k
     | Action_Upsert ks' k' _ \<Rightarrow> ks' = ks \<and> k' = k
     | Action_Delete ks' k' \<Rightarrow> ks' = ks \<and> k' = k
     | _ \<Rightarrow> False)"

definition action_touches :: "action \<Rightarrow> u32 \<Rightarrow> bytes \<Rightarrow> bool" where
  "action_touches a ks k = (case a_Payload a of
       Action_Read ks' k' \<Rightarrow> ks' = ks \<and> k' = k
     | Action_ReadRange ks' s e _ \<Rightarrow> ks' = ks \<and> bytes_compare s k \<le> 0 \<and> bytes_compare k e < 0
     | Action_LockKey l _ \<Rightarrow> kl_Keyspace l = ks \<and> kl_Key l = k
     | Action_LockRange l _ \<Rightarrow> rl_Keyspace l = ks \<and>
         bytes_compare (rl_StartKey l) k \<le> 0 \<and> bytes_compare k (rl_EndKey l) < 0
     | _ \<Rightarrow> action_writes a ks k)"

lemma BuildLock_writes:
  assumes "action_writes a ks k"
  shows "\<exists>l. BuildLock a = Some l \<and> lock_exclusive l \<and> lock_covers l ks k"
  using assms
  by (auto simp: action_writes_def BuildLock_def mk_key_lock_def lock_exclusive_def lock_covers_def
      split: action_payload.splits)

lemma BuildLock_touches:
  assumes "action_touches a ks k"
  shows "\<exists>l. BuildLock a = Some l \<and> lock_covers l ks k"
  using assms
  by (auto simp: action_touches_def action_writes_def BuildLock_def mk_key_lock_def lock_covers_def
      split: action_payload.splits)

section \<open>Properties\<close>



text \<open>
  C27: the locks of a transaction cover what it does. If one transaction writes a key that another
  one reads, writes or checks (alone or inside a range), then the locks built for the two
  transactions contain an incompatible pair.
\<close>

theorem BuildLocks_conflict:
  assumes "a \<in> set (t_Actions t)" "action_writes a ks k"
    and "b \<in> set (t_Actions u)" "action_touches b ks k"
  shows "\<exists>l \<in> set (BuildLocks t). \<exists>m \<in> set (BuildLocks u). \<not> CompatibleWith l m"
proof -
  obtain l where l: "BuildLock a = Some l" "lock_exclusive l" "lock_covers l ks k"
    using BuildLock_writes [OF assms(2)] by blast
  obtain m where m: "BuildLock b = Some m" "lock_covers m ks k"
    using BuildLock_touches [OF assms(4)] by blast
  have "locks_conflict l m" using l m by (auto simp: locks_conflict_def)
  then have "\<not> CompatibleWith l m" by (rule conflict_imp_incompatible)
  moreover have "l \<in> set (BuildLocks t)" "m \<in> set (BuildLocks u)"
    using l(1) m(1) assms(1,3) by (auto simp: BuildLocks_def build_locks_mem)
  ultimately show ?thesis by blast
qed

theorem BuildLocks_conflict_witness:
  "let i = \<lparr>PrincipalPid = 0, ServerId = 1, IdTimestamp = 1\<rparr>;
       a = \<lparr>a_Id = 0, a_Payload = Action_Upsert 16 [3] [9]\<rparr>;
       b = \<lparr>a_Id = 0, a_Payload = Action_ReadRange 16 [1] [5] 10\<rparr>;
       t = \<lparr>t_Id = i, t_Actions = [a], t_ParticipantPids = []\<rparr>;
       u = \<lparr>t_Id = i, t_Actions = [b], t_ParticipantPids = []\<rparr>
   in \<exists>l \<in> set (BuildLocks t). \<exists>m \<in> set (BuildLocks u). \<not> CompatibleWith l m"
  unfolding Let_def
  by (rule BuildLocks_conflict [where ks = 16 and k = "[3]"
        and a = "\<lparr>a_Id = 0, a_Payload = Action_Upsert 16 [3] [9]\<rparr>"
        and b = "\<lparr>a_Id = 0, a_Payload = Action_ReadRange 16 [1] [5] 10\<rparr>"])
    (simp_all add: action_writes_def action_touches_def)

end
