(* ===== verification/KV_Store.thy ===== *)
theory KV_Store
  imports Ordering
begin

text \<open>
  The key-value layer of a data server: addresses and their order
  (\<^verbatim>\<open>storage/kv/address.go\<close>), the interface every backing store implements
  (\<^verbatim>\<open>storage/kv/db.go\<close>), and the in-memory store (\<^verbatim>\<open>storage/inmem/inmem.go\<close>). The laws
  the layers above rely on are the locale \<open>kv_store\<close>, interpreted on the in-memory store.

  An operation of the interface takes the store and returns its answer with the store after the
  call. An iterator is the list of what it yields; a panic while it runs ends that list.
\<close>

section \<open>Keyspaces\<close>

text \<open>
  Keyspaces below \<^verbatim>\<open>FirstUserKeyspace\<close> belong to the stores themselves
  (\<^verbatim>\<open>src/internal/keyspace/keyspace.go\<close>); validation keeps user requests out of them.
\<close>

definition ReservedDB :: u32 where "ReservedDB = 0"
definition ReservedReplica :: u32 where "ReservedReplica = 1"
definition FirstUserKeyspace :: u32 where "FirstUserKeyspace = 16"

section \<open>Addresses\<close>

record kv_address =
  ka_Keyspace :: u32
  ka_Key :: bytes
  ka_Timestamp :: u64

definition kv_NewAddress :: "u32 \<Rightarrow> bytes \<Rightarrow> u64 \<Rightarrow> kv_address" where
  "kv_NewAddress ks k ts = \<lparr>ka_Keyspace = ks, ka_Key = k, ka_Timestamp = ts\<rparr>"

definition FirstAddress :: "u32 \<Rightarrow> kv_address" where
  "FirstAddress ks = kv_NewAddress ks [] max_u64"

definition FirstAddressForKey :: "u32 \<Rightarrow> bytes \<Rightarrow> kv_address" where
  "FirstAddressForKey ks k = kv_NewAddress ks k max_u64"

definition LastAddressForKey :: "u32 \<Rightarrow> bytes \<Rightarrow> kv_address" where
  "LastAddressForKey ks k = kv_NewAddress ks k 0"

text \<open>
  The carry loop shared by \<^verbatim>\<open>Next\<close> and \<^verbatim>\<open>NextKey\<close>: it walks the key from its first byte, adding
  one and stopping at the first byte that does not wrap. The flag says that a byte stopped it.
\<close>

fun incKey :: "bytes \<Rightarrow> bytes \<times> bool" where
  "incKey [] = ([], False)"
| "incKey (b # bs) =
     (if b + 1 \<noteq> 0 then ((b + 1) # bs, True)
      else (let (bs', stopped) = incKey bs in ((b + 1) # bs', stopped)))"

definition Address_Next :: "kv_address \<Rightarrow> kv_address" where
  "Address_Next a =
     (let timestamp = ka_Timestamp a - 1 in
      if timestamp \<noteq> max_u64 then kv_NewAddress (ka_Keyspace a) (ka_Key a) timestamp
      else (let (key, stopped) = incKey (ka_Key a) in
            if stopped then kv_NewAddress (ka_Keyspace a) key timestamp
            else kv_NewAddress (ka_Keyspace a + 1) key timestamp))"

definition Address_NextKey :: "kv_address \<Rightarrow> kv_address" where
  "Address_NextKey a =
     (let (key, stopped) = incKey (ka_Key a) in
      if stopped then kv_NewAddress (ka_Keyspace a) key max_u64
      else kv_NewAddress (ka_Keyspace a + 1) key max_u64)"

definition Address_Compare :: "kv_address \<Rightarrow> kv_address \<Rightarrow> int" where
  "Address_Compare a b =
     (let x = uint (ka_Keyspace a) - uint (ka_Keyspace b) in
      if x \<noteq> 0 then x
      else (let x = bytes_compare (ka_Key a) (ka_Key b) in
            if x \<noteq> 0 then x
            else if ka_Timestamp a > ka_Timestamp b then - 1
            else if ka_Timestamp a < ka_Timestamp b then 1
            else 0))"

definition Address_Before :: "kv_address \<Rightarrow> kv_address \<Rightarrow> bool" where
  "Address_Before a b = (Address_Compare a b < 0)"

definition Address_After :: "kv_address \<Rightarrow> kv_address \<Rightarrow> bool" where
  "Address_After a b = (Address_Compare a b > 0)"

section \<open>The interface of a key-value store\<close>

record kv_record =
  kr_Address :: kv_address
  kr_Data :: bytes

datatype 'a item = Item 'a | ItemErr err | ItemPanic

type_synonym kv_iter = "kv_record item list"

record 'db kv_ops =
  kv_InitPartition :: "'db \<Rightarrow> u32 \<Rightarrow> err option \<times> 'db"
  kv_DropPartition :: "'db \<Rightarrow> u32 \<Rightarrow> err option \<times> 'db"
  kv_SyncPartition :: "'db \<Rightarrow> u32 \<Rightarrow> err option \<times> 'db"
  kv_GetIndex :: "'db \<Rightarrow> u32 \<Rightarrow> bool \<Rightarrow> (err + u64) \<times> 'db"
  kv_Put :: "'db \<Rightarrow> u32 \<Rightarrow> u64 \<Rightarrow> kv_record list \<Rightarrow> err option \<times> 'db"
  kv_Get :: "'db \<Rightarrow> u32 \<Rightarrow> kv_address \<Rightarrow> (err + kv_record option) \<times> 'db"
  kv_GetRange :: "'db \<Rightarrow> u32 \<Rightarrow> kv_address \<Rightarrow> kv_address option \<Rightarrow> (err + kv_iter) \<times> 'db"
  kv_GetStream :: "'db \<Rightarrow> u32 \<Rightarrow> kv_address \<Rightarrow> (err + kv_iter) \<times> 'db"

section \<open>The in-memory store\<close>

record partition =
  p_index :: u64
  p_records :: "kv_record list"

type_synonym inmem = "(u32, partition) gomap"

definition inmem_New :: inmem where
  "inmem_New = []"

definition inmem_InitPartition :: "inmem \<Rightarrow> u32 \<Rightarrow> err option \<times> inmem" where
  "inmem_InitPartition d pid = (case mget d pid of
       Some _ \<Rightarrow> (None, d)
     | None \<Rightarrow> (None, mput pid \<lparr>p_index = 0, p_records = []\<rparr> d))"

definition inmem_DropPartition :: "inmem \<Rightarrow> u32 \<Rightarrow> err option \<times> inmem" where
  "inmem_DropPartition d pid = (None, mdel pid d)"

definition inmem_SyncPartition :: "inmem \<Rightarrow> u32 \<Rightarrow> err option \<times> inmem" where
  "inmem_SyncPartition d pid = (None, d)"

definition getPartition :: "inmem \<Rightarrow> u32 \<Rightarrow> err + partition" where
  "getPartition d pid = (case mget d pid of None \<Rightarrow> Inl NotFound | Some part \<Rightarrow> Inr part)"

definition inmem_GetIndex :: "inmem \<Rightarrow> u32 \<Rightarrow> bool \<Rightarrow> (err + u64) \<times> inmem" where
  "inmem_GetIndex d pid persistedOnDisk = (case getPartition d pid of
       Inl e \<Rightarrow> (Inl e, d)
     | Inr part \<Rightarrow> (Inr (p_index part), d))"

definition findFirst :: "kv_record list \<Rightarrow> kv_address \<Rightarrow> nat \<times> bool" where
  "findFirst recs addr =
     sort_find (length recs) (\<lambda>i. Address_Compare addr (kr_Address (recs ! i)))"

definition inmem_Get :: "inmem \<Rightarrow> u32 \<Rightarrow> kv_address \<Rightarrow> (err + kv_record option) \<times> inmem" where
  "inmem_Get d pid address = (case getPartition d pid of
       Inl e \<Rightarrow> (Inl e, d)
     | Inr part \<Rightarrow> (let (i, found) = findFirst (p_records part) address in
         if \<not> found then (Inr None, d) else (Inr (Some (p_records part ! i)), d)))"

text \<open>The iterator of \<^verbatim>\<open>GetRange\<close> walks the records from the start index up to the end address.\<close>

fun range_loop :: "kv_address option \<Rightarrow> kv_record list \<Rightarrow> kv_iter" where
  "range_loop e [] = []"
| "range_loop e (a # as) =
     (if (case e of Some x \<Rightarrow> Address_Compare (kr_Address a) x \<ge> 0 | None \<Rightarrow> False) then []
      else Item a # range_loop e as)"

definition inmem_GetRange ::
    "inmem \<Rightarrow> u32 \<Rightarrow> kv_address \<Rightarrow> kv_address option \<Rightarrow> (err + kv_iter) \<times> inmem" where
  "inmem_GetRange d pid s e = (case getPartition d pid of
       Inl er \<Rightarrow> (Inl er, d)
     | Inr part \<Rightarrow>
         (let (startIdx, _) = findFirst (p_records part) s
          in (Inr (range_loop e (drop startIdx (p_records part))), d)))"

definition inmem_GetStream :: "inmem \<Rightarrow> u32 \<Rightarrow> kv_address \<Rightarrow> (err + kv_iter) \<times> inmem" where
  "inmem_GetStream d pid s = inmem_GetRange d pid s None"

definition putOne :: "kv_record list \<Rightarrow> kv_record \<Rightarrow> err option \<times> kv_record list" where
  "putOne recs r =
     (let (i, found) = findFirst recs (kr_Address r) in
      if found then
        (if kr_Data r \<noteq> kr_Data (recs ! i) then (Some (OtherError ''key overwrite detected''), recs)
         else (None, recs))
      else (None, recs @ [r]))"

fun put_loop :: "kv_record list \<Rightarrow> kv_record list \<Rightarrow> err option \<times> kv_record list" where
  "put_loop recs [] = (None, recs)"
| "put_loop recs (r # rs) =
     (if ka_Timestamp (kr_Address r) = 0
      then (Some (OtherError ''trying to put key with missing timestamp''), recs)
      else (case putOne recs r of
              (Some e, recs') \<Rightarrow> (Some e, recs')
            | (None, recs') \<Rightarrow> put_loop recs' rs))"

definition inmem_Put :: "inmem \<Rightarrow> u32 \<Rightarrow> u64 \<Rightarrow> kv_record list \<Rightarrow> err option \<times> inmem" where
  "inmem_Put d pid index records = (case getPartition d pid of
       Inl e \<Rightarrow> (Some e, d)
     | Inr part \<Rightarrow> (case put_loop (p_records part) records of
           (Some e, recs) \<Rightarrow> (Some e, mput pid (part\<lparr>p_records := recs\<rparr>) d)
         | (None, recs) \<Rightarrow> (None, mput pid
             \<lparr>p_index = max (p_index part) index,
              p_records = sort_sort (\<lambda>a b. Address_Before (kr_Address a) (kr_Address b)) recs\<rparr> d)))"

definition inmem_ops :: "inmem kv_ops" where
  "inmem_ops =
     \<lparr>kv_InitPartition = inmem_InitPartition, kv_DropPartition = inmem_DropPartition,
      kv_SyncPartition = inmem_SyncPartition, kv_GetIndex = inmem_GetIndex,
      kv_Put = inmem_Put, kv_Get = inmem_Get, kv_GetRange = inmem_GetRange,
      kv_GetStream = inmem_GetStream\<rparr>"

lemma inmem_ops_simps [simp]:
  "kv_InitPartition inmem_ops = inmem_InitPartition" "kv_DropPartition inmem_ops = inmem_DropPartition"
  "kv_SyncPartition inmem_ops = inmem_SyncPartition" "kv_GetIndex inmem_ops = inmem_GetIndex"
  "kv_Put inmem_ops = inmem_Put" "kv_Get inmem_ops = inmem_Get"
  "kv_GetRange inmem_ops = inmem_GetRange" "kv_GetStream inmem_ops = inmem_GetStream"
  by (simp_all add: inmem_ops_def)

section \<open>The order of addresses\<close>

lemma NewAddress_sel [simp]:
  "ka_Keyspace (kv_NewAddress ks k ts) = ks" "ka_Key (kv_NewAddress ks k ts) = k"
  "ka_Timestamp (kv_NewAddress ks k ts) = ts"
  by (simp_all add: kv_NewAddress_def)

lemma NewAddress_eta [simp]:
  "kv_NewAddress (ka_Keyspace a) (ka_Key a) (ka_Timestamp a) = (a :: kv_address)"
  by (simp add: kv_NewAddress_def)

lemma kv_address_eq_iff:
  "a = b \<longleftrightarrow> ka_Keyspace a = ka_Keyspace b \<and> ka_Key a = ka_Key b \<and> ka_Timestamp a = ka_Timestamp (b :: kv_address)"
  by (cases a; cases b) simp

lemma Address_Compare_cases:
  "Address_Compare a b =
     (if ka_Keyspace a \<noteq> ka_Keyspace b then uint (ka_Keyspace a) - uint (ka_Keyspace b)
      else if ka_Key a \<noteq> ka_Key b then bytes_compare (ka_Key a) (ka_Key b)
      else if ka_Timestamp a > ka_Timestamp b then - 1
      else if ka_Timestamp a < ka_Timestamp b then 1 else 0)"
  by (auto simp: Address_Compare_def Let_def bytes_compare_eq word_uint_eq_iff [symmetric])

text \<open>
  The sign of \<^verbatim>\<open>Compare\<close>: the lexicographic order on keyspace, key and timestamp with the
  timestamp reversed.
\<close>

lemma Address_Compare_less:
  "Address_Compare a b < 0 \<longleftrightarrow>
     ka_Keyspace a < ka_Keyspace b \<or> ka_Keyspace a = ka_Keyspace b \<and>
       (bytes_compare (ka_Key a) (ka_Key b) < 0 \<or>
        ka_Key a = ka_Key b \<and> ka_Timestamp b < ka_Timestamp a)"
  unfolding Address_Compare_cases by (auto simp: word_less_def [symmetric])

lemma Address_Compare_zero: "Address_Compare a b = 0 \<longleftrightarrow> a = b"
  unfolding Address_Compare_cases kv_address_eq_iff
  by (auto simp: bytes_compare_eq word_uint_eq_iff [symmetric])

lemma Address_Compare_pos: "Address_Compare a b > 0 \<longleftrightarrow> Address_Compare b a < 0"
  using bytes_compare_swap [of "ka_Key a" "ka_Key b"] unfolding Address_Compare_cases by auto

lemma Address_Compare_trans:
  assumes "Address_Compare a b < 0" "Address_Compare b c < 0"
  shows "Address_Compare a c < 0"
proof (cases "ka_Keyspace a = ka_Keyspace b \<and> ka_Keyspace b = ka_Keyspace c")
  case True
  then show ?thesis
    using assms bc.cmp_trans [of "ka_Key a" "ka_Key b" "ka_Key c"]
    by (cases "ka_Key a = ka_Key b"; cases "ka_Key b = ka_Key c") (simp_all add: Address_Compare_less)
next
  case False
  then have "ka_Keyspace a < ka_Keyspace c"
    using assms by (auto simp: Address_Compare_less)
  then show ?thesis by (simp add: Address_Compare_less)
qed

interpretation ac: comparator Address_Compare
  by unfold_locales
    (simp_all add: Address_Compare_zero Address_Compare_pos Address_Compare_trans)

lemma inc_byte:
  fixes b :: u8
  assumes "b \<noteq> 255"
  shows "b + 1 \<noteq> 0" "b < b + 1"
proof -
  show b: "b + 1 \<noteq> 0"
  proof
    assume "b + 1 = 0"
    then have "b = - 1" by (simp add: eq_neg_iff_add_eq_0)
    moreover have "(- 1 :: u8) = 255" by simp
    ultimately show False using assms by metis
  qed
  then show "b < b + 1"
    using unatSuc [of b] by (simp add: word_less_nat_alt add.commute)
qed

abbreviation recs_sorted :: "kv_record list \<Rightarrow> bool" where
  "recs_sorted \<equiv> sorted_wrt (\<lambda>a b. Address_Compare (kr_Address a) (kr_Address b) < 0)"

section \<open>What the in-memory store computes\<close>

lemma findFirst_found:
  assumes "findFirst recs a = (i, True)"
  shows "i < length recs \<and> kr_Address (recs ! i) = a"
  using assms by (auto simp: findFirst_def sort_find_def Let_def Address_Compare_zero)

lemma findFirst_fresh:
  assumes "a \<notin> kr_Address ` set recs"
  shows "\<exists>i. findFirst recs a = (i, False)"
proof (cases "findFirst recs a")
  case (Pair i found)
  show ?thesis
  proof (cases found)
    case True
    then have "i < length recs \<and> kr_Address (recs ! i) = a" using Pair findFirst_found by simp
    then have "a \<in> kr_Address ` set recs" by auto
    with assms show ?thesis by simp
  qed (use Pair in simp)
qed

lemma findFirst_drop:
  assumes "recs_sorted recs" "findFirst recs a = (i, found)"
  shows "drop i recs = filter (\<lambda>r. Address_Compare a (kr_Address r) \<le> 0) recs"
proof -
  note f = ac.sort_find_sorted [OF assms(1), of a i found, OF assms(2) [unfolded findFirst_def]]
  let ?P = "\<lambda>r. Address_Compare a (kr_Address r) \<le> 0"
  have "filter ?P (take i recs) = []"
    using f(2) by (auto simp: filter_empty_conv ac.cmp_le_swap)
  moreover have "filter ?P (drop i recs) = drop i recs"
    using f(3) by (simp add: filter_id_conv)
  ultimately show ?thesis
    using filter_append [of ?P "take i recs" "drop i recs"] by simp
qed

lemma findFirst_sorted:
  assumes "recs_sorted recs" "findFirst recs a = (i, found)"
  shows "found \<longleftrightarrow> a \<in> kr_Address ` set recs"
  using ac.sort_find_sorted(4) [OF assms(1), of a i found, OF assms(2) [unfolded findFirst_def]] .

definition in_range :: "kv_address \<Rightarrow> kv_address option \<Rightarrow> kv_record \<Rightarrow> bool" where
  "in_range s e r \<longleftrightarrow> Address_Compare s (kr_Address r) \<le> 0 \<and>
     (case e of None \<Rightarrow> True | Some x \<Rightarrow> Address_Compare (kr_Address r) x < 0)"

lemma range_loop_None: "range_loop None recs = map Item recs"
  by (induction recs) auto

lemma range_loop_Some:
  "recs_sorted recs \<Longrightarrow>
   range_loop (Some x) recs = map Item (filter (\<lambda>r. Address_Compare (kr_Address r) x < 0) recs)"
proof (induction recs)
  case (Cons a as)
  show ?case
  proof (cases "Address_Compare (kr_Address a) x < 0")
    case False
    have "\<not> Address_Compare (kr_Address r) x < 0" if "r \<in> set as" for r
    proof
      assume "Address_Compare (kr_Address r) x < 0"
      moreover have "Address_Compare (kr_Address a) (kr_Address r) < 0" using Cons.prems that by simp
      ultimately show False using False ac.cmp_trans by blast
    qed
    with False show ?thesis by (simp add: filter_empty_conv)
  qed (use Cons in auto)
qed simp

lemma range_loop_sorted:
  assumes "recs_sorted recs" "findFirst recs s = (i, found)"
  shows "range_loop e (drop i recs) = map Item (filter (in_range s e) recs)"
proof (cases e)
  case None
  then show ?thesis
    by (simp add: range_loop_None findFirst_drop [OF assms] in_range_def [abs_def])
next
  case (Some x)
  have "recs_sorted (filter (\<lambda>r. Address_Compare s (kr_Address r) \<le> 0) recs)"
    using assms(1) by (simp add: sorted_wrt_filter)
  then show ?thesis
    by (simp add: Some range_loop_Some findFirst_drop [OF assms] in_range_def [abs_def]
        conj_commute)
qed

lemma put_loop_fresh:
  assumes "distinct (map kr_Address rs)" "kr_Address ` set rs \<inter> kr_Address ` set recs = {}"
    and "\<forall>r \<in> set rs. ka_Timestamp (kr_Address r) \<noteq> 0"
  shows "put_loop recs rs = (None, recs @ rs)"
  using assms
proof (induction rs arbitrary: recs)
  case (Cons r rs)
  obtain i where "findFirst recs (kr_Address r) = (i, False)"
    using findFirst_fresh [of "kr_Address r" recs] Cons.prems(2) by auto
  then have "putOne recs r = (None, recs @ [r])" by (simp add: putOne_def)
  moreover have "kr_Address ` set rs \<inter> kr_Address ` set (recs @ [r]) = {}"
    using Cons.prems(1,2) by auto
  ultimately show ?case using Cons.IH [of "recs @ [r]"] Cons.prems(1,3) by simp
qed simp

definition add_records :: "kv_record list \<Rightarrow> kv_record list \<Rightarrow> kv_record list" where
  "add_records recs rs =
     sort_sort (\<lambda>a b. Address_Before (kr_Address a) (kr_Address b)) (recs @ rs)"

definition fresh_records :: "kv_record list \<Rightarrow> kv_record list \<Rightarrow> bool" where
  "fresh_records recs rs \<longleftrightarrow> distinct (map kr_Address rs) \<and>
     kr_Address ` set rs \<inter> kr_Address ` set recs = {} \<and>
     (\<forall>r \<in> set rs. ka_Timestamp (kr_Address r) \<noteq> 0)"

lemma set_add_records [simp]: "set (add_records recs rs) = set recs \<union> set rs"
  by (simp add: add_records_def)

lemma add_records_sorted:
  assumes "recs_sorted recs" "fresh_records recs rs"
  shows "recs_sorted (add_records recs rs)"
proof -
  have "distinct (map kr_Address recs)" using assms(1) by (rule ac.sorted_by_distinct)
  then have "distinct (map kr_Address (recs @ rs))"
    using assms(2) by (auto simp: fresh_records_def)
  from ac.sort_sort_sorted [OF this] show ?thesis
    by (simp add: add_records_def Address_Before_def)
qed

definition inmem_inv :: "inmem \<Rightarrow> bool" where
  "inmem_inv d \<longleftrightarrow> (\<forall>pid part. mget d pid = Some part \<longrightarrow> recs_sorted (p_records part))"

definition inmem_contents :: "inmem \<Rightarrow> u32 \<Rightarrow> kv_record list option" where
  "inmem_contents d pid = map_option p_records (mget d pid)"

lemma find_sorted:
  assumes "recs_sorted recs" "r \<in> set recs"
  shows "find (\<lambda>x. kr_Address x = kr_Address r) recs = Some r"
  using assms by (induction recs) auto

section \<open>The laws of a key-value store\<close>

locale kv_store =
  fixes ops :: "'db kv_ops" and contents :: "'db \<Rightarrow> u32 \<Rightarrow> kv_record list option"
    and inv :: "'db \<Rightarrow> bool"
  assumes contents_sorted: "inv db \<Longrightarrow> contents db pid = Some recs \<Longrightarrow> recs_sorted recs"
    and no_partition: "inv db \<Longrightarrow> contents db pid = None \<Longrightarrow>
      kv_Get ops db pid a = (Inl NotFound, db) \<and> kv_GetRange ops db pid a e = (Inl NotFound, db) \<and>
      kv_Put ops db pid index rs = (Some NotFound, db)"
    and get_law: "inv db \<Longrightarrow> contents db pid = Some recs \<Longrightarrow>
      kv_Get ops db pid a = (Inr (find (\<lambda>r. kr_Address r = a) recs), db)"
    and get_range_law: "inv db \<Longrightarrow> contents db pid = Some recs \<Longrightarrow>
      kv_GetRange ops db pid a e = (Inr (map Item (filter (in_range a e) recs)), db)"
    and put_law: "inv db \<Longrightarrow> contents db pid = Some recs \<Longrightarrow> fresh_records recs rs \<Longrightarrow>
      \<exists>db'. kv_Put ops db pid index rs = (None, db') \<and> inv db' \<and>
        contents db' pid = Some (add_records recs rs) \<and>
        (\<forall>p. p \<noteq> pid \<longrightarrow> contents db' p = contents db p)"
begin

lemma get_after_put:
  assumes "inv db" "contents db pid = Some recs" "fresh_records recs rs"
    and "kv_Put ops db pid index rs = (None, db')"
  shows "kv_Get ops db' pid a = (Inr (case find (\<lambda>r. kr_Address r = a) rs of
           Some r \<Rightarrow> Some r | None \<Rightarrow> find (\<lambda>r. kr_Address r = a) recs), db')"
proof -
  have db': "inv db'" "contents db' pid = Some (add_records recs rs)"
    using put_law [OF assms(1,2,3), of index] assms(4) by auto
  note srt = add_records_sorted [OF contents_sorted [OF assms(1,2)] assms(3)]
  have "find (\<lambda>r. kr_Address r = a) (add_records recs rs) = (case find (\<lambda>r. kr_Address r = a) rs of
           Some r \<Rightarrow> Some r | None \<Rightarrow> find (\<lambda>r. kr_Address r = a) recs)"
  proof (cases "\<exists>r \<in> set (add_records recs rs). kr_Address r = a")
    case True
    then obtain r where r: "r \<in> set recs \<union> set rs" "kr_Address r = a" by auto
    have a1: "find (\<lambda>r. kr_Address r = a) (add_records recs rs) = Some r"
      using find_sorted [OF srt, of r] r by auto
    show ?thesis
    proof (cases "find (\<lambda>r. kr_Address r = a) rs")
      case None
      then have "r \<in> set recs" using r by (auto simp: find_None_iff)
      then show ?thesis
        using a1 None find_sorted [OF contents_sorted [OF assms(1,2)]] r(2) by auto
    next
      case (Some q)
      then have q: "q \<in> set rs" "kr_Address q = a" by (auto simp: find_Some_iff)
      then show ?thesis using a1 Some find_sorted [OF srt, of q] by simp
    qed
  next
    case False
    then have "find (\<lambda>r. kr_Address r = a) l = None" if "set l \<subseteq> set recs \<union> set rs" for l
      using that by (auto simp: find_None_iff)
    then show ?thesis by simp
  qed
  with get_law [OF db'] show ?thesis by simp
qed

end


lemma inmem_Get_law:
  assumes "inmem_inv d" "inmem_contents d pid = Some recs"
  shows "inmem_Get d pid a = (Inr (find (\<lambda>r. kr_Address r = a) recs), d)"
proof -
  obtain part where part: "mget d pid = Some part" "p_records part = recs"
    using assms(2) by (auto simp: inmem_contents_def)
  have srt: "recs_sorted recs" using assms(1) part by (auto simp: inmem_inv_def)
  obtain i found where f: "findFirst recs a = (i, found)" by fastforce
  show ?thesis
  proof (cases found)
    case True
    then have r: "recs ! i \<in> set recs" "kr_Address (recs ! i) = a"
      using findFirst_found f by auto
    have "find (\<lambda>r. kr_Address r = a) recs = Some (recs ! i)"
      using find_sorted [OF srt r(1)] r(2) by simp
    then show ?thesis using part f True by (simp add: inmem_Get_def getPartition_def)
  next
    case False
    then have "find (\<lambda>r. kr_Address r = a) recs = None"
      using findFirst_sorted [OF srt f] by (auto simp: find_None_iff)
    then show ?thesis using part f False by (simp add: inmem_Get_def getPartition_def)
  qed
qed

interpretation inm: kv_store inmem_ops inmem_contents inmem_inv
proof (unfold_locales, goal_cases)
  case (1 db pid recs)
  then show ?case by (auto simp: inmem_inv_def inmem_contents_def)
next
  case (2 db pid a e index rs)
  then show ?case
    by (simp add: inmem_contents_def inmem_Get_def inmem_GetRange_def inmem_Put_def getPartition_def)
next
  case (3 db pid recs a)
  then show ?case using inmem_Get_law by simp
next
  case (4 db pid recs a e)
  then obtain part where "mget db pid = Some part" "p_records part = recs" "recs_sorted recs"
    by (auto simp: inmem_contents_def inmem_inv_def)
  then show ?case
    using range_loop_sorted [of recs a _ _ e]
    by (auto simp: inmem_GetRange_def getPartition_def split: prod.splits)
next
  case (5 db pid recs rs index)
  then obtain part where part: "mget db pid = Some part" "p_records part = recs" "recs_sorted recs"
    by (auto simp: inmem_contents_def inmem_inv_def)
  have "put_loop recs rs = (None, recs @ rs)"
    using 5(3) put_loop_fresh by (auto simp: fresh_records_def)
  then show ?case
    using part 5(1) add_records_sorted [OF part(3) 5(3)]
    by (auto simp: inmem_Put_def getPartition_def inmem_inv_def inmem_contents_def add_records_def)
qed

section \<open>Properties\<close>



text \<open>
  C37: within one key \<^verbatim>\<open>Next\<close> is the immediate successor. For an address with a non-zero timestamp
  \<^verbatim>\<open>Next\<close> lies strictly after it and no address lies strictly between the two.
\<close>

theorem Address_Next_successor:
  assumes "ka_Timestamp a \<noteq> 0"
  shows "Address_Before a (Address_Next a) \<and>
    \<not> (\<exists>b. Address_Before a b \<and> Address_Before b (Address_Next a))"
proof -
  have n: "Address_Next a = kv_NewAddress (ka_Keyspace a) (ka_Key a) (ka_Timestamp a - 1)"
    using assms by (simp add: Address_Next_def Let_def)
  have lt: "ka_Timestamp a - 1 < ka_Timestamp a"
    using assms by (simp add: word_less_nat_alt unat_minus_one unat_gt_0)
  have "\<not> (ka_Timestamp b < ka_Timestamp a \<and> ka_Timestamp a - 1 < ka_Timestamp b)" for b :: kv_address
    using assms by (auto simp: word_less_nat_alt unat_minus_one)
  then show ?thesis
    using lt bc.cmp_less_asym by (auto simp: Address_Before_def Address_Compare_less n)
qed

theorem Address_Next_successor_witness:
  "let a = kv_NewAddress 16 [1] 5 in
   ka_Timestamp a \<noteq> 0 \<and> Address_Before a (Address_Next a) \<and>
   \<not> (\<exists>b. Address_Before a b \<and> Address_Before b (Address_Next a))"
  using Address_Next_successor [of "kv_NewAddress 16 [1] 5"] by simp

text \<open>
  C38: across keys \<^verbatim>\<open>Next\<close> is not the successor. The carry loop increments the first byte of the
  key, the most significant one, so from the last address of a key whose first byte is not 255
  it jumps over every version of every longer key that has this key as a proper prefix.
\<close>

theorem Address_Next_skips_longer_keys:
  assumes "b \<noteq> 255" "suffix \<noteq> []"
  shows "Address_Before (LastAddressForKey ks (b # bs)) (kv_NewAddress ks (b # bs @ suffix) ts) \<and>
    Address_Before (kv_NewAddress ks (b # bs @ suffix) ts)
      (Address_Next (LastAddressForKey ks (b # bs)))"
proof -
  note inc = inc_byte [OF assms(1)]
  have "bytes_compare bs (bs @ suffix) < 0"
    using bytes_compare_append_same [of bs "[]" suffix] assms(2) by (cases suffix) simp_all
  then show ?thesis
    using inc by (simp add: Address_Before_def Address_Compare_less LastAddressForKey_def
        Address_Next_def Let_def)
qed

theorem Address_Next_skips_longer_keys_witness:
  "Address_Before (kv_NewAddress 16 [1, 2] 7) (Address_Next (LastAddressForKey 16 [1]))"
  using Address_Next_skips_longer_keys [of 1 "[2]" 16 "[]" 7] by simp

end
