(* ===== verification/Retry.thy ===== *)
theory Retry
  imports Prelude
begin

text \<open>
  The retry helpers of \<^verbatim>\<open>src/internal/utils/retries.go\<close>. The work function is a partial state
  transformer: \<open>None\<close> is a call that ends the process. The context is the sequence of answers
  that \<^verbatim>\<open>ctx.Err()\<close> and \<^verbatim>\<open>ctx.Done()\<close> give when the loop looks at them, three per round: at the
  loop head, after the work failed, and while it waits. The length of the wait between two
  attempts (back-off and jitter) affects no result and is left out.
\<close>

section \<open>Definitions\<close>

type_synonym ctx = "nat \<Rightarrow> err option"

definition Background :: ctx where
  "Background = (\<lambda>_. None)"

definition retry_result :: "ctx \<Rightarrow> nat \<Rightarrow> err option \<Rightarrow> err option" where
  "retry_result c n lastErr = (case lastErr of
       Some e \<Rightarrow> Some e
     | None \<Rightarrow> (case c n of Some e \<Rightarrow> Some e | None \<Rightarrow> Some (OtherError ''retry failed'')))"

fun retry_loop ::
    "ctx \<Rightarrow> ('s \<Rightarrow> (err option \<times> 's) option) \<Rightarrow> nat \<Rightarrow> nat \<Rightarrow> err option \<Rightarrow> 's \<Rightarrow> (err option \<times> 's) option" where
  "retry_loop c work 0 n lastErr s = Some (retry_result c n lastErr, s)"
| "retry_loop c work (Suc retriesLeft) n lastErr s =
     (if c n \<noteq> None then Some (retry_result c n lastErr, s)
      else do {
        (r, s') \<leftarrow> work s;
        (case r of
           None \<Rightarrow> Some (None, s')
         | Some e \<Rightarrow>
             if c (n + 1) \<noteq> None then Some (Some e, s')
             else if c (n + 2) \<noteq> None then Some (retry_result c (n + 2) (Some e), s')
             else retry_loop c work retriesLeft (n + 3) (Some e) s')
      })"

definition RetryContextE ::
    "ctx \<Rightarrow> nat \<Rightarrow> ('s \<Rightarrow> (err option \<times> 's) option) \<Rightarrow> 's \<Rightarrow> (err option \<times> 's) option" where
  "RetryContextE c maxAttempts work s = retry_loop c work maxAttempts 0 None s"

definition RetryContextB ::
    "ctx \<Rightarrow> nat \<Rightarrow> ('s \<Rightarrow> (err option \<times> 's) option) \<Rightarrow> 's \<Rightarrow> (bool \<times> 's) option" where
  "RetryContextB c maxAttempts work s = do {
     (e, s') \<leftarrow> RetryContextE c maxAttempts work s;
     Some (e = None, s')
   }"

text \<open>
  \<^verbatim>\<open>RetryContextR\<close> wraps the work so that its result is left in a captured variable, here a
  component of the state.
\<close>

definition work2 ::
    "('s \<Rightarrow> ((err + 'r) \<times> 's) option) \<Rightarrow> 'r option \<times> 's \<Rightarrow> (err option \<times> ('r option \<times> 's)) option" where
  "work2 work = (\<lambda>(_, s). do {
     (x, s') \<leftarrow> work s;
     Some (case x of Inl e \<Rightarrow> (Some e, (None, s')) | Inr r \<Rightarrow> (None, (Some r, s')))
   })"

definition RetryContextR ::
    "ctx \<Rightarrow> nat \<Rightarrow> ('s \<Rightarrow> ((err + 'r) \<times> 's) option) \<Rightarrow> 's \<Rightarrow> ((err + 'r) \<times> 's) option" where
  "RetryContextR c maxAttempts work s = do {
     (e, (r, s')) \<leftarrow> RetryContextE c maxAttempts (work2 work) (None, s);
     (case e of
        Some er \<Rightarrow> Some (Inl er, s')
      | None \<Rightarrow> do { x \<leftarrow> r; Some (Inr x, s') })
   }"

definition RetryE ::
    "nat \<Rightarrow> ('s \<Rightarrow> (err option \<times> 's) option) \<Rightarrow> 's \<Rightarrow> (err option \<times> 's) option" where
  "RetryE maxAttempts work s = RetryContextE Background maxAttempts work s"

definition RetryB ::
    "nat \<Rightarrow> ('s \<Rightarrow> (err option \<times> 's) option) \<Rightarrow> 's \<Rightarrow> (bool \<times> 's) option" where
  "RetryB maxAttempts work s = RetryContextB Background maxAttempts work s"

definition RetryR ::
    "nat \<Rightarrow> ('s \<Rightarrow> ((err + 'r) \<times> 's) option) \<Rightarrow> 's \<Rightarrow> ((err + 'r) \<times> 's) option" where
  "RetryR maxAttempts work s = RetryContextR Background maxAttempts work s"

definition MaxInt :: nat where
  "MaxInt = 2 ^ 63 - 1"

definition RetryForeverE ::
    "ctx \<Rightarrow> ('s \<Rightarrow> (err option \<times> 's) option) \<Rightarrow> 's \<Rightarrow> (err option \<times> 's) option" where
  "RetryForeverE c work s = RetryContextE c MaxInt work s"

definition RetryForeverB ::
    "ctx \<Rightarrow> ('s \<Rightarrow> (err option \<times> 's) option) \<Rightarrow> 's \<Rightarrow> (bool \<times> 's) option" where
  "RetryForeverB c work s = do { (e, s') \<leftarrow> RetryForeverE c work s; Some (e = None, s') }"

definition RetryForeverR ::
    "ctx \<Rightarrow> ('s \<Rightarrow> ((err + 'r) \<times> 's) option) \<Rightarrow> 's \<Rightarrow> ((err + 'r) \<times> 's) option" where
  "RetryForeverR c work s = RetryContextR c MaxInt work s"

section \<open>What the loop does\<close>

text \<open>\<open>fails work k s\<close> is the state after \<open>k\<close> failed attempts in a row, if they all fail.\<close>

fun fails :: "('s \<Rightarrow> (err option \<times> 's) option) \<Rightarrow> nat \<Rightarrow> 's \<Rightarrow> 's option" where
  "fails work 0 s = Some s"
| "fails work (Suc k) s = (case work s of Some (Some e, s') \<Rightarrow> fails work k s' | _ \<Rightarrow> None)"

lemma retry_loop_success:
  "retry_loop Background work m n le s = Some (None, s') \<longleftrightarrow>
   (\<exists>k < m. \<exists>t. fails work k s = Some t \<and> work t = Some (None, s'))"
proof (induction m arbitrary: n le s)
  case 0
  then show ?case by (simp add: retry_result_def Background_def split: option.splits)
next
  case (Suc m)
  show ?case
  proof (cases "work s")
    case (Some p)
    obtain r t where p: "p = (r, t)" by (cases p)
    show ?thesis
    proof (cases r)
      case None
      have "(\<exists>k < Suc m. \<exists>u. fails work k s = Some u \<and> work u = Some (None, s')) \<longleftrightarrow> t = s'"
      proof
        assume "\<exists>k < Suc m. \<exists>u. fails work k s = Some u \<and> work u = Some (None, s')"
        then obtain k u where "fails work k s = Some u" "work u = Some (None, s')" by blast
        with Some p None show "t = s'" by (cases k) auto
      next
        assume "t = s'"
        with Some p None show "\<exists>k < Suc m. \<exists>u. fails work k s = Some u \<and> work u = Some (None, s')"
          by (intro exI [of _ 0]) simp
      qed
      then show ?thesis using Some p None by (auto simp: Background_def)
    next
      case (Some e)
      have "(\<exists>k < Suc m. \<exists>u. fails work k s = Some u \<and> work u = Some (None, s')) \<longleftrightarrow>
            (\<exists>k < m. \<exists>u. fails work k t = Some u \<and> work u = Some (None, s'))"
        unfolding Ex_less_Suc2 using \<open>work s = Some p\<close> p Some by auto
      then show ?thesis using \<open>work s = Some p\<close> p Some Suc.IH by (simp add: Background_def)
    qed
  next
    case None
    then have "\<not> (\<exists>k < Suc m. \<exists>u. fails work k s = Some u \<and> work u = Some (None, s'))"
      unfolding Ex_less_Suc2 by simp
    then show ?thesis using None by (simp add: Background_def)
  qed
qed

lemma retry_loop_inv:
  assumes "retry_loop c work m n le s = Some (r, s')" "P s"
    and "\<And>s r s'. P s \<Longrightarrow> work s = Some (r, s') \<Longrightarrow> P s'"
  shows "P s'"
  using assms(1,2)
proof (induction m arbitrary: n le s)
  case (Suc m)
  then show ?case
    using assms(3) by (auto split: if_splits option.splits bind_splits)
qed simp

lemma RetryR_Inr:
  assumes "RetryR m work s = Some (Inr r, s')" "P s"
    and "\<And>s x s'. P s \<Longrightarrow> work s = Some (x, s') \<Longrightarrow> P s'"
  shows "\<exists>t. P t \<and> work t = Some (Inr r, s')"
proof -
  have "retry_loop Background (work2 work) m 0 None (None, s) = Some (None, (Some r, s'))"
    using assms(1) by (auto simp: RetryR_def RetryContextR_def RetryContextE_def
        split: bind_splits option.splits)
  then obtain k t where k: "fails (work2 work) k (None, s) = Some t"
    "work2 work t = Some (None, (Some r, s'))"
    unfolding retry_loop_success by blast
  have "P (snd t)" if "fails (work2 work) k u = Some t" "P (snd u)" for k u t
    using that
  proof (induction k arbitrary: u)
    case (Suc k)
    then show ?case
      using assms(3) by (auto simp: work2_def split: option.splits bind_splits sum.splits prod.splits)
  qed simp
  with k assms(2) have "P (snd t)" by auto
  moreover have "work (snd t) = Some (Inr r, s')"
    using k(2) by (auto simp: work2_def split: bind_splits sum.splits prod.splits)
  ultimately show ?thesis by blast
qed

section \<open>Properties\<close>

text \<open>
  C35: a retry succeeds exactly when one of the allowed attempts does. \<^verbatim>\<open>RetryE\<close> returns without an
  error, in state \<open>s'\<close>, if and only if for some \<open>k\<close> below the maximum number of attempts the
  first \<open>k\<close> attempts fail one after the other and the next one succeeds and leads to \<open>s'\<close>; so a
  success is never retried and no attempt beyond the maximum is made.
\<close>

theorem RetryE_success_iff:
  "RetryE maxAttempts work s = Some (None, s') \<longleftrightarrow>
   (\<exists>k < maxAttempts. \<exists>t. fails work k s = Some t \<and> work t = Some (None, s'))"
  by (simp add: RetryE_def RetryContextE_def retry_loop_success)

end
