(* ===== verification/Mvcc.thy ===== *)
theory Mvcc
  imports KV_Store Retry
begin

unbundle bit_operations_syntax

text \<open>
  The multi-version layer: encoding of values with their flags (\<^verbatim>\<open>storage/mvcc/value.go\<close>), the
  interface of a multi-version store (\<^verbatim>\<open>storage/mvcc/db.go\<close>), its emulation on top of any
  key-value store (\<^verbatim>\<open>storage/mvcc/emulated.go\<close>), and the breakers that turn an error that
  outlives its retries into the end of the process (\<^verbatim>\<open>storage/mvcc/db_breaker.go\<close>,
  \<^verbatim>\<open>storage/kv/db_breaker.go\<close>).
\<close>

section \<open>Values and records\<close>

definition FlagEmpty :: u8 where "FlagEmpty = 0"
definition FlagTombstone :: u8 where "FlagTombstone = 1"

definition Tombstone :: "u8 \<Rightarrow> bool" where
  "Tombstone f = (f AND FlagTombstone \<noteq> 0)"

definition EncodeData :: "bytes \<Rightarrow> u8 \<Rightarrow> bytes" where
  "EncodeData v flags = v @ [flags]"

text \<open>Slicing an empty byte string at -1 panics.\<close>

definition DecodeData :: "bytes \<Rightarrow> (bytes \<times> u8) option" where
  "DecodeData data = (if data = [] then None else Some (butlast data, last data))"

record mv_address =
  ma_Keyspace :: u32
  ma_Key :: bytes

record mv_record =
  mr_Address :: mv_address
  mr_Timestamp :: u64
  mr_Value :: bytes
  mr_Flags :: u8

definition mv_NewAddress :: "u32 \<Rightarrow> bytes \<Rightarrow> mv_address" where
  "mv_NewAddress ks k = \<lparr>ma_Keyspace = ks, ma_Key = k\<rparr>"

definition ToKVRecord :: "mv_record \<Rightarrow> kv_record" where
  "ToKVRecord r =
     \<lparr>kr_Address = kv_NewAddress (ma_Keyspace (mr_Address r)) (ma_Key (mr_Address r)) (mr_Timestamp r),
      kr_Data = EncodeData (mr_Value r) (mr_Flags r)\<rparr>"

type_synonym mv_iter = "mv_record item list"

record 'db mv_ops =
  mv_Get :: "'db \<Rightarrow> u32 \<Rightarrow> u64 \<Rightarrow> mv_address list \<Rightarrow> ((err + mv_record option list) \<times> 'db) option"
  mv_GetRange :: "'db \<Rightarrow> u32 \<Rightarrow> u64 \<Rightarrow> mv_address \<Rightarrow> mv_address \<Rightarrow> ((err + mv_iter) \<times> 'db) option"
  mv_Exists :: "'db \<Rightarrow> u32 \<Rightarrow> u64 \<Rightarrow> mv_address \<Rightarrow> ((err + bool) \<times> 'db) option"
  mv_ExistsInRange ::
    "'db \<Rightarrow> u32 \<Rightarrow> u64 \<Rightarrow> mv_address \<Rightarrow> mv_address \<Rightarrow> ((err + bool) \<times> 'db) option"
  mv_Put :: "'db \<Rightarrow> u32 \<Rightarrow> u64 \<Rightarrow> mv_record list \<Rightarrow> (err option \<times> 'db) option"

section \<open>Multi-version reads emulated on a key-value store\<close>

definition eff_ts :: "u64 \<Rightarrow> u64" where
  "eff_ts timestamp = (if timestamp = 0 then max_u64 else timestamp)"

definition mk_mv_record :: "kv_address \<Rightarrow> bytes \<Rightarrow> u8 \<Rightarrow> mv_record" where
  "mk_mv_record a v flags =
     \<lparr>mr_Address = mv_NewAddress (ka_Keyspace a) (ka_Key a), mr_Timestamp = ka_Timestamp a,
      mr_Value = v, mr_Flags = flags\<rparr>"

definition getFirst ::
    "'db kv_ops \<Rightarrow> 'db \<Rightarrow> u32 \<Rightarrow> u64 \<Rightarrow> mv_address \<Rightarrow> ((err + mv_record option) \<times> 'db) option" where
  "getFirst ops db pid timestamp addr =
     (let start = kv_NewAddress (ma_Keyspace addr) (ma_Key addr) (eff_ts timestamp);
          end = Address_Next (LastAddressForKey (ma_Keyspace addr) (ma_Key addr))
      in case kv_GetRange ops db pid start (Some end) of
           (Inl e, db') \<Rightarrow> Some (Inl e, db')
         | (Inr it, db') \<Rightarrow> (case it of
               [] \<Rightarrow> Some (Inr None, db')
             | ItemErr e # _ \<Rightarrow> Some (Inl e, db')
             | ItemPanic # _ \<Rightarrow> None
             | Item p # _ \<Rightarrow> do {
                 (v, flags) \<leftarrow> DecodeData (kr_Data p);
                 Some (Inr (Some (mk_mv_record (kr_Address p) v flags)), db')
               }))"

fun Emulated_Get ::
    "'db kv_ops \<Rightarrow> 'db \<Rightarrow> u32 \<Rightarrow> u64 \<Rightarrow> mv_address list \<Rightarrow>
     ((err + mv_record option list) \<times> 'db) option" where
  "Emulated_Get ops db pid timestamp [] = Some (Inr [], db)"
| "Emulated_Get ops db pid timestamp (addr # addrs) = do {
     (p, db') \<leftarrow> getFirst ops db pid timestamp addr;
     (case p of
        Inl e \<Rightarrow> Some (Inl e, db')
      | Inr x \<Rightarrow> do {
          (rest, db'') \<leftarrow> Emulated_Get ops db' pid timestamp addrs;
          Some (case rest of
                  Inl e \<Rightarrow> Inl e
                | Inr rs \<Rightarrow> Inr ((case x of
                     None \<Rightarrow> None
                   | Some r \<Rightarrow> if Tombstone (mr_Flags r) then None else Some r) # rs), db'')
        })
   }"

fun emu_loop :: "u64 \<Rightarrow> mv_address \<Rightarrow> bytes \<Rightarrow> kv_iter \<Rightarrow> mv_iter" where
  "emu_loop timestamp end skipKey [] = []"
| "emu_loop timestamp end skipKey (ItemErr e # it) = [ItemErr e]"
| "emu_loop timestamp end skipKey (ItemPanic # it) = [ItemPanic]"
| "emu_loop timestamp end skipKey (Item p # it) =
     (case DecodeData (kr_Data p) of
        None \<Rightarrow> [ItemPanic]
      | Some (v, flags) \<Rightarrow>
          if ka_Keyspace (kr_Address p) > ma_Keyspace end \<or>
             bytes_compare (ka_Key (kr_Address p)) (ma_Key end) \<ge> 0 then []
          else if Tombstone flags then
            (if ka_Timestamp (kr_Address p) \<le> timestamp
             then emu_loop timestamp end (ka_Key (kr_Address p)) it
             else emu_loop timestamp end skipKey it)
          else if ka_Key (kr_Address p) = skipKey then emu_loop timestamp end skipKey it
          else if ka_Timestamp (kr_Address p) \<le> timestamp
          then Item (mk_mv_record (kr_Address p) v flags) #
               emu_loop timestamp end (ka_Key (kr_Address p)) it
          else emu_loop timestamp end skipKey it)"

text \<open>\<^verbatim>\<open>skipKey\<close> starts as a nil slice, which \<^verbatim>\<open>bytes.Equal\<close> does not tell from an empty key.\<close>

definition Emulated_GetRange ::
    "'db kv_ops \<Rightarrow> 'db \<Rightarrow> u32 \<Rightarrow> u64 \<Rightarrow> mv_address \<Rightarrow> mv_address \<Rightarrow> ((err + mv_iter) \<times> 'db) option" where
  "Emulated_GetRange ops db pid timestamp start end =
     (let ts = eff_ts timestamp;
          kvStart = kv_NewAddress (ma_Keyspace start) (ma_Key start) ts;
          kvEnd = kv_NewAddress (ma_Keyspace end) (ma_Key end) ts
      in case kv_GetRange ops db pid kvStart (Some kvEnd) of
           (Inl e, db') \<Rightarrow> Some (Inl e, db')
         | (Inr it, db') \<Rightarrow> Some (Inr (emu_loop ts end [] it), db'))"

definition Emulated_Exists ::
    "'db kv_ops \<Rightarrow> 'db \<Rightarrow> u32 \<Rightarrow> u64 \<Rightarrow> mv_address \<Rightarrow> ((err + bool) \<times> 'db) option" where
  "Emulated_Exists ops db pid timestamp addr = do {
     (v, db') \<leftarrow> Emulated_Get ops db pid timestamp [addr];
     (case v of Inl e \<Rightarrow> Some (Inl e, db') | Inr rs \<Rightarrow> Some (Inr (hd rs \<noteq> None), db'))
   }"

text \<open>The body of the \<^verbatim>\<open>for range iter\<close> loop answers true at whatever the iterator yields first.\<close>

definition first_yield :: "mv_iter \<Rightarrow> bool option" where
  "first_yield it = (case it of [] \<Rightarrow> Some False | ItemPanic # _ \<Rightarrow> None | _ # _ \<Rightarrow> Some True)"

definition Emulated_ExistsInRange ::
    "'db kv_ops \<Rightarrow> 'db \<Rightarrow> u32 \<Rightarrow> u64 \<Rightarrow> mv_address \<Rightarrow> mv_address \<Rightarrow> ((err + bool) \<times> 'db) option" where
  "Emulated_ExistsInRange ops db pid timestamp start end = do {
     (r, db') \<leftarrow> Emulated_GetRange ops db pid timestamp start end;
     (case r of
        Inl e \<Rightarrow> Some (Inl e, db')
      | Inr it \<Rightarrow> do { b \<leftarrow> first_yield it; Some (Inr b, db') })
   }"

fun emu_records :: "mv_record list \<Rightarrow> err + kv_record list" where
  "emu_records [] = Inr []"
| "emu_records (e # es) =
     (if mr_Timestamp e = 0 then Inl (OtherError ''trying to put record with missing timestamp'')
      else (case emu_records es of Inl er \<Rightarrow> Inl er | Inr rs \<Rightarrow> Inr (ToKVRecord e # rs)))"

definition Emulated_Put ::
    "'db kv_ops \<Rightarrow> 'db \<Rightarrow> u32 \<Rightarrow> u64 \<Rightarrow> mv_record list \<Rightarrow> (err option \<times> 'db) option" where
  "Emulated_Put ops db pid index records = (case emu_records records of
       Inl e \<Rightarrow> Some (Some e, db)
     | Inr rs \<Rightarrow> Some (kv_Put ops db pid index rs))"

definition Emulated_ops :: "'db kv_ops \<Rightarrow> 'db mv_ops" where
  "Emulated_ops ops =
     \<lparr>mv_Get = Emulated_Get ops, mv_GetRange = Emulated_GetRange ops, mv_Exists = Emulated_Exists ops,
      mv_ExistsInRange = Emulated_ExistsInRange ops, mv_Put = Emulated_Put ops\<rparr>"

section \<open>The breakers\<close>

text \<open>An operation that still fails after its retries shuts the process down.\<close>

definition or_shutdown :: "((err + 'r) \<times> 's) option \<Rightarrow> ('r \<times> 's) option" where
  "or_shutdown x = do { (r, s) \<leftarrow> x; (case r of Inl _ \<Rightarrow> None | Inr v \<Rightarrow> Some (v, s)) }"

definition or_shutdownE :: "(err option \<times> 's) option \<Rightarrow> 's option" where
  "or_shutdownE x = do { (r, s) \<leftarrow> x; (case r of Some _ \<Rightarrow> None | None \<Rightarrow> Some s) }"

record 'db mvcc_breaker =
  mb_db :: "'db mv_ops"
  mb_maxAttempts :: nat

definition Breaker_Get ::
    "'db mvcc_breaker \<Rightarrow> 'db \<Rightarrow> u32 \<Rightarrow> u64 \<Rightarrow> mv_address list \<Rightarrow> (mv_record option list \<times> 'db) option" where
  "Breaker_Get b db pid timestamp addrs =
     or_shutdown (RetryR (mb_maxAttempts b) (\<lambda>s. mv_Get (mb_db b) s pid timestamp addrs) db)"

definition Breaker_GetRange ::
    "'db mvcc_breaker \<Rightarrow> 'db \<Rightarrow> u32 \<Rightarrow> u64 \<Rightarrow> mv_address \<Rightarrow> mv_address \<Rightarrow> (mv_iter \<times> 'db) option" where
  "Breaker_GetRange b db pid timestamp start end =
     or_shutdown (RetryR (mb_maxAttempts b) (\<lambda>s. mv_GetRange (mb_db b) s pid timestamp start end) db)"

definition Breaker_Exists ::
    "'db mvcc_breaker \<Rightarrow> 'db \<Rightarrow> u32 \<Rightarrow> u64 \<Rightarrow> mv_address \<Rightarrow> (bool \<times> 'db) option" where
  "Breaker_Exists b db pid timestamp addr =
     or_shutdown (RetryR (mb_maxAttempts b) (\<lambda>s. mv_Exists (mb_db b) s pid timestamp addr) db)"

definition Breaker_ExistsInRange ::
    "'db mvcc_breaker \<Rightarrow> 'db \<Rightarrow> u32 \<Rightarrow> u64 \<Rightarrow> mv_address \<Rightarrow> mv_address \<Rightarrow> (bool \<times> 'db) option" where
  "Breaker_ExistsInRange b db pid timestamp start end =
     or_shutdown (RetryR (mb_maxAttempts b)
       (\<lambda>s. mv_ExistsInRange (mb_db b) s pid timestamp start end) db)"

definition Breaker_Put ::
    "'db mvcc_breaker \<Rightarrow> 'db \<Rightarrow> u32 \<Rightarrow> u64 \<Rightarrow> mv_record list \<Rightarrow> 'db option" where
  "Breaker_Put b db pid index records =
     or_shutdownE (RetryE (mb_maxAttempts b) (\<lambda>s. mv_Put (mb_db b) s pid index records) db)"

record 'db kv_breaker =
  kb_db :: "'db kv_ops"
  kb_maxAttempts :: nat

definition KVBreaker_InitPartition :: "'db kv_breaker \<Rightarrow> 'db \<Rightarrow> u32 \<Rightarrow> 'db option" where
  "KVBreaker_InitPartition b db pid =
     or_shutdownE (RetryE (kb_maxAttempts b) (\<lambda>s. Some (kv_InitPartition (kb_db b) s pid)) db)"

definition KVBreaker_DropPartition :: "'db kv_breaker \<Rightarrow> 'db \<Rightarrow> u32 \<Rightarrow> 'db option" where
  "KVBreaker_DropPartition b db pid =
     or_shutdownE (RetryE (kb_maxAttempts b) (\<lambda>s. Some (kv_DropPartition (kb_db b) s pid)) db)"

definition KVBreaker_SyncPartition :: "'db kv_breaker \<Rightarrow> 'db \<Rightarrow> u32 \<Rightarrow> 'db option" where
  "KVBreaker_SyncPartition b db pid =
     or_shutdownE (RetryE (kb_maxAttempts b) (\<lambda>s. Some (kv_SyncPartition (kb_db b) s pid)) db)"

definition KVBreaker_GetIndex :: "'db kv_breaker \<Rightarrow> 'db \<Rightarrow> u32 \<Rightarrow> bool \<Rightarrow> (u64 \<times> 'db) option" where
  "KVBreaker_GetIndex b db pid persisted =
     or_shutdown (RetryR (kb_maxAttempts b) (\<lambda>s. Some (kv_GetIndex (kb_db b) s pid persisted)) db)"

definition KVBreaker_Put :: "'db kv_breaker \<Rightarrow> 'db \<Rightarrow> u32 \<Rightarrow> u64 \<Rightarrow> kv_record list \<Rightarrow> 'db option" where
  "KVBreaker_Put b db pid index records =
     or_shutdownE (RetryE (kb_maxAttempts b) (\<lambda>s. Some (kv_Put (kb_db b) s pid index records)) db)"

definition KVBreaker_Get ::
    "'db kv_breaker \<Rightarrow> 'db \<Rightarrow> u32 \<Rightarrow> kv_address \<Rightarrow> (kv_record option \<times> 'db) option" where
  "KVBreaker_Get b db pid address =
     or_shutdown (RetryR (kb_maxAttempts b) (\<lambda>s. Some (kv_Get (kb_db b) s pid address)) db)"

definition KVBreaker_GetFrom ::
    "'db kv_breaker \<Rightarrow> 'db \<Rightarrow> u32 \<Rightarrow> kv_address \<Rightarrow> kv_address option \<Rightarrow> (kv_iter \<times> 'db) option" where
  "KVBreaker_GetFrom b db pid start end =
     or_shutdown (RetryR (kb_maxAttempts b) (\<lambda>s. Some (kv_GetRange (kb_db b) s pid start end)) db)"

definition KVBreaker_GetStream ::
    "'db kv_breaker \<Rightarrow> 'db \<Rightarrow> u32 \<Rightarrow> kv_address \<Rightarrow> (kv_iter \<times> 'db) option" where
  "KVBreaker_GetStream b db pid start =
     or_shutdown (RetryR (kb_maxAttempts b) (\<lambda>s. Some (kv_GetStream (kb_db b) s pid start)) db)"

section \<open>What a read should see\<close>

text \<open>
  The reference view of a partition: its versions as a list of records in address order. A
  version is the latest one at a timestamp if no later version of its key is at most that
  timestamp, and live if its flags carry no tombstone. Reads return the latest live versions.
\<close>

definition same_key :: "kv_record \<Rightarrow> kv_record \<Rightarrow> bool" where
  "same_key a b \<longleftrightarrow> ka_Keyspace (kr_Address a) = ka_Keyspace (kr_Address b) \<and>
     ka_Key (kr_Address a) = ka_Key (kr_Address b)"

definition latest :: "kv_record list \<Rightarrow> u64 \<Rightarrow> kv_record \<Rightarrow> bool" where
  "latest recs ts r \<longleftrightarrow> ka_Timestamp (kr_Address r) \<le> ts \<and>
     (\<forall>q \<in> set recs. same_key q r \<longrightarrow> ka_Timestamp (kr_Address q) \<le> ts \<longrightarrow>
        ka_Timestamp (kr_Address q) \<le> ka_Timestamp (kr_Address r))"

definition live :: "kv_record \<Rightarrow> bool" where
  "live r = (kr_Data r \<noteq> [] \<and> \<not> Tombstone (last (kr_Data r)))"

definition mv_of :: "kv_record \<Rightarrow> mv_record" where
  "mv_of r = mk_mv_record (kr_Address r) (butlast (kr_Data r)) (last (kr_Data r))"

definition view_get :: "kv_record list \<Rightarrow> u64 \<Rightarrow> mv_address \<Rightarrow> mv_record option" where
  "view_get recs timestamp a = map_option mv_of
     (find (\<lambda>r. ka_Keyspace (kr_Address r) = ma_Keyspace a \<and> ka_Key (kr_Address r) = ma_Key a \<and>
        latest recs (eff_ts timestamp) r \<and> live r) recs)"

definition key_in_range :: "mv_address \<Rightarrow> mv_address \<Rightarrow> kv_record \<Rightarrow> bool" where
  "key_in_range s e r \<longleftrightarrow> ka_Keyspace (kr_Address r) = ma_Keyspace s \<and>
     bytes_compare (ma_Key s) (ka_Key (kr_Address r)) \<le> 0 \<and>
     bytes_compare (ka_Key (kr_Address r)) (ma_Key e) < 0"

definition view_range :: "kv_record list \<Rightarrow> u64 \<Rightarrow> mv_address \<Rightarrow> mv_address \<Rightarrow> mv_record list" where
  "view_range recs timestamp s e = map mv_of
     (filter (\<lambda>r. key_in_range s e r \<and> latest recs (eff_ts timestamp) r \<and> live r) recs)"

text \<open>Every stored datum carries at least its flag byte.\<close>

definition encoded :: "kv_record list \<Rightarrow> bool" where
  "encoded recs \<longleftrightarrow> (\<forall>r \<in> set recs. kr_Data r \<noteq> [])"

section \<open>Lemmas on versions\<close>

lemma bytes_compare_Nil: "bytes_compare [] b \<le> 0"
  by (cases b) auto

lemma sorted_Cons_same_key:
  assumes "recs_sorted (p # ps)" "r \<in> set ps" "same_key p r"
  shows "ka_Timestamp (kr_Address r) < ka_Timestamp (kr_Address p)"
proof -
  have "Address_Compare (kr_Address p) (kr_Address r) < 0" using assms(1,2) by simp
  then show ?thesis using assms(3) by (simp add: Address_Compare_less same_key_def)
qed

lemma sorted_Cons_key_le:
  assumes "recs_sorted (p # ps)" "r \<in> set ps"
    and "ka_Keyspace (kr_Address p) = ka_Keyspace (kr_Address r)"
  shows "bytes_compare (ka_Key (kr_Address p)) (ka_Key (kr_Address r)) \<le> 0"
proof -
  have "Address_Compare (kr_Address p) (kr_Address r) < 0" using assms(1,2) by simp
  then show ?thesis using assms(3) by (auto simp: Address_Compare_less)
qed

lemma same_key_sym: "same_key a b = same_key b a"
  by (auto simp: same_key_def)

lemma latest_Cons_other:
  assumes "\<not> same_key p r \<or> ts < ka_Timestamp (kr_Address p)"
  shows "latest (p # ps) ts r = latest ps ts r"
  using assms by (auto simp: latest_def)

lemma latest_Cons_same:
  assumes "recs_sorted (p # ps)" "r \<in> set ps" "same_key p r" "ka_Timestamp (kr_Address p) \<le> ts"
  shows "\<not> latest (p # ps) ts r"
  using sorted_Cons_same_key [OF assms(1-3)] assms(3,4) by (auto simp: latest_def)

lemma latest_Cons_self:
  assumes "recs_sorted (p # ps)"
  shows "latest (p # ps) ts p \<longleftrightarrow> ka_Timestamp (kr_Address p) \<le> ts"
proof -
  have "ka_Timestamp (kr_Address q) \<le> ka_Timestamp (kr_Address p)"
    if "q \<in> set (p # ps)" "same_key q p" for q
    using that sorted_Cons_same_key [OF assms, of q] same_key_sym [of q p] by (auto intro: less_imp_le)
  then show ?thesis by (auto simp: latest_def)
qed

lemma DecodeData_Some: "data \<noteq> [] \<Longrightarrow> DecodeData data = Some (butlast data, last data)"
  by (simp add: DecodeData_def)

text \<open>
  The loop of the emulated range read on a sorted run of one keyspace: it yields the latest live
  versions of the keys before the end key, except those of the key it is told to skip.
\<close>

definition emu_sel :: "u64 \<Rightarrow> mv_address \<Rightarrow> bytes \<Rightarrow> kv_record list \<Rightarrow> kv_record \<Rightarrow> bool" where
  "emu_sel ts e skip ps r \<longleftrightarrow> bytes_compare (ka_Key (kr_Address r)) (ma_Key e) < 0 \<and>
     ka_Key (kr_Address r) \<noteq> skip \<and> latest ps ts r \<and> live r"

lemma emu_loop_spec:
  assumes "recs_sorted ps" "encoded ps"
    and "\<forall>r \<in> set ps. ka_Keyspace (kr_Address r) = ma_Keyspace e"
    and "\<forall>r \<in> set ps. bytes_compare skip (ka_Key (kr_Address r)) \<le> 0"
  shows "emu_loop ts e skip (map Item ps) = map (Item \<circ> mv_of) (filter (emu_sel ts e skip ps) ps)"
  using assms
proof (induction ps arbitrary: skip)
  case (Cons p ps)
  let ?k = "ka_Key (kr_Address p)" and ?t = "ka_Timestamp (kr_Address p)"
  have srt: "recs_sorted ps" "encoded ps" "\<forall>r \<in> set ps. ka_Keyspace (kr_Address r) = ma_Keyspace e"
    and ks: "ka_Keyspace (kr_Address p) = ma_Keyspace e" and dat: "kr_Data p \<noteq> []"
    using Cons.prems by (auto simp: encoded_def)
  have ge: "bytes_compare ?k (ka_Key (kr_Address r)) \<le> 0" if "r \<in> set ps" for r
    using sorted_Cons_key_le [OF Cons.prems(1) that] that srt(3) ks by simp
  have sk: "same_key p r \<longleftrightarrow> ka_Key (kr_Address r) = ?k" if "r \<in> set ps" for r
    using that srt(3) ks by (auto simp: same_key_def)
  note IH1 = Cons.IH [OF srt, of ?k] and IH2 = Cons.IH [OF srt, of skip]
  have stay: "filter (emu_sel ts e skip (p # ps)) ps = filter (emu_sel ts e skip ps) ps"
    if "ts < ?t \<or> ?k = skip"
  proof (rule filter_cong [OF refl])
    fix r assume r: "r \<in> set ps"
    have "ka_Key (kr_Address r) = skip \<or> latest (p # ps) ts r = latest ps ts r"
      using that latest_Cons_other [of p r ts ps] sk [OF r] by auto
    then show "emu_sel ts e skip (p # ps) r = emu_sel ts e skip ps r"
      by (auto simp: emu_sel_def)
  qed
  have move: "filter (emu_sel ts e skip (p # ps)) ps = filter (emu_sel ts e ?k ps) ps"
    if t: "?t \<le> ts"
  proof (rule filter_cong [OF refl])
    fix r assume r: "r \<in> set ps"
    show "emu_sel ts e skip (p # ps) r = emu_sel ts e ?k ps r"
    proof (cases "ka_Key (kr_Address r) = ?k")
      case True
      then show ?thesis
        using latest_Cons_same [OF Cons.prems(1) r _ t] sk [OF r] by (simp add: emu_sel_def)
    next
      case False
      have "ka_Key (kr_Address r) \<noteq> skip"
      proof
        assume eq: "ka_Key (kr_Address r) = skip"
        have "bytes_compare skip ?k \<le> 0" using Cons.prems(4) by simp
        then show False
          using ge [OF r] False bc.cmp_antisym eq by metis
      qed
      then show ?thesis
        using latest_Cons_other [of p r ts ps] sk [OF r] False by (simp add: emu_sel_def)
    qed
  qed
  show ?case
  proof (cases "bytes_compare ?k (ma_Key e) < 0")
    case False
    have "\<not> emu_sel ts e skip (p # ps) r" if "r \<in> set (p # ps)" for r
      using that False ge bc.cmp_le_less_trans [of ?k "ka_Key (kr_Address r)" "ma_Key e"]
      by (auto simp: emu_sel_def)
    then have "filter (emu_sel ts e skip (p # ps)) (p # ps) = []"
      by (simp only: filter_empty_conv) blast
    with False dat show ?thesis by (simp add: DecodeData_Some)
  next
    case True
    have sel: "emu_sel ts e skip (p # ps) p \<longleftrightarrow> ?k \<noteq> skip \<and> ?t \<le> ts \<and> \<not> Tombstone (last (kr_Data p))"
      using True dat latest_Cons_self [OF Cons.prems(1)] by (auto simp: emu_sel_def live_def)
    have "\<forall>r \<in> set ps. bytes_compare skip (ka_Key (kr_Address r)) \<le> 0" using Cons.prems(4) by simp
    note IH = IH1 [OF ballI, OF ge] IH2 [OF this]
    show ?thesis
      using True dat ks sel stay move IH
      by (cases "?t \<le> ts") (auto simp: DecodeData_Some mv_of_def not_le)
  qed
qed simp

lemma in_range_keys:
  "in_range (kv_NewAddress ks sk ts) (Some (kv_NewAddress ks ek ts)) r \<longleftrightarrow>
    ka_Keyspace (kr_Address r) = ks \<and>
    (bytes_compare sk (ka_Key (kr_Address r)) < 0 \<or>
       sk = ka_Key (kr_Address r) \<and> ka_Timestamp (kr_Address r) \<le> ts) \<and>
    (bytes_compare (ka_Key (kr_Address r)) ek < 0 \<or>
       ka_Key (kr_Address r) = ek \<and> ts < ka_Timestamp (kr_Address r))"
proof -
  have "Address_Compare (kv_NewAddress ks sk ts) (kr_Address r) \<le> 0 \<longleftrightarrow>
    ks < ka_Keyspace (kr_Address r) \<or> ks = ka_Keyspace (kr_Address r) \<and>
      (bytes_compare sk (ka_Key (kr_Address r)) < 0 \<or>
       sk = ka_Key (kr_Address r) \<and> ka_Timestamp (kr_Address r) \<le> ts)"
    by (auto simp: ac.cmp_le_iff Address_Compare_less kv_address_eq_iff)
  then show ?thesis by (auto simp: in_range_def Address_Compare_less)
qed

lemma in_range_iff_key_in_range:
  assumes "ma_Keyspace e = ma_Keyspace s" "ka_Timestamp (kr_Address r) \<le> ts"
  shows "in_range (kv_NewAddress (ma_Keyspace s) (ma_Key s) ts)
      (Some (kv_NewAddress (ma_Keyspace e) (ma_Key e) ts)) r \<longleftrightarrow> key_in_range s e r"
  using assms by (auto simp: in_range_keys key_in_range_def bc.cmp_le_iff)

lemma key_in_range_cong: "same_key a b \<Longrightarrow> key_in_range s e a = key_in_range s e b"
  by (simp add: same_key_def key_in_range_def)

lemma view_range_filter:
  fixes recs
  defines "L \<equiv> \<lambda>s e ts. filter (in_range (kv_NewAddress (ma_Keyspace s) (ma_Key s) ts)
            (Some (kv_NewAddress (ma_Keyspace e) (ma_Key e) ts))) recs"
  assumes ks: "ma_Keyspace e = ma_Keyspace s" and ne: "ma_Key s \<noteq> []"
  shows "filter (emu_sel ts e [] (L s e ts)) (L s e ts) =
      filter (\<lambda>r. key_in_range s e r \<and> latest recs ts r \<and> live r) recs"
proof -
  let ?L = "L s e ts"
  have "r \<in> set ?L \<and> emu_sel ts e [] ?L r \<longleftrightarrow> key_in_range s e r \<and> latest recs ts r \<and> live r"
    if r: "r \<in> set recs" for r
  proof (cases "ka_Timestamp (kr_Address r) \<le> ts")
    case True
    note i = in_range_iff_key_in_range [OF ks, of _ ts]
    have "latest ?L ts r = latest recs ts r" if k: "key_in_range s e r"
      unfolding latest_def using i key_in_range_cong [of _ r] k by (auto simp: L_def)
    moreover have "ka_Key (kr_Address r) \<noteq> []" if "key_in_range s e r"
      using that ne by (cases "ma_Key s") (auto simp: key_in_range_def)
    ultimately show ?thesis
      using i [OF True] r by (auto simp: L_def emu_sel_def key_in_range_def)
  qed (simp add: latest_def emu_sel_def)
  then show ?thesis
    unfolding L_def by (auto simp: intro: filter_cong)
qed

lemma emu_loop_view_range:
  assumes "recs_sorted recs" "encoded recs" "ma_Keyspace e = ma_Keyspace s" "ma_Key s \<noteq> []"
  shows "emu_loop (eff_ts ts) e [] (map Item
      (filter (in_range (kv_NewAddress (ma_Keyspace s) (ma_Key s) (eff_ts ts))
            (Some (kv_NewAddress (ma_Keyspace e) (ma_Key e) (eff_ts ts)))) recs)) =
    map Item (view_range recs ts s e)"
proof -
  let ?L = "filter (in_range (kv_NewAddress (ma_Keyspace s) (ma_Key s) (eff_ts ts))
            (Some (kv_NewAddress (ma_Keyspace e) (ma_Key e) (eff_ts ts)))) recs"
  have "recs_sorted ?L" "encoded ?L" using assms(1,2) by (simp_all add: sorted_wrt_filter encoded_def)
  moreover have "\<forall>r \<in> set ?L. ka_Keyspace (kr_Address r) = ma_Keyspace e"
    using assms(3) by (simp add: in_range_keys)
  moreover have "\<forall>r \<in> set ?L. bytes_compare [] (ka_Key (kr_Address r)) \<le> 0"
    by (auto intro: bytes_compare_Nil)
  ultimately show ?thesis
    using view_range_filter [OF assms(3,4), of "eff_ts ts" recs]
    by (simp add: emu_loop_spec view_range_def)
qed

section \<open>Writes and the view\<close>

fun keep_last :: "kv_record list \<Rightarrow> kv_record list" where
  "keep_last [] = []"
| "keep_last (r # rs) =
     (if kr_Address r \<in> kr_Address ` set rs then keep_last rs else r # keep_last rs)"

text \<open>A write replaces the versions at its addresses; the last record for an address wins.\<close>

definition put_records :: "kv_record list \<Rightarrow> kv_record list \<Rightarrow> kv_record list" where
  "put_records recs rs =
     add_records (filter (\<lambda>r. kr_Address r \<notin> kr_Address ` set rs) recs) (keep_last rs)"

lemma keep_last_addrs [simp]: "kr_Address ` set (keep_last rs) = kr_Address ` set rs"
  by (induction rs) auto

lemma keep_last_subset: "set (keep_last rs) \<subseteq> set rs"
  by (induction rs) auto

lemma keep_last_distinct [simp]: "distinct (map kr_Address (keep_last rs))"
  by (induction rs) auto

lemma keep_last_id: "distinct (map kr_Address rs) \<Longrightarrow> keep_last rs = rs"
  by (induction rs) auto

lemma set_put_records:
  "set (put_records recs rs) =
     {r \<in> set recs. kr_Address r \<notin> kr_Address ` set rs} \<union> set (keep_last rs)"
  by (auto simp: put_records_def)

lemma put_records_sorted:
  assumes "recs_sorted recs"
  shows "recs_sorted (put_records recs rs)"
proof -
  let ?old = "filter (\<lambda>r. kr_Address r \<notin> kr_Address ` set rs) recs"
  have "distinct (map kr_Address ?old)"
    using ac.sorted_by_distinct [OF assms] by (simp add: distinct_map_filter)
  moreover have "kr_Address ` set ?old \<inter> kr_Address ` set (keep_last rs) = {}"
    by auto
  ultimately have "distinct (map kr_Address (?old @ keep_last rs))" by simp
  from ac.sort_sort_sorted [OF this] show ?thesis
    by (simp add: put_records_def add_records_def Address_Before_def)
qed

lemma put_records_encoded:
  "encoded recs \<Longrightarrow> encoded rs \<Longrightarrow> encoded (put_records recs rs)"
  using keep_last_subset [of rs] by (auto simp: encoded_def set_put_records)

lemma put_records_fresh:
  assumes "fresh_records recs rs"
  shows "put_records recs rs = add_records recs rs"
proof -
  have "filter (\<lambda>r. kr_Address r \<notin> kr_Address ` set rs) recs = recs"
    using assms by (auto simp: fresh_records_def filter_id_conv)
  with assms show ?thesis by (simp add: put_records_def keep_last_id fresh_records_def)
qed

text \<open>Records above a timestamp are invisible at it, so writing them changes no read there.\<close>

lemma latest_put_records:
  assumes "\<forall>q \<in> set rs. ts < ka_Timestamp (kr_Address q)"
  shows "latest (put_records recs rs) ts r = latest recs ts r"
proof -
  have "q \<in> set (put_records recs rs) \<longleftrightarrow> q \<in> set recs" if "ka_Timestamp (kr_Address q) \<le> ts" for q
    using that assms keep_last_subset [of rs] by (fastforce simp: set_put_records)
  then show ?thesis unfolding latest_def by blast
qed

lemma filter_put_records:
  assumes "recs_sorted recs" "\<forall>q \<in> set rs. ts < ka_Timestamp (kr_Address q)"
    and "\<And>r. P r \<Longrightarrow> ka_Timestamp (kr_Address r) \<le> ts"
  shows "filter P (put_records recs rs) = filter P recs"
proof (rule ac.sorted_by_unique)
  show "recs_sorted (filter P (put_records recs rs))"
    using put_records_sorted [OF assms(1)] by (rule sorted_wrt_filter)
  show "recs_sorted (filter P recs)" using assms(1) by (rule sorted_wrt_filter)
  show "set (filter P (put_records recs rs)) = set (filter P recs)"
    using assms(2,3) keep_last_subset [of rs] by (fastforce simp: set_put_records)
qed

lemma find_eq_hd_filter: "find P xs = (case filter P xs of [] \<Rightarrow> None | x # _ \<Rightarrow> Some x)"
  by (induction xs) auto

lemma view_get_stable:
  assumes "recs_sorted recs" "\<forall>q \<in> set rs. eff_ts ts < ka_Timestamp (kr_Address q)"
  shows "view_get (put_records recs rs) ts a = view_get recs ts a"
  unfolding view_get_def latest_put_records [OF assms(2)] find_eq_hd_filter
  by (subst filter_put_records [OF assms]) (auto simp: latest_def)

lemma view_range_stable:
  assumes "recs_sorted recs" "\<forall>q \<in> set rs. eff_ts ts < ka_Timestamp (kr_Address q)"
  shows "view_range (put_records recs rs) ts s e = view_range recs ts s e"
  unfolding view_range_def latest_put_records [OF assms(2)]
  by (subst filter_put_records [OF assms]) (auto simp: latest_def)

section \<open>The laws of a multi-version store\<close>

text \<open>
  A range read yields the view, or a part of it followed by an error. A caller that only asks
  whether the range holds anything can be told yes because of such an error, but never no.
\<close>

definition yields :: "mv_iter \<Rightarrow> mv_record list \<Rightarrow> bool" where
  "yields it vs \<longleftrightarrow> it = map Item vs \<or> (\<exists>k e. it = map Item (take k vs) @ [ItemErr e])"

definition user_address :: "mv_address \<Rightarrow> bool" where
  "user_address a \<longleftrightarrow> FirstUserKeyspace \<le> ma_Keyspace a"

locale mvcc_scan =
  fixes ops :: "'db mv_ops" and contents :: "'db \<Rightarrow> u32 \<Rightarrow> kv_record list option"
    and inv :: "'db \<Rightarrow> bool"
  assumes contents_ok: "inv db \<Longrightarrow> contents db pid = Some recs \<Longrightarrow> recs_sorted recs \<and> encoded recs"
    and scan_law: "inv db \<Longrightarrow> contents db pid = Some recs \<Longrightarrow> user_address s \<Longrightarrow>
      ma_Keyspace e = ma_Keyspace s \<Longrightarrow> ma_Key s \<noteq> [] \<Longrightarrow>
      \<exists>x db'. mv_GetRange ops db pid ts s e = Some (x, db') \<and> inv db' \<and>
        contents db' = contents db \<and> (\<forall>it. x = Inr it \<longrightarrow> yields it (view_range recs ts s e))"
    and exists_in_range_law: "inv db \<Longrightarrow> contents db pid = Some recs \<Longrightarrow> user_address s \<Longrightarrow>
      ma_Keyspace e = ma_Keyspace s \<Longrightarrow> ma_Key s \<noteq> [] \<Longrightarrow>
      \<exists>x db'. mv_ExistsInRange ops db pid ts s e = Some (x, db') \<and> inv db' \<and>
        contents db' = contents db \<and> (x = Inr False \<longrightarrow> view_range recs ts s e = [])"
begin

lemma Breaker_GetRange_view:
  assumes "inv db" "contents db pid = Some recs" "user_address s" "ma_Keyspace e = ma_Keyspace s" "ma_Key s \<noteq> []"
    and "Breaker_GetRange \<lparr>mb_db = ops, mb_maxAttempts = m\<rparr> db pid ts s e = Some (it, db')"
  shows "inv db' \<and> contents db' = contents db \<and> yields it (view_range recs ts s e)"
proof -
  let ?P = "\<lambda>s. inv s \<and> contents s = contents db"
  have "RetryR m (\<lambda>d. mv_GetRange ops d pid ts s e) db = Some (Inr it, db')"
    using assms(6) by (auto simp: Breaker_GetRange_def or_shutdown_def split: bind_splits sum.splits)
  moreover have "?P d'" if "?P d" "mv_GetRange ops d pid ts s e = Some (x, d')" for d x d'
    using scan_law [of d pid recs s e ts] that assms(2-5) by auto
  ultimately obtain t where "?P t" "mv_GetRange ops t pid ts s e = Some (Inr it, db')"
    using RetryR_Inr [of m _ db it db' ?P] assms(1) by blast
  with scan_law [of t pid recs s e ts] assms show ?thesis by auto
qed

end

locale mvcc_db = mvcc_scan +
  assumes get_law: "inv db \<Longrightarrow> contents db pid = Some recs \<Longrightarrow> list_all user_address addrs \<Longrightarrow>
      \<exists>x db'. mv_Get ops db pid ts addrs = Some (x, db') \<and> inv db' \<and> contents db' = contents db \<and>
        (\<forall>rs. x = Inr rs \<longrightarrow> rs = map (view_get recs ts) addrs)"
    and exists_law: "inv db \<Longrightarrow> contents db pid = Some recs \<Longrightarrow> user_address a \<Longrightarrow>
      \<exists>x db'. mv_Exists ops db pid ts a = Some (x, db') \<and> inv db' \<and> contents db' = contents db \<and>
        (\<forall>b. x = Inr b \<longrightarrow> (b \<longleftrightarrow> view_get recs ts a \<noteq> None))"
    and put_law: "inv db \<Longrightarrow> contents db pid = Some recs \<Longrightarrow> list_all (\<lambda>r. user_address (mr_Address r)) rs \<Longrightarrow>
      \<exists>x db'. mv_Put ops db pid index rs = Some (x, db') \<and> inv db' \<and>
        (\<forall>p. p \<noteq> pid \<longrightarrow> contents db' p = contents db p) \<and>
        contents db' pid = Some (if x = None then put_records recs (map ToKVRecord rs) else recs)"
begin

lemma Breaker_ExistsInRange_view:
  assumes "inv db" "contents db pid = Some recs" "user_address s" "ma_Keyspace e = ma_Keyspace s" "ma_Key s \<noteq> []"
    and "Breaker_ExistsInRange \<lparr>mb_db = ops, mb_maxAttempts = m\<rparr> db pid ts s e = Some (b, db')"
  shows "inv db' \<and> contents db' = contents db \<and> (\<not> b \<longrightarrow> view_range recs ts s e = [])"
proof -
  let ?P = "\<lambda>s. inv s \<and> contents s = contents db"
  have "RetryR m (\<lambda>d. mv_ExistsInRange ops d pid ts s e) db = Some (Inr b, db')"
    using assms(6) by (auto simp: Breaker_ExistsInRange_def or_shutdown_def split: bind_splits sum.splits)
  moreover have "?P d'" if "?P d" "mv_ExistsInRange ops d pid ts s e = Some (x, d')" for d x d'
    using exists_in_range_law [of d pid recs s e ts] that assms(2-5) by auto
  ultimately obtain t where "?P t" "mv_ExistsInRange ops t pid ts s e = Some (Inr b, db')"
    using RetryR_Inr [of m _ db b db' ?P] assms(1) by blast
  with exists_in_range_law [of t pid recs s e ts] assms show ?thesis by auto
qed

lemma Breaker_Get_view:
  assumes "inv db" "contents db pid = Some recs" "list_all user_address addrs"
    and "Breaker_Get \<lparr>mb_db = ops, mb_maxAttempts = m\<rparr> db pid ts addrs = Some (rs, db')"
  shows "inv db' \<and> contents db' = contents db \<and> rs = map (view_get recs ts) addrs"
proof -
  let ?P = "\<lambda>s. inv s \<and> contents s = contents db"
  have "RetryR m (\<lambda>d. mv_Get ops d pid ts addrs) db = Some (Inr rs, db')"
    using assms(4) by (auto simp: Breaker_Get_def or_shutdown_def split: bind_splits sum.splits)
  moreover have "?P d'" if "?P d" "mv_Get ops d pid ts addrs = Some (x, d')" for d x d'
    using get_law [of d pid recs addrs ts] that assms(2,3) by auto
  ultimately obtain t where "?P t" "mv_Get ops t pid ts addrs = Some (Inr rs, db')"
    using RetryR_Inr [of m _ db rs db' ?P] assms(1) by blast
  with get_law [of t pid recs addrs ts] assms show ?thesis by auto
qed

lemma Breaker_Exists_view:
  assumes "inv db" "contents db pid = Some recs" "user_address a"
    and "Breaker_Exists \<lparr>mb_db = ops, mb_maxAttempts = m\<rparr> db pid ts a = Some (b, db')"
  shows "inv db' \<and> contents db' = contents db \<and> (b \<longleftrightarrow> view_get recs ts a \<noteq> None)"
proof -
  let ?P = "\<lambda>s. inv s \<and> contents s = contents db"
  have "RetryR m (\<lambda>d. mv_Exists ops d pid ts a) db = Some (Inr b, db')"
    using assms(4) by (auto simp: Breaker_Exists_def or_shutdown_def split: bind_splits sum.splits)
  moreover have "?P d'" if "?P d" "mv_Exists ops d pid ts a = Some (x, d')" for d x d'
    using exists_law [of d pid recs a ts] that assms(2,3) by auto
  ultimately obtain t where "?P t" "mv_Exists ops t pid ts a = Some (Inr b, db')"
    using RetryR_Inr [of m _ db b db' ?P] assms(1) by blast
  with exists_law [of t pid recs a ts] assms show ?thesis by auto
qed

lemma Breaker_Put_view:
  assumes "inv db" "contents db pid = Some recs" "list_all (\<lambda>r. user_address (mr_Address r)) rs"
    and "Breaker_Put \<lparr>mb_db = ops, mb_maxAttempts = m\<rparr> db pid index rs = Some db'"
  shows "inv db' \<and> contents db' = (contents db)(pid \<mapsto> put_records recs (map ToKVRecord rs))"
proof -
  let ?work = "\<lambda>d. mv_Put ops d pid index rs" and ?P = "\<lambda>s. inv s \<and> contents s = contents db"
  have "RetryE m ?work db = Some (None, db')"
    using assms(4) by (auto simp: Breaker_Put_def or_shutdownE_def split: bind_splits option.splits)
  then obtain k t where k: "fails ?work k db = Some t" "?work t = Some (None, db')"
    unfolding RetryE_def RetryContextE_def retry_loop_success by blast
  have "?P v" if "?P u" "fails ?work k u = Some v" for k u v
    using that
  proof (induction k arbitrary: u)
    case (Suc k)
    obtain x u' where w: "?work u = Some (x, u')" "inv u'" "\<forall>p. p \<noteq> pid \<longrightarrow> contents u' p = contents u p"
      "contents u' pid = Some (if x = None then put_records recs (map ToKVRecord rs) else recs)"
      using put_law [of u pid recs rs index] Suc.prems(1) assms(2,3) by auto
    with Suc.prems(2) obtain e where e: "x = Some e" "fails ?work k u' = Some v"
      by (auto split: option.splits)
    have "contents u' = contents db"
      using w(3,4) e(1) Suc.prems(1) assms(2) by (intro ext) (metis option.distinct(1))
    with Suc.IH e w show ?case by blast
  qed simp
  with k(1) assms(1) have t: "?P t" by blast
  then show ?thesis
    using put_law [of t pid recs rs index] k(2) assms(2,3) by (auto simp: fun_eq_iff)
qed

end

lemma latest_unique:
  assumes "recs_sorted recs" "r \<in> set recs" "q \<in> set recs" "same_key r q"
    and "latest recs ts r" "latest recs ts q"
  shows "r = q"
proof -
  have sk: "same_key q r" using assms(4) by (simp add: same_key_def)
  have "ka_Timestamp (kr_Address r) \<le> ka_Timestamp (kr_Address q)"
    using assms(2,4,5,6) sk by (auto simp: latest_def)
  moreover have "ka_Timestamp (kr_Address q) \<le> ka_Timestamp (kr_Address r)"
    using assms(3,5,6) sk by (auto simp: latest_def)
  ultimately have eq: "kr_Address r = kr_Address q"
    using assms(4) by (simp add: same_key_def kv_address_eq_iff)
  have inj: "inj_on kr_Address (set recs)"
    using ac.sorted_by_distinct [OF assms(1)] by (simp add: distinct_map)
  show ?thesis using inj eq assms(2,3) by (rule inj_onD)
qed
lemma view_get_latest:
  assumes "recs_sorted recs" "p \<in> set recs" "latest recs (eff_ts ts) p"
    and "ka_Keyspace (kr_Address p) = ma_Keyspace a" "ka_Key (kr_Address p) = ma_Key a"
  shows "view_get recs ts a = (if live p then Some (mv_of p) else None)"
proof -
  let ?P = "\<lambda>r. ka_Keyspace (kr_Address r) = ma_Keyspace a \<and> ka_Key (kr_Address r) = ma_Key a \<and>
        latest recs (eff_ts ts) r \<and> live r"
  have uniq: "x = p" if "x \<in> set recs" "?P x" for x
    using latest_unique [OF assms(1) that(1) assms(2), of "eff_ts ts"] that(2) assms(3-5)
    by (auto simp: same_key_def)
  show ?thesis
  proof (cases "find ?P recs")
    case None
    then have "\<not> ?P p" using assms(2) by (auto simp: find_None_iff)
    then show ?thesis using assms(3-5) None by (simp add: view_get_def)
  next
    case (Some x)
    then have "x \<in> set recs" "?P x" by (auto simp: find_Some_iff)
    with uniq Some show ?thesis by (auto simp: view_get_def)
  qed
qed

lemma incKey_less:
  "b \<noteq> 255 \<Longrightarrow> incKey (b # bs) = ((b + 1) # bs, True) \<and> b < b + 1"
  using inc_byte by simp

lemma incKey_stops: "list_ex (\<lambda>c. c \<noteq> 255) bs \<Longrightarrow> \<exists>k. incKey bs = (k, True)"
proof (induction bs)
  case (Cons b bs)
  show ?case
  proof (cases "b = 255")
    case True
    then obtain k where "incKey bs = (k, True)" using Cons by auto
    then show ?thesis using True by simp
  qed (use incKey_less in blast)
qed simp

lemma first_yield_Items: "first_yield (map Item vs) = Some (vs \<noteq> [])"
  by (cases vs) (auto simp: first_yield_def)

lemma Address_Compare_le:
  "Address_Compare a b \<le> 0 \<longleftrightarrow>
     ka_Keyspace a < ka_Keyspace b \<or> ka_Keyspace a = ka_Keyspace b \<and>
       (bytes_compare (ka_Key a) (ka_Key b) < 0 \<or>
        ka_Key a = ka_Key b \<and> ka_Timestamp b \<le> ka_Timestamp a)"
  by (auto simp: ac.cmp_le_iff Address_Compare_less kv_address_eq_iff)

lemma Address_Compare_le_same_key:
  assumes "Address_Compare a b \<le> 0" "ka_Keyspace a = ka_Keyspace b" "ka_Key a = ka_Key b"
  shows "ka_Timestamp b \<le> ka_Timestamp a"
  using assms by (simp add: Address_Compare_le)

lemma between_same_key:
  assumes le: "Address_Compare s a \<le> 0" "Address_Compare a c \<le> 0"
    and c: "ka_Keyspace c = ka_Keyspace s" "ka_Key c = ka_Key s"
  shows "ka_Keyspace a = ka_Keyspace s \<and> ka_Key a = ka_Key s \<and>
    ka_Timestamp a \<le> ka_Timestamp s \<and> ka_Timestamp c \<le> ka_Timestamp a"
proof -
  have "ka_Keyspace s \<le> ka_Keyspace a"
    using le(1) unfolding Address_Compare_le by (auto intro: less_imp_le)
  moreover have "ka_Keyspace a \<le> ka_Keyspace c"
    using le(2) unfolding Address_Compare_le by (auto intro: less_imp_le)
  ultimately have ks: "ka_Keyspace a = ka_Keyspace s" using c(1) by simp
  then have "bytes_compare (ka_Key s) (ka_Key a) \<le> 0" "bytes_compare (ka_Key a) (ka_Key s) \<le> 0"
    using le c unfolding Address_Compare_le bc.cmp_le_iff by auto
  then have k: "ka_Key s = ka_Key a" by (rule bc.cmp_antisym)
  show ?thesis
    using ks k c Address_Compare_le_same_key [OF le(1)] Address_Compare_le_same_key [OF le(2)] by simp
qed

section \<open>Emulation on a key-value store\<close>

context kv_store
begin

lemma Emulated_GetRange_view:
  assumes "inv db" "contents db pid = Some recs" "encoded recs"
    and "ma_Keyspace e = ma_Keyspace s" "ma_Key s \<noteq> []"
  shows "Emulated_GetRange ops db pid ts s e = Some (Inr (map Item (view_range recs ts s e)), db)"
  using emu_loop_view_range [OF contents_sorted [OF assms(1,2)] assms(3-5)]
  by (simp add: Emulated_GetRange_def get_range_law [OF assms(1,2)] assms(4))

lemma Emulated_ExistsInRange_view:
  assumes "inv db" "contents db pid = Some recs" "encoded recs"
    and "ma_Keyspace e = ma_Keyspace s" "ma_Key s \<noteq> []"
  shows "Emulated_ExistsInRange ops db pid ts s e = Some (Inr (view_range recs ts s e \<noteq> []), db)"
  by (simp add: Emulated_ExistsInRange_def Emulated_GetRange_view [OF assms] first_yield_Items)

lemma getFirst_latest:
  assumes "inv db" "contents db pid = Some recs" "encoded recs"
    and "ma_Key a = b # bs" "b \<noteq> 255"
    and "r \<in> set recs" "ka_Keyspace (kr_Address r) = ma_Keyspace a" "ka_Key (kr_Address r) = ma_Key a"
    and "ka_Timestamp (kr_Address r) \<le> eff_ts ts"
  shows "\<exists>p \<in> set recs. ka_Keyspace (kr_Address p) = ma_Keyspace a \<and> ka_Key (kr_Address p) = ma_Key a \<and>
    latest recs (eff_ts ts) p \<and> getFirst ops db pid ts a = Some (Inr (Some (mv_of p)), db)"
proof -
  let ?ks = "ma_Keyspace a" and ?k = "ma_Key a"
  let ?s = "kv_NewAddress ?ks ?k (eff_ts ts)" and ?e = "Address_Next (LastAddressForKey ?ks ?k)"
  let ?L = "filter (in_range ?s (Some ?e)) recs"
  obtain k where k: "incKey ?k = (k, True)" "bytes_compare ?k k < 0"
    using incKey_less [OF assms(5), of bs] assms(4) by (auto simp del: incKey.simps)
  have e: "?e = kv_NewAddress ?ks k max_u64"
    by (simp add: Address_Next_def LastAddressForKey_def k(1) Let_def)
  have mem: "q \<in> set ?L" if "q \<in> set recs" "ka_Keyspace (kr_Address q) = ?ks"
    "ka_Key (kr_Address q) = ?k" "ka_Timestamp (kr_Address q) \<le> eff_ts ts" for q
    using that k(2) by (simp add: in_range_def e Address_Compare_le Address_Compare_less)
  have srt: "recs_sorted ?L" using contents_sorted [OF assms(1,2)] by (rule sorted_wrt_filter)
  have rL: "r \<in> set ?L" by (rule mem [OF assms(6-9)])
  then obtain p ps where L: "?L = p # ps" by (cases ?L) auto
  then have pL: "p \<in> set ?L" by simp
  have min: "Address_Compare (kr_Address p) (kr_Address q) \<le> 0" if "q \<in> set ?L" for q
    using that srt unfolding L by auto
  have le: "Address_Compare ?s (kr_Address p) \<le> 0" using pL by (simp add: in_range_def)
  have p: "p \<in> set recs" "ka_Keyspace (kr_Address p) = ?ks" "ka_Key (kr_Address p) = ?k"
    "ka_Timestamp (kr_Address p) \<le> eff_ts ts"
    using pL between_same_key [OF le min [OF rL]] assms(7,8) by simp_all
  have "ka_Timestamp (kr_Address q) \<le> ka_Timestamp (kr_Address p)"
    if "q \<in> set recs" "same_key q p" "ka_Timestamp (kr_Address q) \<le> eff_ts ts" for q
  proof -
    have "q \<in> set ?L" using that p(2,3) by (intro mem) (simp_all add: same_key_def)
    from between_same_key [OF le min [OF this]] show ?thesis
      using that(2) p(2,3) by (simp add: same_key_def)
  qed
  then have "latest recs (eff_ts ts) p" using p(4) by (simp add: latest_def)
  moreover have "kr_Data p \<noteq> []" using p(1) assms(3) by (simp add: encoded_def)
  then have "getFirst ops db pid ts a = Some (Inr (Some (mv_of p)), db)"
    by (simp add: getFirst_def get_range_law [OF assms(1,2)] L DecodeData_Some mv_of_def)
  ultimately show ?thesis using p(1-3) by blast
qed

lemma Emulated_Get_view:
  assumes "inv db" "contents db pid = Some recs" "encoded recs"
    and "ma_Key a = b # bs" "b \<noteq> 255"
    and "r \<in> set recs" "ka_Keyspace (kr_Address r) = ma_Keyspace a" "ka_Key (kr_Address r) = ma_Key a"
    and "ka_Timestamp (kr_Address r) \<le> eff_ts ts"
  shows "Emulated_Get ops db pid ts [a] = Some (Inr [view_get recs ts a], db)"
proof -
  obtain p where p: "p \<in> set recs" "ka_Keyspace (kr_Address p) = ma_Keyspace a"
    "ka_Key (kr_Address p) = ma_Key a" "latest recs (eff_ts ts) p"
    "getFirst ops db pid ts a = Some (Inr (Some (mv_of p)), db)"
    using getFirst_latest [OF assms] by blast
  have "kr_Data p \<noteq> []" using p(1) assms(3) by (simp add: encoded_def)
  then show ?thesis
    using p(5) view_get_latest [OF contents_sorted [OF assms(1,2)] p(1,4,2,3)]
    by (simp add: mv_of_def mk_mv_record_def live_def)
qed

end

sublocale kv_store \<subseteq> emu: mvcc_scan "Emulated_ops ops" contents
  "\<lambda>db. inv db \<and> (\<forall>pid recs. contents db pid = Some recs \<longrightarrow> encoded recs)"
proof (unfold_locales, goal_cases)
  case (1 db pid recs)
  then show ?case using contents_sorted by blast
next
  case (2 db pid recs s e ts)
  then show ?case using Emulated_GetRange_view [of db pid recs e s ts]
    by (auto simp: Emulated_ops_def yields_def)
next
  case (3 db pid recs s e ts)
  then show ?case using Emulated_ExistsInRange_view [of db pid recs e s ts]
    by (auto simp: Emulated_ops_def)
qed


section \<open>Properties\<close>

text \<open>
  C32: the emulated range read is the multi-version view. On the in-memory store
  \<^verbatim>\<open>Emulated.GetRange\<close> yields, for every key of the range, exactly the latest version that is not
  newer than the timestamp, in key order, and leaves out the keys whose latest version is a
  tombstone. The bounds are in one keyspace and the start key is not empty, as validation demands.
\<close>

theorem Emulated_GetRange_correct:
  assumes "inmem_inv d" "inmem_contents d pid = Some recs" "encoded recs"
    and "ma_Keyspace e = ma_Keyspace s" "ma_Key s \<noteq> []"
  shows "Emulated_GetRange inmem_ops d pid ts s e = Some (Inr (map Item (view_range recs ts s e)), d)"
  by (rule inm.Emulated_GetRange_view [OF assms])

theorem Emulated_GetRange_correct_witness:
  "let r = \<lambda>k t v f. \<lparr>kr_Address = kv_NewAddress 16 k t, kr_Data = [v, f]\<rparr>;
       recs = [r [1] 9 5 0, r [1] 4 6 0, r [2] 6 0 1, r [2] 3 7 0];
       d = [(3, \<lparr>p_index = 0, p_records = recs\<rparr>)]
   in Emulated_GetRange inmem_ops d 3 5 (mv_NewAddress 16 [1]) (mv_NewAddress 16 [9]) =
        Some (Inr [Item (mv_of (r [1] 4 6 0)), Item (mv_of (r [2] 3 7 0))], d)"
proof -
  let ?r = "\<lambda>k t v f. \<lparr>kr_Address = kv_NewAddress 16 k t, kr_Data = [v, f]\<rparr>"
  let ?recs = "[?r [1] 9 5 0, ?r [1] 4 6 0, ?r [2] 6 0 1, ?r [2] 3 7 0]"
  let ?d = "[(3, \<lparr>p_index = 0, p_records = ?recs\<rparr>)]"
  have "inmem_inv ?d" "inmem_contents ?d 3 = Some ?recs" "encoded ?recs"
    by (simp_all add: inmem_inv_def inmem_contents_def encoded_def Address_Compare_less)
  note gr = Emulated_GetRange_correct [OF this, of "mv_NewAddress 16 [9]" "mv_NewAddress 16 [1]" 5]
  have "view_range ?recs 5 (mv_NewAddress 16 [1]) (mv_NewAddress 16 [9]) =
      [mv_of (?r [1] 4 6 0), mv_of (?r [2] 3 7 0)]"
    by (simp add: view_range_def key_in_range_def mv_NewAddress_def latest_def same_key_def eff_ts_def
        live_def Tombstone_def FlagTombstone_def)
  with gr show ?thesis by (simp add: mv_NewAddress_def)
qed

text \<open>
  C33: the emulated point read is right for a key that has a version. If the first byte of the key
  is not 255 and the key has some version not newer than the timestamp, \<^verbatim>\<open>Emulated.Get\<close> on the
  in-memory store returns the latest such version, or nil if it is a tombstone.
\<close>

theorem Emulated_Get_existing_key:
  assumes "inmem_inv d" "inmem_contents d pid = Some recs" "encoded recs"
    and "ma_Key a = b # bs" "b \<noteq> 255"
    and "r \<in> set recs" "ka_Keyspace (kr_Address r) = ma_Keyspace a" "ka_Key (kr_Address r) = ma_Key a"
    and "ka_Timestamp (kr_Address r) \<le> eff_ts ts"
  shows "Emulated_Get inmem_ops d pid ts [a] = Some (Inr [view_get recs ts a], d)"
  by (rule inm.Emulated_Get_view [OF assms])

theorem Emulated_Get_existing_key_witness:
  "let r = \<lparr>kr_Address = kv_NewAddress 16 [1] 4, kr_Data = [6, 0]\<rparr>;
       d = [(3, \<lparr>p_index = 0, p_records = [r]\<rparr>)]
   in Emulated_Get inmem_ops d 3 5 [mv_NewAddress 16 [1]] = Some (Inr [Some (mv_of r)], d)"
proof -
  let ?r = "\<lparr>kr_Address = kv_NewAddress 16 [1] 4, kr_Data = [6, 0]\<rparr>"
  let ?d = "[(3, \<lparr>p_index = 0, p_records = [?r]\<rparr>)]"
  have "inmem_inv ?d" "inmem_contents ?d 3 = Some [?r]" "encoded [?r]"
    by (simp_all add: inmem_inv_def inmem_contents_def encoded_def)
  note gr = Emulated_Get_existing_key [OF this, of "mv_NewAddress 16 [1]" 1 "[]" ?r 5]
  have "view_get [?r] 5 (mv_NewAddress 16 [1]) = Some (mv_of ?r)"
    by (simp add: view_get_def mv_NewAddress_def latest_def same_key_def eff_ts_def
        live_def Tombstone_def FlagTombstone_def)
  with gr show ?thesis by (simp add: mv_NewAddress_def eff_ts_def)
qed

text \<open>
  C39: the emulated point read misses keys that start with byte 255 and have a byte other than 255.
  The exclusive end of its range comes from \<^verbatim>\<open>Address.Next\<close>, whose carry runs from the first byte; for
  such a key the carry stops inside the key and the end lies before the start, so whatever the
  partition holds \<^verbatim>\<open>Emulated.Get\<close> returns nil. (When all bytes are 255 the carry leaves the key.)
\<close>

theorem Emulated_Get_misses_ff:
  assumes "inmem_inv d" "inmem_contents d pid = Some recs"
    and "ma_Key a = 255 # cs" "list_ex (\<lambda>c. c \<noteq> 255) cs"
  shows "Emulated_Get inmem_ops d pid ts [a] = Some (Inr [None], d)"
proof -
  let ?s = "kv_NewAddress (ma_Keyspace a) (ma_Key a) (eff_ts ts)"
  let ?e = "Address_Next (LastAddressForKey (ma_Keyspace a) (ma_Key a))"
  obtain k where k: "incKey cs = (k, True)" using incKey_stops [OF assms(4)] by blast
  have "incKey (255 # cs) = (0 # k, True)"
    by (subst incKey.simps(2)) (simp add: k del: incKey.simps)
  then have e: "?e = kv_NewAddress (ma_Keyspace a) (0 # k) max_u64"
    using assms(3) by (simp add: Address_Next_def LastAddressForKey_def Let_def del: incKey.simps)
  have "Address_Compare ?e ?s < 0" unfolding e by (simp add: Address_Compare_less assms(3))
  then have "\<not> in_range ?s (Some ?e) r" for r
    using ac.cmp_le_less_trans [of ?s "kr_Address r" ?e] ac.cmp_less_asym by (auto simp: in_range_def)
  then have "filter (in_range ?s (Some ?e)) recs = []" by (simp add: filter_empty_conv)
  then show ?thesis
    using inm.get_range_law [OF assms(1,2), of ?s "Some ?e"] by (simp add: getFirst_def)
qed

theorem Emulated_Get_misses_ff_witness:
  "let r = \<lparr>kr_Address = kv_NewAddress 16 [255, 1] 4, kr_Data = [6, 0]\<rparr>;
       d = [(3, \<lparr>p_index = 0, p_records = [r]\<rparr>)]
   in Emulated_Get inmem_ops d 3 5 [mv_NewAddress 16 [255, 1]] = Some (Inr [None], d)"
proof -
  let ?r = "\<lparr>kr_Address = kv_NewAddress 16 [255, 1] 4, kr_Data = [6, 0]\<rparr>"
  let ?d = "[(3, \<lparr>p_index = 0, p_records = [?r]\<rparr>)]"
  have "inmem_inv ?d" "inmem_contents ?d 3 = Some [?r]"
    by (simp_all add: inmem_inv_def inmem_contents_def)
  from Emulated_Get_misses_ff [OF this, of "mv_NewAddress 16 [255, 1]" "[1]" 5]
  show ?thesis by (simp add: mv_NewAddress_def)
qed

text \<open>
  C40: the emulated point read can answer with another key. If the first record at or after the
  requested version belongs to a longer key that has the requested key as a proper prefix, and it
  is live, \<^verbatim>\<open>Emulated.Get\<close> returns that record although the requested key does not exist.
\<close>

theorem Emulated_Get_wrong_key:
  assumes "inmem_inv d" "inmem_contents d pid = Some [r]" "live r"
    and "ma_Key a = b # bs" "b \<noteq> 255" "suffix \<noteq> []"
    and "ka_Keyspace (kr_Address r) = ma_Keyspace a" "ka_Key (kr_Address r) = ma_Key a @ suffix"
  shows "Emulated_Get inmem_ops d pid ts [a] = Some (Inr [Some (mv_of r)], d) \<and>
    view_get [r] ts a = None"
proof -
  let ?s = "kv_NewAddress (ma_Keyspace a) (ma_Key a) (eff_ts ts)"
  let ?e = "Address_Next (LastAddressForKey (ma_Keyspace a) (ma_Key a))"
  note k = incKey_less [OF assms(5), of bs]
  then have e: "?e = kv_NewAddress (ma_Keyspace a) ((b + 1) # bs) max_u64"
    using assms(4) by (simp add: Address_Next_def LastAddressForKey_def Let_def del: incKey.simps)
  have lt: "bytes_compare (ma_Key a) (ma_Key a @ suffix) < 0"
    using bytes_compare_append_same [of "ma_Key a" "[]" suffix] assms(6) by (cases suffix) simp_all
  have "in_range ?s (Some ?e) r"
    unfolding e using assms(4,7,8) lt k by (simp add: in_range_def Address_Compare_le Address_Compare_less)
  moreover have dat: "kr_Data r \<noteq> []" "\<not> Tombstone (last (kr_Data r))"
    using assms(3) by (simp_all add: live_def)
  ultimately have "Emulated_Get inmem_ops d pid ts [a] = Some (Inr [Some (mv_of r)], d)"
    using inm.get_range_law [OF assms(1,2), of ?s "Some ?e"]
    by (simp add: getFirst_def DecodeData_Some mv_of_def mk_mv_record_def)
  moreover have "view_get [r] ts a = None" using assms(6,8) by (simp add: view_get_def)
  ultimately show ?thesis ..
qed

theorem Emulated_Get_wrong_key_witness:
  "let r = \<lparr>kr_Address = kv_NewAddress 16 [1, 2] 4, kr_Data = [6, 0]\<rparr>;
       d = [(3, \<lparr>p_index = 0, p_records = [r]\<rparr>)]
   in Emulated_Get inmem_ops d 3 5 [mv_NewAddress 16 [1]] = Some (Inr [Some (mv_of r)], d)"
proof -
  let ?r = "\<lparr>kr_Address = kv_NewAddress 16 [1, 2] 4, kr_Data = [6, 0]\<rparr>"
  let ?d = "[(3, \<lparr>p_index = 0, p_records = [?r]\<rparr>)]"
  have "inmem_inv ?d" "inmem_contents ?d 3 = Some [?r]" "live ?r"
    by (simp_all add: inmem_inv_def inmem_contents_def live_def Tombstone_def FlagTombstone_def)
  from Emulated_Get_wrong_key [OF this, of "mv_NewAddress 16 [1]" 1 "[]" "[2]" 5]
  show ?thesis by (simp add: mv_NewAddress_def)
qed

end
