(* ===== verification/Txn_Manager.thy ===== *)
theory Txn_Manager
  imports Txn_Data Mvcc Hlc
begin

text \<open>
  The transaction manager of a partition (\<^verbatim>\<open>src/internal/data/server/txn/manager*.go\<close>): the
  deterministic state that every Raft replica advances by applying batches. It tracks the status
  of transactions, the prepared ones with their locks, and the highest timestamp seen.

  Go's pair of a status and an error is \<open>err + txn_status\<close>: the code always sets exactly one of
  the two. The struct \<^verbatim>\<open>id\<close> and the message \<^verbatim>\<open>TxnId\<close> have the same fields and are one type here.
  A function whose value is an option ends the process in the case \<open>None\<close>: a store operation that
  fails for good, a value that cannot be encoded, or the use of a nil pointer. The manager owns
  the store it writes to, \<open>m_store\<close>. Encoding a value is \<^verbatim>\<open>proto.Marshal\<close>, a parameter. Metrics
  are plain counters; log output is left out.
\<close>

section \<open>State and commands\<close>

record txn_status =
  ts_Id :: txn_id
  ts_Timestamp :: u64
  ts_State :: txn_state
  ts_ActionStatus :: "(u32, action_status) gomap option"
  ts_ParticipantPids :: "u32 list"

record prepared =
  pr_Txn :: txn
  pr_Timestamp :: u64
  pr_Locks :: "lock list"
  pr_LocksReleased :: bool
  pr_Decision :: "decision option"

record manager_meters =
  mm_Tracked :: int
  mm_Running :: int
  mm_Timedout :: int
  mm_LocksHeld :: int
  mm_LocksFailed :: int
  mm_ValidationFailed :: int

record 'db manager =
  m_pid :: u32
  m_db :: "'db mvcc_breaker"
  m_store :: 'db
  m_marshal :: "go_value \<Rightarrow> bytes option"
  m_cleanAfter :: int
  m_meters :: manager_meters
  m_status :: "(txn_id, txn_status) gomap"
  m_prepared :: "(txn_id, prepared) gomap"
  m_maxTimestamp :: u64

record autocommit =
  ac_Txn :: txn
  ac_Timestamp :: u64

record prepare =
  pp_Txn :: txn
  pp_Timestamp :: u64

record commit =
  c_Id :: txn_id
  c_Timestamp :: u64

record abort =
  ab_Id :: txn_id
  ab_Timestamp :: u64

record store_decision =
  sd_Decision :: decision
  sd_Timestamp :: u64

record mark_timedout =
  mt_Id :: txn_id
  mt_Timestamp :: u64
  mt_ReleaseLocks :: bool

record txn_batch =
  b_Autocommit :: "autocommit list"
  b_Prepare :: "prepare list"
  b_Commit :: "commit list"
  b_Abort :: "abort list"
  b_StoreDecision :: "store_decision list"
  b_MarkTimedout :: "mark_timedout list"
  b_MaxTimestamp :: u64

type_synonym batch_result = "err + txn_status"

record batch_results =
  br_Autocommit :: "batch_result list"
  br_Prepare :: "batch_result list"
  br_Commit :: "batch_result list"
  br_Abort :: "batch_result list"
  br_StoreDecision :: "batch_result list"
  br_MarkTimedout :: "batch_result list"

record txn_snapshot =
  sn_Status :: "txn_status list"
  sn_Prepared :: "prepared list"
  sn_MaxTimestamp :: u64

record running =
  ru_Id :: txn_id
  ru_Timestamp :: u64
  ru_State :: txn_state
  ru_ParticipantPids :: "u32 list"
  ru_Decision :: "decision option"

section \<open>Statuses\<close>

definition newStatus :: "txn_id \<Rightarrow> u64 \<Rightarrow> txn_state \<Rightarrow> txn_status" where
  "newStatus i timestamp state =
     \<lparr>ts_Id = i, ts_Timestamp = timestamp, ts_State = state, ts_ActionStatus = None,
      ts_ParticipantPids = []\<rparr>"

definition newActionStatus :: "u32 \<Rightarrow> action_code \<Rightarrow> go_value list \<Rightarrow> action_status" where
  "newActionStatus i code results = \<lparr>as_Id = i, as_Code = code, as_Results = results\<rparr>"

definition newFailedStatus :: "txn_id \<Rightarrow> u64 \<Rightarrow> u32 \<Rightarrow> action_code \<Rightarrow> txn_status" where
  "newFailedStatus i timestamp actionId code =
     \<lparr>ts_Id = i, ts_Timestamp = timestamp, ts_State = Failed,
      ts_ActionStatus = Some [(actionId, \<lparr>as_Id = actionId, as_Code = code, as_Results = []\<rparr>)],
      ts_ParticipantPids = []\<rparr>"

definition newEmptyStatus :: "txn \<Rightarrow> u64 \<Rightarrow> txn_state \<Rightarrow> txn_status" where
  "newEmptyStatus t timestamp state =
     \<lparr>ts_Id = t_Id t, ts_Timestamp = timestamp, ts_State = state, ts_ActionStatus = Some [],
      ts_ParticipantPids = []\<rparr>"

section \<open>Values\<close>

text \<open>\<^verbatim>\<open>mustEncodeValue\<close> on the byte strings the manager passes to it.\<close>

definition mustEncodeValue :: "(go_value \<Rightarrow> bytes option) \<Rightarrow> bytes \<Rightarrow> bytes option" where
  "mustEncodeValue marshal payload = marshal (Value_Bytes payload)"

section \<open>Locks\<close>

fun checkLock_prepared :: "lock \<Rightarrow> prepared list \<Rightarrow> bool" where
  "checkLock_prepared l [] = True"
| "checkLock_prepared l (p # ps) =
     (if pr_LocksReleased p then checkLock_prepared l ps
      else if list_ex (\<lambda>other. \<not> CompatibleWith l other) (pr_Locks p) then False
      else checkLock_prepared l ps)"

definition checkLock :: "'db manager \<Rightarrow> lock \<Rightarrow> bool" where
  "checkLock m l = checkLock_prepared l (map snd (m_prepared m))"

fun checkLocks :: "txn_id \<Rightarrow> u64 \<Rightarrow> lock list \<Rightarrow> 'db manager \<Rightarrow> txn_status option \<times> 'db manager" where
  "checkLocks i timestamp [] m = (None, m)"
| "checkLocks i timestamp (l # ls) m =
     (if \<not> checkLock m l
      then (Some (newFailedStatus i timestamp (l_ActionId l) LockFailed),
            m\<lparr>m_meters := (m_meters m)\<lparr>mm_LocksFailed := mm_LocksFailed (m_meters m) + 1\<rparr>\<rparr>)
      else checkLocks i timestamp ls m)"

text \<open>
  \<^verbatim>\<open>releaseLocks\<close> changes the prepared record through its pointer. The record stays in the map under
  the same identifier for as long as anyone holds the pointer, so the update is made there.
\<close>

definition releaseLocks :: "txn_id \<Rightarrow> 'db manager \<Rightarrow> 'db manager" where
  "releaseLocks i m = (case mget (m_prepared m) i of
       None \<Rightarrow> m
     | Some p \<Rightarrow> m\<lparr>m_meters := (m_meters m)\<lparr>mm_LocksHeld := mm_LocksHeld (m_meters m) - int (length (pr_Locks p))\<rparr>,
                   m_prepared := mput i (p\<lparr>pr_Locks := [], pr_LocksReleased := True\<rparr>) (m_prepared m)\<rparr>)"

definition countLocksHeld :: "'db manager \<Rightarrow> int" where
  "countLocksHeld m = sum_list (map (\<lambda>(_, p). int (length (pr_Locks p))) (m_prepared m))"

fun safeTimestampForLock ::
    "(txn_id, txn_status) gomap \<Rightarrow> (txn_id, prepared) gomap \<Rightarrow> lock \<Rightarrow> u64 \<Rightarrow> u64 option" where
  "safeTimestampForLock status [] l result = Some result"
| "safeTimestampForLock status ((i, p) # ps) l result =
     (if pr_LocksReleased p then safeTimestampForLock status ps l result
      else do {
        s \<leftarrow> mget status i;
        (if IsFinal (ts_State s) then safeTimestampForLock status ps l result
         else if list_ex (\<lambda>other. \<not> CompatibleWith l other) (pr_Locks p)
         then safeTimestampForLock status ps l (min result (pr_Timestamp p))
         else safeTimestampForLock status ps l result)
      })"

fun conflictingTimestamp :: "'db manager \<Rightarrow> lock list \<Rightarrow> u64 \<Rightarrow> u64 option" where
  "conflictingTimestamp m [] conflicting = Some conflicting"
| "conflictingTimestamp m (l # ls) conflicting = do {
     x \<leftarrow> safeTimestampForLock (m_status m) (m_prepared m) l max_u64;
     conflictingTimestamp m ls (min conflicting x)
   }"

definition safeTimestampForLocks :: "'db manager \<Rightarrow> lock list \<Rightarrow> (u64 \<times> bool) option" where
  "safeTimestampForLocks m locks = do {
     conflicting \<leftarrow> conflictingTimestamp m locks max_u64;
     (if conflicting = max_u64 then Some (m_maxTimestamp m, False)
      else Some (min (m_maxTimestamp m) (conflicting - 1), True))
   }"

definition getSafeTimestamp :: "'db manager \<Rightarrow> txn \<Rightarrow> (u64 \<times> bool) option" where
  "getSafeTimestamp m t = safeTimestampForLocks m (BuildLocks t)"

section \<open>Validation and writes\<close>

definition db_Exists :: "u64 \<Rightarrow> mv_address \<Rightarrow> 'db manager \<Rightarrow> (bool \<times> 'db manager) option" where
  "db_Exists timestamp addr m = do {
     (b, store) \<leftarrow> Breaker_Exists (m_db m) (m_store m) (m_pid m) timestamp addr;
     Some (b, m\<lparr>m_store := store\<rparr>)
   }"

definition db_ExistsInRange ::
    "u64 \<Rightarrow> mv_address \<Rightarrow> mv_address \<Rightarrow> 'db manager \<Rightarrow> (bool \<times> 'db manager) option" where
  "db_ExistsInRange timestamp start end m = do {
     (b, store) \<leftarrow> Breaker_ExistsInRange (m_db m) (m_store m) (m_pid m) timestamp start end;
     Some (b, m\<lparr>m_store := store\<rparr>)
   }"

definition validation_failed :: "'db manager \<Rightarrow> 'db manager" where
  "validation_failed m =
     m\<lparr>m_meters := (m_meters m)\<lparr>mm_ValidationFailed := mm_ValidationFailed (m_meters m) + 1\<rparr>\<rparr>"

text \<open>The check of one action: the code it fails with, if it fails.\<close>

definition validate_action ::
    "u64 \<Rightarrow> action \<Rightarrow> 'db manager \<Rightarrow> (action_code option \<times> 'db manager) option" where
  "validate_action timestamp a m = (case a_Payload a of
       Action_Insert ks k _ \<Rightarrow> do {
         (b, m') \<leftarrow> db_Exists (timestamp - 1) (mv_NewAddress ks k) m;
         Some (if b then Some KeyAlreadyExists else None, m')
       }
     | Action_Update ks k _ \<Rightarrow> do {
         (b, m') \<leftarrow> db_Exists (timestamp - 1) (mv_NewAddress ks k) m;
         Some (if \<not> b then Some KeyNotFound else None, m')
       }
     | Action_Delete ks k \<Rightarrow> do {
         (b, m') \<leftarrow> db_Exists (timestamp - 1) (mv_NewAddress ks k) m;
         Some (if \<not> b then Some KeyNotFound else None, m')
       }
     | Action_LockKey l check \<Rightarrow>
         if check = LockKey_None then Some (None, m)
         else do {
           (actual, m') \<leftarrow> db_Exists (timestamp - 1) (mv_NewAddress (kl_Keyspace l) (kl_Key l)) m;
           Some (if actual \<noteq> (check = LockKey_MustExist) then Some LockCheckFailed else None, m')
         }
     | Action_LockRange l check \<Rightarrow>
         if check = LockRange_None then Some (None, m)
         else do {
           (actual, m') \<leftarrow> db_ExistsInRange (timestamp - 1)
             (mv_NewAddress (rl_Keyspace l) (rl_StartKey l))
             (mv_NewAddress (rl_Keyspace l) (rl_EndKey l)) m;
           Some (if actual \<noteq> (check = LockRange_MustNotBeEmpty) then Some LockCheckFailed else None, m')
         }
     | _ \<Rightarrow> Some (None, m))"

fun validate_loop ::
    "txn_id \<Rightarrow> u64 \<Rightarrow> action list \<Rightarrow> 'db manager \<Rightarrow> (txn_status option \<times> 'db manager) option" where
  "validate_loop i timestamp [] m = Some (None, m)"
| "validate_loop i timestamp (a # as) m = do {
     (r, m') \<leftarrow> validate_action timestamp a m;
     (case r of
        Some code \<Rightarrow> Some (Some (newFailedStatus i timestamp (a_Id a) code), validation_failed m')
      | None \<Rightarrow> validate_loop i timestamp as m')
   }"

definition validate ::
    "txn_id \<Rightarrow> u64 \<Rightarrow> txn \<Rightarrow> 'db manager \<Rightarrow> (txn_status option \<times> 'db manager) option" where
  "validate i timestamp t m = validate_loop i timestamp (t_Actions t) m"

definition mk_write :: "u64 \<Rightarrow> u32 \<Rightarrow> bytes \<Rightarrow> bytes \<Rightarrow> u8 \<Rightarrow> mv_record" where
  "mk_write timestamp ks k v flags =
     \<lparr>mr_Address = mv_NewAddress ks k, mr_Timestamp = timestamp, mr_Value = v, mr_Flags = flags\<rparr>"

definition value_write ::
    "(go_value \<Rightarrow> bytes option) \<Rightarrow> u64 \<Rightarrow> u32 \<Rightarrow> bytes \<Rightarrow> bytes \<Rightarrow> mv_record option" where
  "value_write marshal timestamp ks k v = do {
     x \<leftarrow> mustEncodeValue marshal v;
     Some (mk_write timestamp ks k x FlagEmpty)
   }"

fun buildWriteRecords ::
    "(go_value \<Rightarrow> bytes option) \<Rightarrow> u64 \<Rightarrow> action list \<Rightarrow> mv_record list option" where
  "buildWriteRecords marshal timestamp [] = Some []"
| "buildWriteRecords marshal timestamp (a # as) = (case a_Payload a of
       Action_Insert ks k v \<Rightarrow> do {
         r \<leftarrow> value_write marshal timestamp ks k v;
         rs \<leftarrow> buildWriteRecords marshal timestamp as;
         Some (r # rs)
       }
     | Action_Update ks k v \<Rightarrow> do {
         r \<leftarrow> value_write marshal timestamp ks k v;
         rs \<leftarrow> buildWriteRecords marshal timestamp as;
         Some (r # rs)
       }
     | Action_Upsert ks k v \<Rightarrow> do {
         r \<leftarrow> value_write marshal timestamp ks k v;
         rs \<leftarrow> buildWriteRecords marshal timestamp as;
         Some (r # rs)
       }
     | Action_Delete ks k \<Rightarrow> do {
         rs \<leftarrow> buildWriteRecords marshal timestamp as;
         Some (mk_write timestamp ks k [] FlagTombstone # rs)
       }
     | _ \<Rightarrow> buildWriteRecords marshal timestamp as)"

section \<open>Applying commands\<close>

text \<open>
  A completion runs after the batch has been written. The one of a commit releases the locks of
  the transaction; the one of an autocommit only logs.
\<close>

datatype completion = Completion_Log | Completion_Release txn_id

definition add_tracked :: "int \<Rightarrow> 'db manager \<Rightarrow> 'db manager" where
  "add_tracked n m = m\<lparr>m_meters := (m_meters m)\<lparr>mm_Tracked := mm_Tracked (m_meters m) + n\<rparr>\<rparr>"

definition add_running :: "int \<Rightarrow> 'db manager \<Rightarrow> 'db manager" where
  "add_running n m = m\<lparr>m_meters := (m_meters m)\<lparr>mm_Running := mm_Running (m_meters m) + n\<rparr>\<rparr>"

definition add_timedout :: "int \<Rightarrow> 'db manager \<Rightarrow> 'db manager" where
  "add_timedout n m = m\<lparr>m_meters := (m_meters m)\<lparr>mm_Timedout := mm_Timedout (m_meters m) + n\<rparr>\<rparr>"

definition add_locks_held :: "int \<Rightarrow> 'db manager \<Rightarrow> 'db manager" where
  "add_locks_held n m =
     m\<lparr>m_meters := (m_meters m)\<lparr>mm_LocksHeld := mm_LocksHeld (m_meters m) + n\<rparr>\<rparr>"

definition set_status :: "txn_id \<Rightarrow> txn_status \<Rightarrow> 'db manager \<Rightarrow> 'db manager" where
  "set_status i s m = m\<lparr>m_status := mput i s (m_status m)\<rparr>"

definition set_prepared :: "txn_id \<Rightarrow> prepared \<Rightarrow> 'db manager \<Rightarrow> 'db manager" where
  "set_prepared i p m = m\<lparr>m_prepared := mput i p (m_prepared m)\<rparr>"

definition applyAutocommit ::
    "autocommit \<Rightarrow> 'db manager \<Rightarrow>
     ((err + (txn_status \<times> mv_record list \<times> completion option)) \<times> 'db manager) option" where
  "applyAutocommit cmd m =
     (let i = t_Id (ac_Txn cmd) in
      case mget (m_status m) i of
        Some status \<Rightarrow>
          (case ts_State status of
             Committed \<Rightarrow> Some (Inr (status, [], None), m)
           | Failed \<Rightarrow> Some (Inr (status, [], None), m)
           | _ \<Rightarrow> Some (Inl FailedPrecondition, m))
      | None \<Rightarrow>
          (case checkLocks i (ac_Timestamp cmd) (BuildLocks (ac_Txn cmd)) m of
             (Some status, m1) \<Rightarrow> Some (Inr (status, [], None), m1)
           | (None, m1) \<Rightarrow> do {
               (v, m2) \<leftarrow> validate i (ac_Timestamp cmd) (ac_Txn cmd) m1;
               (case v of
                  Some status \<Rightarrow> Some (Inr (status, [], None), m2)
                | None \<Rightarrow> do {
                    writes \<leftarrow> buildWriteRecords (m_marshal m2) (ac_Timestamp cmd) (t_Actions (ac_Txn cmd));
                    let status = newStatus i (ac_Timestamp cmd) Committed;
                    Some (Inr (status, writes, Some Completion_Log),
                          add_tracked 1 (set_status i status m2))
                  })
             }))"

definition applyPrepare :: "prepare \<Rightarrow> 'db manager \<Rightarrow> (batch_result \<times> 'db manager) option" where
  "applyPrepare cmd m =
     (let i = t_Id (pp_Txn cmd) in
      case mget (m_status m) i of
        Some status \<Rightarrow>
          (case ts_State status of
             Prepared \<Rightarrow> Some (Inr status, m)
           | Failed \<Rightarrow> Some (Inr status, m)
           | _ \<Rightarrow> Some (Inl FailedPrecondition, m))
      | None \<Rightarrow>
          (let locks = BuildLocks (pp_Txn cmd) in
           case checkLocks i (pp_Timestamp cmd) locks m of
             (Some status, m1) \<Rightarrow> Some (Inr status, m1)
           | (None, m1) \<Rightarrow> do {
               (v, m2) \<leftarrow> validate i (pp_Timestamp cmd) (pp_Txn cmd) m1;
               (case v of
                  Some status \<Rightarrow> Some (Inr status, m2)
                | None \<Rightarrow>
                    let status = newStatus i (pp_Timestamp cmd) Prepared;
                        p = \<lparr>pr_Txn = pp_Txn cmd, pr_Timestamp = pp_Timestamp cmd, pr_Locks = locks,
                             pr_LocksReleased = False, pr_Decision = None\<rparr>
                    in Some (Inr status,
                         add_locks_held (int (length locks)) (add_tracked 1 (add_running 1
                           (set_status i status (set_prepared i p m2))))))
             }))"

text \<open>The commit proper, once the checks on the state have passed.\<close>

definition commit_prepared ::
    "commit \<Rightarrow> prepared \<Rightarrow> 'db manager \<Rightarrow>
     ((err + (txn_status \<times> mv_record list \<times> completion option)) \<times> 'db manager) option" where
  "commit_prepared cmd p m = do {
     writes \<leftarrow> buildWriteRecords (m_marshal m) (c_Timestamp cmd) (t_Actions (pr_Txn p));
     let status = (newStatus (c_Id cmd) (c_Timestamp cmd) Committed)
                    \<lparr>ts_ParticipantPids := t_ParticipantPids (pr_Txn p)\<rparr>;
     Some (Inr (status, writes, Some (Completion_Release (c_Id cmd))), set_status (c_Id cmd) status m)
   }"

definition applyCommit ::
    "commit \<Rightarrow> 'db manager \<Rightarrow>
     ((err + (txn_status \<times> mv_record list \<times> completion option)) \<times> 'db manager) option" where
  "applyCommit cmd m = (case mget (m_status m) (c_Id cmd) of
       None \<Rightarrow> Some (Inl NotFound, m)
     | Some status \<Rightarrow> (case mget (m_prepared m) (c_Id cmd) of
         None \<Rightarrow> Some (Inl NotFound, m)
       | Some p \<Rightarrow> (case ts_State status of
           Committed \<Rightarrow> Some (Inr (status, [], None), m)
         | Decided \<Rightarrow> do {
             d \<leftarrow> pr_Decision p;
             (if c_Timestamp cmd \<noteq> d_CommitTimestamp d then Some (Inl InvalidRequest, m)
              else commit_prepared cmd p m)
           }
         | Prepared \<Rightarrow>
             if c_Timestamp cmd < ts_Timestamp status then Some (Inl InvalidRequest, m)
             else commit_prepared cmd p m
         | _ \<Rightarrow> Some (Inl FailedPrecondition, m))))"

definition applyAbort :: "abort \<Rightarrow> 'db manager \<Rightarrow> batch_result \<times> 'db manager" where
  "applyAbort cmd m = (case mget (m_status m) (ab_Id cmd) of
       None \<Rightarrow> (Inl NotFound, m)
     | Some status \<Rightarrow> (case mget (m_prepared m) (ab_Id cmd) of
         None \<Rightarrow> (Inl NotFound, m)
       | Some p \<Rightarrow> (case ts_State status of
           Aborted \<Rightarrow> (Inr status, m)
         | Timedout \<Rightarrow> (Inr status, m)
         | Prepared \<Rightarrow>
             let s = newStatus (ab_Id cmd) (ab_Timestamp cmd) Aborted
             in (Inr s, add_running (- 1) (set_status (ab_Id cmd) s (releaseLocks (ab_Id cmd) m)))
         | _ \<Rightarrow> (Inl FailedPrecondition, m))))"

definition applyStoreDecision :: "store_decision \<Rightarrow> 'db manager \<Rightarrow> (batch_result \<times> 'db manager) option" where
  "applyStoreDecision cmd m =
     (let i = d_Id (sd_Decision cmd) in
      case mget (m_status m) i of
        None \<Rightarrow> Some (Inl NotFound, m)
      | Some status \<Rightarrow>
          if PrincipalPid i \<noteq> m_pid m then Some (Inl PermissionDenied, m)
          else (case mget (m_prepared m) i of
            None \<Rightarrow> Some (Inl NotFound, m)
          | Some p \<Rightarrow> (case ts_State status of
              Decided \<Rightarrow> do {
                d \<leftarrow> pr_Decision p;
                (if d_Commit d \<noteq> d_Commit (sd_Decision cmd) then Some (Inl FailedPrecondition, m)
                 else Some (Inr status, m))
              }
            | Timedout \<Rightarrow> Some (Inr status, m)
            | Prepared \<Rightarrow>
                if d_CommitTimestamp (sd_Decision cmd) < ts_Timestamp status
                then Some (Inl InvalidRequest, m)
                else (let s = newStatus i (sd_Timestamp cmd) Decided
                      in Some (Inr s, set_status i s
                           (set_prepared i (p\<lparr>pr_Decision := Some (sd_Decision cmd)\<rparr>) m)))
            | _ \<Rightarrow> Some (Inl FailedPrecondition, m))))"

definition applyMarkTimedout :: "mark_timedout \<Rightarrow> 'db manager \<Rightarrow> batch_result \<times> 'db manager" where
  "applyMarkTimedout cmd m = (case mget (m_status m) (mt_Id cmd) of
       None \<Rightarrow> (Inl NotFound, m)
     | Some status \<Rightarrow>
         if PrincipalPid (mt_Id cmd) \<noteq> m_pid m then (Inl PermissionDenied, m)
         else (case mget (m_prepared m) (mt_Id cmd) of
           None \<Rightarrow> (Inl NotFound, m)
         | Some p \<Rightarrow> (case ts_State status of
             Timedout \<Rightarrow> (Inr status, if mt_ReleaseLocks cmd then releaseLocks (mt_Id cmd) m else m)
           | Prepared \<Rightarrow>
               let s = newStatus (mt_Id cmd) (mt_Timestamp cmd) Timedout
               in (Inr s, add_timedout 1 (add_running (- 1) (set_status (mt_Id cmd) s m)))
           | _ \<Rightarrow> (Inl FailedPrecondition, m))))"

definition cleanup :: "int \<times> int \<Rightarrow> 'db manager \<Rightarrow> 'db manager" where
  "cleanup now m =
     (let oldest = FromTime (time_Unix (fst now) (snd now - m_cleanAfter m));
          toRemove = filter (\<lambda>(i, status).
            \<not> (ts_Timestamp status > oldest \<or> \<not> IsFinal (ts_State status)) \<and>
            \<not> (case mget (m_prepared m) i of Some x \<Rightarrow> \<not> pr_LocksReleased x | None \<Rightarrow> False)) (m_status m);
          ids = map fst toRemove
      in add_tracked (- int (length ids))
           (m\<lparr>m_status := filter (\<lambda>(i, _). i \<notin> set ids) (m_status m),
              m_prepared := filter (\<lambda>(i, _). i \<notin> set ids) (m_prepared m)\<rparr>))"

section \<open>Applying a batch\<close>

text \<open>The loops of \<^verbatim>\<open>ApplyBatch\<close>: each threads the manager and collects the results in order.\<close>

fun each :: "('c \<Rightarrow> 'm \<Rightarrow> ('r \<times> 'm) option) \<Rightarrow> 'c list \<Rightarrow> 'm \<Rightarrow> ('r list \<times> 'm) option" where
  "each f [] m = Some ([], m)"
| "each f (c # cs) m = do { (r, m') \<leftarrow> f c m; (rs, m'') \<leftarrow> each f cs m'; Some (r # rs, m'') }"

text \<open>What the loops over commits and autocommits keep of a result.\<close>

definition res_status :: "err + (txn_status \<times> mv_record list \<times> completion option) \<Rightarrow> batch_result" where
  "res_status r = (case r of Inl e \<Rightarrow> Inl e | Inr (s, _, _) \<Rightarrow> Inr s)"

definition res_writes :: "err + (txn_status \<times> mv_record list \<times> completion option) \<Rightarrow> mv_record list" where
  "res_writes r = (case r of Inl e \<Rightarrow> [] | Inr (_, w, _) \<Rightarrow> w)"

definition res_completion :: "err + (txn_status \<times> mv_record list \<times> completion option) \<Rightarrow> completion list" where
  "res_completion r = (case r of Inl e \<Rightarrow> [] | Inr (_, _, None) \<Rightarrow> [] | Inr (_, _, Some c) \<Rightarrow> [c])"

definition run_completion :: "completion \<Rightarrow> 'db manager \<Rightarrow> 'db manager" where
  "run_completion c m = (case c of
       Completion_Log \<Rightarrow> m
     | Completion_Release i \<Rightarrow> add_running (- 1) (releaseLocks i m))"

definition db_Put :: "u64 \<Rightarrow> mv_record list \<Rightarrow> 'db manager \<Rightarrow> 'db manager option" where
  "db_Put index writes m = do {
     store \<leftarrow> Breaker_Put (m_db m) (m_store m) (m_pid m) index writes;
     Some (m\<lparr>m_store := store\<rparr>)
   }"

definition ApplyBatch ::
    "int \<times> int \<Rightarrow> u64 \<Rightarrow> txn_batch \<Rightarrow> 'db manager \<Rightarrow> (batch_results \<times> 'db manager) option" where
  "ApplyBatch now index batch m = do {
     (ra, m1) \<leftarrow> each (\<lambda>c m. Some (applyAbort c m)) (b_Abort batch) m;
     (rt, m2) \<leftarrow> each (\<lambda>c m. Some (applyMarkTimedout c m)) (b_MarkTimedout batch) m1;
     (rc, m3) \<leftarrow> each applyCommit (b_Commit batch) m2;
     (ru, m4) \<leftarrow> each applyAutocommit (b_Autocommit batch) m3;
     (rp, m5) \<leftarrow> each applyPrepare (b_Prepare batch) m4;
     (rd, m6) \<leftarrow> each applyStoreDecision (b_StoreDecision batch) m5;
     let allWrites = concat (map res_writes rc) @ concat (map res_writes ru);
     m7 \<leftarrow> db_Put index allWrites m6;
     let completions = concat (map res_completion rc) @ concat (map res_completion ru);
     let m8 = fold run_completion completions m7;
     let m9 = m8\<lparr>m_maxTimestamp := b_MaxTimestamp batch\<rparr>;
     Some (\<lparr>br_Autocommit = map res_status ru, br_Prepare = rp, br_Commit = map res_status rc,
            br_Abort = ra, br_StoreDecision = rd, br_MarkTimedout = rt\<rparr>, cleanup now m9)
   }"

section \<open>Life cycle, snapshots and queries\<close>

definition zero_meters :: manager_meters where
  "zero_meters = \<lparr>mm_Tracked = 0, mm_Running = 0, mm_Timedout = 0, mm_LocksHeld = 0,
                  mm_LocksFailed = 0, mm_ValidationFailed = 0\<rparr>"

definition NewManager ::
    "u32 \<Rightarrow> 'db mv_ops \<Rightarrow> nat \<Rightarrow> 'db \<Rightarrow> (go_value \<Rightarrow> bytes option) \<Rightarrow> int \<Rightarrow> 'db manager" where
  "NewManager pid ops maxAttempts store marshal cleanAfter =
     \<lparr>m_pid = pid, m_db = \<lparr>mb_db = ops, mb_maxAttempts = maxAttempts\<rparr>, m_store = store,
      m_marshal = marshal, m_cleanAfter = cleanAfter, m_meters = zero_meters,
      m_status = [], m_prepared = [], m_maxTimestamp = 0\<rparr>"

definition countRunning :: "'db manager \<Rightarrow> int" where
  "countRunning m = int (length (filter (\<lambda>(_, p). \<not> pr_LocksReleased p) (m_prepared m)))"

definition Manager_Stop :: "'db manager \<Rightarrow> 'db manager" where
  "Manager_Stop m = add_locks_held (- countLocksHeld m)
     (add_running (- countRunning m) (add_tracked (- int (length (m_status m))) m))"

definition Snapshot :: "'db manager \<Rightarrow> txn_snapshot" where
  "Snapshot m =
     \<lparr>sn_Status = map snd (m_status m),
      sn_Prepared = map (\<lambda>(_, p). p\<lparr>pr_Locks := []\<rparr>) (m_prepared m),
      sn_MaxTimestamp = m_maxTimestamp m\<rparr>"

definition restore_prepared :: "prepared \<Rightarrow> prepared" where
  "restore_prepared x =
     (if \<not> pr_LocksReleased x then x\<lparr>pr_Locks := BuildLocks (pr_Txn x)\<rparr> else x)"

definition Restore :: "txn_snapshot \<Rightarrow> 'db manager \<Rightarrow> 'db manager" where
  "Restore snap m =
     (let status = fold (\<lambda>s. mput (ts_Id s) s) (sn_Status snap) [];
          prepared = fold (\<lambda>x. mput (t_Id (pr_Txn x)) (restore_prepared x)) (sn_Prepared snap) [];
          m' = m\<lparr>m_maxTimestamp := sn_MaxTimestamp snap, m_status := status, m_prepared := prepared\<rparr>
      in add_locks_held (countLocksHeld m - countLocksHeld m')
           (add_running (countRunning m - countRunning m')
             (add_tracked (int (length (m_status m)) - int (length (m_status m'))) m')))"

fun running_loop ::
    "u32 \<Rightarrow> (txn_id, txn_status) gomap \<Rightarrow> (txn_id, prepared) gomap \<Rightarrow> running list option" where
  "running_loop pid status [] = Some []"
| "running_loop pid status ((i, p) # ps) =
     (if PrincipalPid i \<noteq> pid \<or> pr_LocksReleased p then running_loop pid status ps
      else do {
        s \<leftarrow> mget status i;
        rest \<leftarrow> running_loop pid status ps;
        Some (\<lparr>ru_Id = i, ru_Timestamp = ts_Timestamp s, ru_State = ts_State s,
               ru_ParticipantPids = ts_ParticipantPids s, ru_Decision = pr_Decision p\<rparr> # rest)
      })"

definition getRunning :: "'db manager \<Rightarrow> running list option" where
  "getRunning m = running_loop (m_pid m) (m_status m) (m_prepared m)"

definition getMaxTimestamp :: "'db manager \<Rightarrow> u64" where
  "getMaxTimestamp m = m_maxTimestamp m"

definition getPreparedTxn :: "'db manager \<Rightarrow> txn_id \<Rightarrow> txn option" where
  "getPreparedTxn m i = map_option pr_Txn (mget (m_prepared m) i)"

end
