(* ===== verification/Txn_Spec.thy ===== *)
theory Txn_Spec
  imports Txn_Manager
begin

text \<open>
  The abstract machine behind the transaction manager. Its state is what the manager knows about
  transactions, the map of statuses and the map of prepared transactions, with the set \<open>W\<close> of
  transactions that are committed but whose locks are still to be released by a completion. The
  relation \<open>mstep\<close> lists the moves a transaction can make; \<open>txns_ok\<close> is the invariant of the
  machine, proved by rule induction. Theory \<open>Txn_Refine\<close> shows that applying a batch is a sequence
  of such moves.
\<close>

section \<open>The abstract machine\<close>

type_synonym status_map = "(txn_id, txn_status) gomap"
type_synonym prepared_map = "(txn_id, prepared) gomap"

text \<open>No unreleased prepared transaction holds a lock that conflicts with one of the given locks.\<close>

definition locks_free :: "prepared_map \<Rightarrow> lock list \<Rightarrow> bool" where
  "locks_free pm ls \<longleftrightarrow> (\<forall>i p l k. mget pm i = Some p \<longrightarrow> \<not> pr_LocksReleased p \<longrightarrow>
     l \<in> set ls \<longrightarrow> k \<in> set (pr_Locks p) \<longrightarrow> CompatibleWith l k)"

definition released :: "prepared \<Rightarrow> prepared" where
  "released p = p\<lparr>pr_Locks := [], pr_LocksReleased := True\<rparr>"

definition new_prepared :: "txn \<Rightarrow> u64 \<Rightarrow> prepared" where
  "new_prepared t ts = \<lparr>pr_Txn = t, pr_Timestamp = ts, pr_Locks = BuildLocks t,
                        pr_LocksReleased = False, pr_Decision = None\<rparr>"

text \<open>The commit timestamp a transaction may be committed at.\<close>

definition may_commit :: "txn_status \<Rightarrow> prepared \<Rightarrow> u64 \<Rightarrow> bool" where
  "may_commit s p ts \<longleftrightarrow>
     ts_State s = Prepared \<and> ts_Timestamp s \<le> ts \<or>
     ts_State s = Decided \<and> (\<exists>d. pr_Decision p = Some d \<and> d_CommitTimestamp d = ts)"

definition forgettable :: "status_map \<Rightarrow> prepared_map \<Rightarrow> txn_id \<Rightarrow> bool" where
  "forgettable sm pm i \<longleftrightarrow> (\<exists>s. mget sm i = Some s \<and> IsFinal (ts_State s)) \<and>
     (\<forall>p. mget pm i = Some p \<longrightarrow> pr_LocksReleased p)"

definition drop_ids :: "txn_id set \<Rightarrow> (txn_id, 'v) gomap \<Rightarrow> (txn_id, 'v) gomap" where
  "drop_ids ids m = filter (\<lambda>(i, _). i \<notin> ids) m"

text \<open>The moves of a single transaction, and forgetting transactions that are over.\<close>

inductive mmove :: "status_map \<times> prepared_map \<times> txn_id set \<Rightarrow> status_map \<times> prepared_map \<times> txn_id set \<Rightarrow> bool"
where
  Autocommit: "mget sm i = None \<Longrightarrow>
    mmove (sm, pm, W) (mput i (newStatus i ts Committed) sm, pm, W)"
| Prepare: "mget sm (t_Id t) = None \<Longrightarrow> locks_free pm (BuildLocks t) \<Longrightarrow>
    mmove (sm, pm, W) (mput (t_Id t) (newStatus (t_Id t) ts Prepared) sm,
                       mput (t_Id t) (new_prepared t ts) pm, W)"
| Decide: "mget sm i = Some s \<Longrightarrow> mget pm i = Some p \<Longrightarrow> ts_State s = Prepared \<Longrightarrow>
    ts_Timestamp s \<le> d_CommitTimestamp d \<Longrightarrow>
    mmove (sm, pm, W) (mput i (newStatus i ts Decided) sm, mput i (p\<lparr>pr_Decision := Some d\<rparr>) pm, W)"
| Commit: "mget sm i = Some s \<Longrightarrow> mget pm i = Some p \<Longrightarrow> may_commit s p ts \<Longrightarrow>
    mmove (sm, pm, W) (mput i ((newStatus i ts Committed)\<lparr>ts_ParticipantPids := pids\<rparr>) sm, pm, insert i W)"
| Complete: "i \<in> W \<Longrightarrow> mget pm i = Some p \<Longrightarrow>
    mmove (sm, pm, W) (sm, mput i (released p) pm, W - {i})"
| Abort: "mget sm i = Some s \<Longrightarrow> mget pm i = Some p \<Longrightarrow> ts_State s = Prepared \<Longrightarrow>
    mmove (sm, pm, W) (mput i (newStatus i ts Aborted) sm, mput i (released p) pm, W)"
| Timeout: "mget sm i = Some s \<Longrightarrow> mget pm i = Some p \<Longrightarrow> ts_State s = Prepared \<Longrightarrow>
    mmove (sm, pm, W) (mput i (newStatus i ts Timedout) sm, pm, W)"
| Release: "mget sm i = Some s \<Longrightarrow> mget pm i = Some p \<Longrightarrow> ts_State s = Timedout \<Longrightarrow>
    mmove (sm, pm, W) (sm, mput i (released p) pm, W)"

inductive mstep :: "status_map \<times> prepared_map \<times> txn_id set \<Rightarrow> status_map \<times> prepared_map \<times> txn_id set \<Rightarrow> bool"
where
  Move: "mmove x y \<Longrightarrow> mstep x y"
| Forget: "(\<And>i. i \<in> ids \<Longrightarrow> forgettable sm pm i) \<Longrightarrow> ids \<inter> W = {} \<Longrightarrow>
    mstep (sm, pm, W) (drop_ids ids sm, drop_ids ids pm, W)"

section \<open>Its invariant\<close>

definition entry_ok :: "txn_id set \<Rightarrow> txn_id \<Rightarrow> prepared \<Rightarrow> txn_status \<Rightarrow> bool" where
  "entry_ok W i p s \<longleftrightarrow> t_Id (pr_Txn p) = i \<and>
     pr_Locks p = (if pr_LocksReleased p then [] else BuildLocks (pr_Txn p)) \<and>
     (case ts_State s of
        Prepared \<Rightarrow> \<not> pr_LocksReleased p \<and> ts_Timestamp s = pr_Timestamp p
      | Decided \<Rightarrow> \<not> pr_LocksReleased p \<and>
          (\<exists>d. pr_Decision p = Some d \<and> pr_Timestamp p \<le> d_CommitTimestamp d)
      | Committed \<Rightarrow> pr_LocksReleased p \<or> i \<in> W
      | Aborted \<Rightarrow> pr_LocksReleased p
      | Timedout \<Rightarrow> True
      | _ \<Rightarrow> False)"

definition compatible_locks :: "prepared_map \<Rightarrow> bool" where
  "compatible_locks pm \<longleftrightarrow> (\<forall>i j p q l k. mget pm i = Some p \<longrightarrow> mget pm j = Some q \<longrightarrow> i \<noteq> j \<longrightarrow>
     \<not> pr_LocksReleased p \<longrightarrow> \<not> pr_LocksReleased q \<longrightarrow>
     l \<in> set (pr_Locks p) \<longrightarrow> k \<in> set (pr_Locks q) \<longrightarrow> CompatibleWith l k)"

definition txns_ok :: "status_map \<times> prepared_map \<times> txn_id set \<Rightarrow> bool" where
  "txns_ok = (\<lambda>(sm, pm, W). gomap_wf sm \<and> gomap_wf pm \<and> compatible_locks pm \<and>
     (\<forall>i s. mget sm i = Some s \<longrightarrow> ts_Id s = i \<and> (mget pm i = None \<longrightarrow> ts_State s = Committed)) \<and>
     (\<forall>i p. mget pm i = Some p \<longrightarrow> (\<exists>s. mget sm i = Some s \<and> entry_ok W i p s)) \<and>
     (\<forall>i \<in> W. \<exists>s p. mget sm i = Some s \<and> ts_State s = Committed \<and> mget pm i = Some p))"

lemma txns_okI:
  assumes "gomap_wf sm" "gomap_wf pm" "compatible_locks pm"
    and "\<And>i s. mget sm i = Some s \<Longrightarrow> ts_Id s = i"
    and "\<And>i s. mget sm i = Some s \<Longrightarrow> mget pm i = None \<Longrightarrow> ts_State s = Committed"
    and "\<And>i p. mget pm i = Some p \<Longrightarrow> \<exists>s. mget sm i = Some s \<and> entry_ok W i p s"
    and "\<And>i. i \<in> W \<Longrightarrow> \<exists>s p. mget sm i = Some s \<and> ts_State s = Committed \<and> mget pm i = Some p"
  shows "txns_ok (sm, pm, W)"
  using assms by (auto simp: txns_ok_def)

lemma txns_okD:
  assumes "txns_ok (sm, pm, W)"
  shows "gomap_wf sm" "gomap_wf pm" "compatible_locks pm"
    and "mget sm i = Some s \<Longrightarrow> ts_Id s = i"
    and "mget sm i = Some s \<Longrightarrow> mget pm i = None \<Longrightarrow> ts_State s = Committed"
    and "mget pm i = Some p \<Longrightarrow> \<exists>s. mget sm i = Some s \<and> entry_ok W i p s"
    and "i \<in> W \<Longrightarrow> \<exists>s p. mget sm i = Some s \<and> ts_State s = Committed \<and> mget pm i = Some p"
  using assms by (auto simp: txns_ok_def)

lemma txns_ok_entry:
  "txns_ok (sm, pm, W) \<Longrightarrow> mget sm i = Some s \<Longrightarrow> mget pm i = Some p \<Longrightarrow> entry_ok W i p s"
  using txns_okD(6) by fastforce

lemma entry_ok_cong: "(i \<in> W \<longleftrightarrow> i \<in> W') \<Longrightarrow> entry_ok W i p s = entry_ok W' i p s"
  by (simp add: entry_ok_def split: txn_state.splits)

text \<open>Replacing an entry keeps the locks compatible if it adds no lock, or only free ones.\<close>

lemma compatible_locks_put:
  assumes "compatible_locks pm"
    and "pr_LocksReleased p \<or> (\<exists>q. mget pm i = Some q \<and> pr_Locks q = pr_Locks p \<and> \<not> pr_LocksReleased q) \<or>
         locks_free pm (pr_Locks p)"
  shows "compatible_locks (mput i p pm)"
  unfolding compatible_locks_def
proof (intro allI impI)
  fix a b x y l k
  assume ab: "mget (mput i p pm) a = Some x" "mget (mput i p pm) b = Some y" "a \<noteq> b"
    and rel: "\<not> pr_LocksReleased x" "\<not> pr_LocksReleased y"
    and lk: "l \<in> set (pr_Locks x)" "k \<in> set (pr_Locks y)"
  have old: "CompatibleWith l' k'"
    if "mget pm c = Some u" "mget pm d = Some v" "c \<noteq> d" "\<not> pr_LocksReleased u" "\<not> pr_LocksReleased v"
      "l' \<in> set (pr_Locks u)" "k' \<in> set (pr_Locks v)" for c d u v l' k'
    using assms(1) that unfolding compatible_locks_def by blast
  have new: "CompatibleWith l' k'"
    if "mget pm d = Some v" "d \<noteq> i" "\<not> pr_LocksReleased p" "\<not> pr_LocksReleased v"
      "l' \<in> set (pr_Locks p)" "k' \<in> set (pr_Locks v)" for d v l' k'
    using assms(2)
  proof (elim disjE exE conjE)
    fix q assume "mget pm i = Some q" "pr_Locks q = pr_Locks p" "\<not> pr_LocksReleased q"
    then show ?thesis using old [of i q d v] that by simp
  next
    assume "locks_free pm (pr_Locks p)"
    then show ?thesis using that unfolding locks_free_def by blast
  qed (use that in simp)
  show "CompatibleWith l k"
  proof (cases "a = i"; cases "b = i")
    assume "a = i" "b \<noteq> i"
    then show ?thesis using ab rel lk new [of b y l k] by simp
  next
    assume "a \<noteq> i" "b = i"
    then have "CompatibleWith k l" using ab rel lk new [of a x k l] by simp
    then show ?thesis by (simp add: CompatibleWith_sym)
  qed (use ab rel lk old [of a x b y] in simp_all)
qed

lemma compatible_locks_drop:
  assumes "compatible_locks pm" "gomap_wf pm"
  shows "compatible_locks (drop_ids ids pm)"
  using assms unfolding compatible_locks_def drop_ids_def by (simp add: mget_filter_Some) blast


lemma txns_ok_update:
  assumes ok: "txns_ok (sm, pm, W)" and W: "\<And>j. j \<noteq> i \<Longrightarrow> j \<in> W' \<longleftrightarrow> j \<in> W"
    and s: "ts_Id s = i" "entry_ok W' i p s" "i \<in> W' \<Longrightarrow> ts_State s = Committed"
    and locks: "pr_LocksReleased p \<or> (\<exists>q. mget pm i = Some q \<and> pr_Locks q = pr_Locks p \<and> \<not> pr_LocksReleased q) \<or>
         locks_free pm (pr_Locks p)"
  shows "txns_ok (mput i s sm, mput i p pm, W')"
proof (rule txns_okI)
  note d = txns_okD [OF ok]
  show "gomap_wf (mput i s sm)" "gomap_wf (mput i p pm)" using d(1,2) by simp_all
  show "compatible_locks (mput i p pm)" by (rule compatible_locks_put [OF d(3) locks])
  show "ts_Id t = j" if "mget (mput i s sm) j = Some t" for j t
    using that s(1) d(4) by (auto split: if_splits)
  show "ts_State t = Committed" if "mget (mput i s sm) j = Some t" "mget (mput i p pm) j = None" for j t
    using that d(5) by (auto split: if_splits)
  show "\<exists>t. mget (mput i s sm) j = Some t \<and> entry_ok W' j q t" if "mget (mput i p pm) j = Some q" for j q
    using that s(2) d(6) [of j q] entry_ok_cong [OF W, of j] by (auto split: if_splits)
  show "\<exists>t q. mget (mput i s sm) j = Some t \<and> ts_State t = Committed \<and> mget (mput i p pm) j = Some q"
    if "j \<in> W'" for j
    using that s(3) d(7) [of j] W [of j] by (cases "j = i") auto
qed

lemma newStatus_simps [simp]:
  "ts_Id (newStatus i ts st) = i" "ts_Timestamp (newStatus i ts st) = ts" "ts_State (newStatus i ts st) = st"
  by (simp_all add: newStatus_def)

lemma released_simps [simp]:
  "pr_Txn (released p) = pr_Txn p" "pr_Timestamp (released p) = pr_Timestamp p"
  "pr_Locks (released p) = []" "pr_LocksReleased (released p)" "pr_Decision (released p) = pr_Decision p"
  by (simp_all add: released_def)

lemma new_prepared_simps [simp]:
  "pr_Txn (new_prepared t ts) = t" "pr_Timestamp (new_prepared t ts) = ts"
  "pr_Locks (new_prepared t ts) = BuildLocks t" "\<not> pr_LocksReleased (new_prepared t ts)"
  by (simp_all add: new_prepared_def)

lemma mget_drop_ids:
  assumes "gomap_wf m"
  shows "mget (drop_ids ids m) i = (if i \<in> ids then None else mget m i)"
  using mget_filter_Some [OF assms, of "\<lambda>(j, _). j \<notin> ids" i] unfolding drop_ids_def
  by (cases "mget m i"; cases "mget (filter (\<lambda>(j, _). j \<notin> ids) m) i") auto

lemma txns_ok_forget:
  assumes ok: "txns_ok (sm, pm, W)" and W: "ids \<inter> W = {}"
  shows "txns_ok (drop_ids ids sm, drop_ids ids pm, W)"
proof (rule txns_okI)
  note d = txns_okD [OF ok]
  note g = mget_drop_ids [OF d(1)] mget_drop_ids [OF d(2)]
  show "gomap_wf (drop_ids ids sm)" "gomap_wf (drop_ids ids pm)" using d(1,2) by (simp_all add: drop_ids_def)
  show "compatible_locks (drop_ids ids pm)" using compatible_locks_drop d(2,3) by blast
  show "ts_Id t = j" if "mget (drop_ids ids sm) j = Some t" for j t
    using that d(4) by (auto simp: g split: if_splits)
  show "ts_State t = Committed" if "mget (drop_ids ids sm) j = Some t" "mget (drop_ids ids pm) j = None" for j t
    using that d(5) by (auto simp: g split: if_splits)
  show "\<exists>t. mget (drop_ids ids sm) j = Some t \<and> entry_ok W j q t" if "mget (drop_ids ids pm) j = Some q" for j q
    using that d(6) [of j q] by (auto simp: g split: if_splits)
  show "\<exists>t q. mget (drop_ids ids sm) j = Some t \<and> ts_State t = Committed \<and> mget (drop_ids ids pm) j = Some q"
    if "j \<in> W" for j
    using that d(7) [of j] W by (auto simp: g)
qed

lemma mmove_ok:
  assumes "mmove x y" "txns_ok x"
  shows "txns_ok y"
  using assms
proof (induction rule: mmove.induct)
  case (Autocommit sm i pm W ts)
  note d = txns_okD [OF Autocommit(2)]
  have "mget pm i = None" using d(6) [of i] Autocommit(1) by (cases "mget pm i") auto
  then have "i \<notin> W" using d(7) [of i] by auto
  show ?case
    by (rule txns_okI) (use d Autocommit(1) \<open>mget pm i = None\<close> \<open>i \<notin> W\<close> in \<open>auto split: if_splits\<close>)
next
  case (Prepare sm t pm W ts)
  have "t_Id t \<notin> W" using txns_okD(7) [OF Prepare(3), of "t_Id t"] Prepare(1) by auto
  then show ?case
    by (intro txns_ok_update [OF Prepare(3)]) (use Prepare(2) in \<open>auto simp: entry_ok_def\<close>)
next
  case (Decide sm i s pm p d W ts)
  note e = txns_ok_entry [OF Decide(5,1,2)]
  have "i \<notin> W" using txns_okD(7) [OF Decide(5), of i] Decide(1,3) by auto
  then show ?case
    by (intro txns_ok_update [OF Decide(5)]) (use e Decide(2,3,4) in \<open>auto simp: entry_ok_def\<close>)
next
  case (Commit sm i s pm p ts W pids)
  note e = txns_ok_entry [OF Commit(4,1,2)]
  have "txns_ok (mput i ((newStatus i ts Committed)\<lparr>ts_ParticipantPids := pids\<rparr>) sm, mput i p pm, insert i W)"
    by (intro txns_ok_update [OF Commit(4)]) (use e Commit(2,3) in \<open>auto simp: entry_ok_def may_commit_def\<close>)
  then show ?case using Commit(2) by (simp add: update_triv)
next
  case (Complete i W pm p sm)
  obtain s where s: "mget sm i = Some s" "ts_State s = Committed"
    using txns_okD(7) [OF Complete(3,1)] by auto
  note e = txns_ok_entry [OF Complete(3) s(1) Complete(2)]
  have "txns_ok (mput i s sm, mput i (released p) pm, W - {i})"
    by (intro txns_ok_update [OF Complete(3)])
      (use e s txns_okD(4) [OF Complete(3) s(1)] in \<open>auto simp: entry_ok_def\<close>)
  then show ?case using s(1) by (simp add: update_triv)
next
  case (Abort sm i s pm p W ts)
  note e = txns_ok_entry [OF Abort(4,1,2)]
  have "i \<notin> W" using txns_okD(7) [OF Abort(4), of i] Abort(1,3) by auto
  then show ?case
    by (intro txns_ok_update [OF Abort(4)]) (use e in \<open>auto simp: entry_ok_def\<close>)
next
  case (Timeout sm i s pm p W ts)
  note e = txns_ok_entry [OF Timeout(4,1,2)]
  have "i \<notin> W" using txns_okD(7) [OF Timeout(4), of i] Timeout(1,3) by auto
  then have "txns_ok (mput i (newStatus i ts Timedout) sm, mput i p pm, W)"
    by (intro txns_ok_update [OF Timeout(4)]) (use e Timeout(2,3) in \<open>auto simp: entry_ok_def\<close>)
  then show ?case using Timeout(2) by (simp add: update_triv)
next
  case (Release sm i s pm p W)
  note e = txns_ok_entry [OF Release(4,1,2)]
  have "i \<notin> W" using txns_okD(7) [OF Release(4), of i] Release(1,3) by auto
  then have "txns_ok (mput i s sm, mput i (released p) pm, W)"
    by (intro txns_ok_update [OF Release(4)])
      (use e Release(3) txns_okD(4) [OF Release(4,1)] in \<open>auto simp: entry_ok_def\<close>)
  then show ?case using Release(1) by (simp add: update_triv)
qed

lemma mstep_ok:
  assumes "mstep x y" "txns_ok x"
  shows "txns_ok y"
  using assms
proof (induction rule: mstep.induct)
  case (Move x y)
  then show ?case by (rule mmove_ok)
next
  case (Forget ids sm pm W)
  then show ?case by (intro txns_ok_forget)
qed

lemma msteps_ok: "mstep\<^sup>*\<^sup>* x y \<Longrightarrow> txns_ok x \<Longrightarrow> txns_ok y"
  by (induction rule: rtranclp_induct) (auto intro: mstep_ok)

lemma mmoves_msteps: "mmove\<^sup>*\<^sup>* x y \<Longrightarrow> mstep\<^sup>*\<^sup>* x y"
  by (induction rule: rtranclp_induct) (auto intro: rtranclp.rtrancl_into_rtrancl mstep.Move)

lemma mmoves_ok: "mmove\<^sup>*\<^sup>* x y \<Longrightarrow> txns_ok x \<Longrightarrow> txns_ok y"
  using mmoves_msteps msteps_ok by blast

section \<open>Final states are final\<close>

text \<open>No move changes a status that is in a final state.\<close>

lemma mmove_final:
  assumes "mmove x y" "mget (fst x) i = Some s" "IsFinal (ts_State s)"
  shows "mget (fst y) i = Some s"
  using assms by (induction rule: mmove.induct) (auto simp: IsFinal_def may_commit_def)

lemma mmoves_final:
  "mmove\<^sup>*\<^sup>* x y \<Longrightarrow> mget (fst x) i = Some s \<Longrightarrow> IsFinal (ts_State s) \<Longrightarrow> mget (fst y) i = Some s"
  by (induction rule: rtranclp_induct) (auto intro: mmove_final)

end
