(* ===== verification/Txn_Refine.thy ===== *)
theory Txn_Refine
  imports Txn_Spec
begin

text \<open>
  The transaction manager implements the abstract machine of \<open>Txn_Spec\<close>: every command is at most
  one move, a batch is a sequence of moves followed by forgetting. The invariant of the machine
  then holds for every reachable manager, and the properties of the manager follow: isolation of
  prepared transactions, finality of outcomes, and the round trip through a snapshot.
\<close>

section \<open>What the helpers leave alone\<close>

lemma manager_upd_simps [simp]:
  "m_status (add_tracked n m) = m_status m" "m_prepared (add_tracked n m) = m_prepared m"
  "m_status (add_running n m) = m_status m" "m_prepared (add_running n m) = m_prepared m"
  "m_status (add_timedout n m) = m_status m" "m_prepared (add_timedout n m) = m_prepared m"
  "m_status (add_locks_held n m) = m_status m" "m_prepared (add_locks_held n m) = m_prepared m"
  "m_status (validation_failed m) = m_status m" "m_prepared (validation_failed m) = m_prepared m"
  "m_status (set_status i s m) = mput i s (m_status m)" "m_prepared (set_status i s m) = m_prepared m"
  "m_status (set_prepared i p m) = m_status m" "m_prepared (set_prepared i p m) = mput i p (m_prepared m)"
  "m_status (releaseLocks i m) = m_status m"
  by (simp_all add: add_tracked_def add_running_def add_timedout_def add_locks_held_def
      validation_failed_def set_status_def set_prepared_def releaseLocks_def split: option.splits)

lemma releaseLocks_prepared:
  "mget (m_prepared m) i = Some p \<Longrightarrow> m_prepared (releaseLocks i m) = mput i (released p) (m_prepared m)"
  by (simp add: releaseLocks_def released_def)

text \<open>The parts of a manager that no command changes, and its store.\<close>

definition frame :: "'db manager \<Rightarrow> 'db manager \<Rightarrow> bool" where
  "frame m m' \<longleftrightarrow> m_pid m' = m_pid m \<and> m_db m' = m_db m \<and> m_marshal m' = m_marshal m \<and>
     m_cleanAfter m' = m_cleanAfter m \<and> m_maxTimestamp m' = m_maxTimestamp m"

definition same_txns :: "'db manager \<Rightarrow> 'db manager \<Rightarrow> bool" where
  "same_txns m m' \<longleftrightarrow> m_status m' = m_status m \<and> m_prepared m' = m_prepared m \<and> frame m m'"

lemma frame_refl [simp]: "frame m m" by (simp add: frame_def)
lemma frame_trans: "frame a b \<Longrightarrow> frame b c \<Longrightarrow> frame a c" by (simp add: frame_def)
lemma same_txns_refl [simp]: "same_txns m m" by (simp add: same_txns_def)
lemma same_txns_trans: "same_txns a b \<Longrightarrow> same_txns b c \<Longrightarrow> same_txns a c"
  by (simp add: same_txns_def frame_def)

lemma frame_upd_simps [simp]:
  "frame m (add_tracked n m') = frame m m'" "frame m (add_running n m') = frame m m'"
  "frame m (add_timedout n m') = frame m m'" "frame m (add_locks_held n m') = frame m m'"
  "frame m (validation_failed m') = frame m m'" "frame m (set_status i s m') = frame m m'"
  "frame m (set_prepared i p m') = frame m m'" "frame m (releaseLocks i m') = frame m m'"
  "frame m (m'\<lparr>m_store := st\<rparr>) = frame m m'"
  by (simp_all add: frame_def add_tracked_def add_running_def add_timedout_def add_locks_held_def
      validation_failed_def set_status_def set_prepared_def releaseLocks_def split: option.splits)

lemma store_upd_simps [simp]:
  "m_store (add_tracked n m) = m_store m" "m_store (add_running n m) = m_store m"
  "m_store (add_timedout n m) = m_store m" "m_store (add_locks_held n m) = m_store m"
  "m_store (validation_failed m) = m_store m" "m_store (set_status i s m) = m_store m"
  "m_store (set_prepared i p m) = m_store m" "m_store (releaseLocks i m) = m_store m"
  by (simp_all add: add_tracked_def add_running_def add_timedout_def add_locks_held_def
      validation_failed_def set_status_def set_prepared_def releaseLocks_def split: option.splits)

section \<open>Checks\<close>

lemma checkLock_prepared_iff:
  "checkLock_prepared l ps \<longleftrightarrow>
     (\<forall>p \<in> set ps. \<not> pr_LocksReleased p \<longrightarrow> (\<forall>k \<in> set (pr_Locks p). CompatibleWith l k))"
  by (induction ps) (auto simp: list_ex_iff)

lemma checkLocks_same: "checkLocks i ts ls m = (r, m') \<Longrightarrow> same_txns m m' \<and> m_store m' = m_store m"
  by (induction ls) (auto simp: same_txns_def frame_def split: if_splits)

lemma checkLocks_free:
  assumes "checkLocks i ts ls m = (None, m')"
  shows "locks_free (m_prepared m) ls"
proof -
  have "\<forall>l \<in> set ls. checkLock m l"
    using assms by (induction ls) (auto split: if_splits)
  then show ?thesis
    by (fastforce simp: locks_free_def checkLock_def checkLock_prepared_iff dest: map_of_SomeD)
qed

lemma checkLocks_failed:
  assumes "checkLocks i ts ls m = (Some s, m')"
  shows "\<exists>a. s = newFailedStatus i ts a LockFailed"
  using assms by (induction ls) (auto split: if_splits)

lemma db_Exists_same: "db_Exists ts a m = Some (b, m') \<Longrightarrow> same_txns m m'"
  by (auto simp: db_Exists_def same_txns_def split: bind_splits)

lemma db_ExistsInRange_same: "db_ExistsInRange ts s e m = Some (b, m') \<Longrightarrow> same_txns m m'"
  by (auto simp: db_ExistsInRange_def same_txns_def split: bind_splits)

lemma validate_action_same: "validate_action ts a m = Some (r, m') \<Longrightarrow> same_txns m m'"
  by (auto simp: validate_action_def dest: db_Exists_same db_ExistsInRange_same
      split: action_payload.splits bind_splits if_splits)

lemma validate_same: "validate_loop i ts as m = Some (r, m') \<Longrightarrow> same_txns m m'"
proof (induction as arbitrary: m)
  case (Cons a as)
  then obtain c m1 where v: "validate_action ts a m = Some (c, m1)"
    by (auto split: bind_splits)
  have s: "same_txns m m1" by (rule validate_action_same [OF v])
  show ?case
  proof (cases c)
    case None
    then have "same_txns m1 m'" using Cons v by simp
    with s show ?thesis by (rule same_txns_trans)
  next
    case (Some x)
    then show ?thesis using Cons.prems v s by (auto simp: same_txns_def)
  qed
qed simp

section \<open>Commands\<close>

text \<open>Applying a command is no move of the abstract machine, or one.\<close>

definition mmove01 :: "status_map \<times> prepared_map \<times> txn_id set \<Rightarrow> status_map \<times> prepared_map \<times> txn_id set \<Rightarrow> bool" where
  "mmove01 x y \<longleftrightarrow> y = x \<or> mmove x y"

lemma mmove01_refl [simp]: "mmove01 x x" by (simp add: mmove01_def)
lemma mmove01I: "mmove x y \<Longrightarrow> mmove01 x y" by (simp add: mmove01_def)
lemma mmove01_mmoves: "mmove01 x y \<Longrightarrow> mmove\<^sup>*\<^sup>* x y" by (auto simp: mmove01_def)

abbreviation txns :: "'db manager \<Rightarrow> txn_id set \<Rightarrow> status_map \<times> prepared_map \<times> txn_id set" where
  "txns m W \<equiv> (m_status m, m_prepared m, W)"

lemma applyAbort_refines:
  assumes "applyAbort c m = (r, m')"
  shows "mmove01 (txns m W) (txns m' W) \<and> frame m m' \<and> m_store m' = m_store m"
  using assms
  by (auto simp: applyAbort_def Let_def releaseLocks_prepared split: option.splits txn_state.splits)
    (auto intro!: mmove01I mmove.Abort)

lemma applyMarkTimedout_refines:
  assumes "applyMarkTimedout c m = (r, m')"
  shows "mmove01 (txns m W) (txns m' W) \<and> frame m m' \<and> m_store m' = m_store m"
  using assms
  by (auto simp: applyMarkTimedout_def Let_def releaseLocks_prepared
      split: option.splits txn_state.splits if_splits)
    (auto intro!: mmove01I mmove.Timeout mmove.Release)

lemma applyStoreDecision_refines:
  assumes "applyStoreDecision c m = Some (r, m')"
  shows "mmove01 (txns m W) (txns m' W) \<and> frame m m' \<and> m_store m' = m_store m"
  using assms
  by (auto simp: applyStoreDecision_def Let_def
      split: option.splits txn_state.splits if_splits bind_splits)
    (auto intro!: mmove01I mmove.Decide)

definition released_by :: "completion list \<Rightarrow> txn_id set" where
  "released_by cs = {i. Completion_Release i \<in> set cs}"

lemma may_commit_Prepared: "ts_State s = Prepared \<Longrightarrow> \<not> ts < ts_Timestamp s \<Longrightarrow> may_commit s p ts"
  by (simp add: may_commit_def)

lemma may_commit_Decided:
  "ts_State s = Decided \<Longrightarrow> pr_Decision p = Some d \<Longrightarrow> may_commit s p (d_CommitTimestamp d)"
  by (simp add: may_commit_def)

lemma applyCommit_refines:
  assumes "applyCommit c m = Some (r, m')"
  shows "mmove01 (txns m W) (txns m' (W \<union> released_by (res_completion r))) \<and> frame m m' \<and>
    m_store m' = m_store m"
proof -
  have ins: "W \<union> {i. i = x} = insert x W" for x by auto
  show ?thesis
    using assms
    by (auto simp: applyCommit_def commit_prepared_def Let_def released_by_def res_completion_def ins
        split: option.splits txn_state.splits if_splits bind_splits)
      (auto intro!: mmove01I mmove.Commit intro: may_commit_Prepared may_commit_Decided)
qed

lemma applyAutocommit_refines:
  assumes "applyAutocommit c m = Some (r, m')"
  shows "mmove01 (txns m W) (txns m' W) \<and> frame m m' \<and> released_by (res_completion r) = {}"
proof (cases "mget (m_status m) (t_Id (ac_Txn c))")
  case (Some s)
  then show ?thesis
    using assms by (auto simp: applyAutocommit_def Let_def released_by_def res_completion_def
        split: txn_state.splits)
next
  case None
  obtain cl m1 where cl: "checkLocks (t_Id (ac_Txn c)) (ac_Timestamp c) (BuildLocks (ac_Txn c)) m = (cl, m1)"
    by fastforce
  have s1: "same_txns m m1" using checkLocks_same [OF cl] by simp
  show ?thesis
  proof (cases cl)
    case (Some s)
    then show ?thesis using assms None cl s1
      by (auto simp: applyAutocommit_def Let_def released_by_def res_completion_def same_txns_def)
  next
    case cn: None
    then obtain v m2 where v: "validate_loop (t_Id (ac_Txn c)) (ac_Timestamp c) (t_Actions (ac_Txn c)) m1 = Some (v, m2)"
      using assms None cl by (auto simp: applyAutocommit_def Let_def validate_def split: bind_splits)
    have s2: "same_txns m m2" using s1 validate_same [OF v] by (rule same_txns_trans)
    show ?thesis
      using assms None cl cn v s2
      by (auto simp: applyAutocommit_def Let_def validate_def released_by_def res_completion_def
          same_txns_def split: option.splits bind_splits)
        (auto intro!: mmove01I mmove.Autocommit)
  qed
qed

lemma applyPrepare_refines:
  assumes "applyPrepare c m = Some (r, m')"
  shows "mmove01 (txns m W) (txns m' W) \<and> frame m m'"
proof (cases "mget (m_status m) (t_Id (pp_Txn c))")
  case (Some s)
  then show ?thesis
    using assms by (auto simp: applyPrepare_def Let_def split: txn_state.splits)
next
  case None
  obtain cl m1 where cl: "checkLocks (t_Id (pp_Txn c)) (pp_Timestamp c) (BuildLocks (pp_Txn c)) m = (cl, m1)"
    by fastforce
  have s1: "same_txns m m1" using checkLocks_same [OF cl] by simp
  show ?thesis
  proof (cases cl)
    case (Some s)
    then show ?thesis using assms None cl s1 by (auto simp: applyPrepare_def Let_def same_txns_def)
  next
    case cn: None
    then obtain v m2 where v: "validate_loop (t_Id (pp_Txn c)) (pp_Timestamp c) (t_Actions (pp_Txn c)) m1 = Some (v, m2)"
      using assms None cl by (auto simp: applyPrepare_def Let_def validate_def split: bind_splits)
    have s2: "same_txns m m2" using s1 validate_same [OF v] by (rule same_txns_trans)
    have free: "locks_free (m_prepared m) (BuildLocks (pp_Txn c))" using checkLocks_free cl cn by simp
    show ?thesis
      using assms None cl cn v s2 mmove.Prepare [OF None free, of W "pp_Timestamp c"]
      by (auto simp: applyPrepare_def Let_def validate_def same_txns_def new_prepared_def
          split: option.splits bind_splits)
        (auto intro!: mmove01I)
  qed
qed

section \<open>Batches\<close>

lemma each_refines:
  assumes "each f cs m = Some (rs, m')"
    and "\<And>c m r m'. f c m = Some (r, m') \<Longrightarrow> mmove01 (txns m W) (txns m' W) \<and> frame m m'"
  shows "mmove\<^sup>*\<^sup>* (txns m W) (txns m' W) \<and> frame m m'"
  using assms(1)
proof (induction cs arbitrary: m rs)
  case (Cons c cs)
  then obtain r m1 rs' where c: "f c m = Some (r, m1)" "each f cs m1 = Some (rs', m')"
    by (auto split: bind_splits)
  show ?case
    using assms(2) [OF c(1)] Cons.IH [OF c(2)]
    by (auto dest!: mmove01_mmoves intro: rtranclp_trans frame_trans)
qed simp

lemma each_commits_refine:
  assumes "each applyCommit cs m = Some (rs, m')"
  shows "mmove\<^sup>*\<^sup>* (txns m W) (txns m' (W \<union> released_by (concat (map res_completion rs)))) \<and> frame m m'"
  using assms
proof (induction cs arbitrary: m rs W)
  case Nil
  then show ?case by (simp add: released_by_def)
next
  case (Cons c cs)
  then obtain r m1 rs' where c: "applyCommit c m = Some (r, m1)" "each applyCommit cs m1 = Some (rs', m')"
    and rs: "rs = r # rs'"
    by (auto split: bind_splits)
  let ?W = "W \<union> released_by (res_completion r)"
  have "?W \<union> released_by (concat (map res_completion rs')) = W \<union> released_by (concat (map res_completion rs))"
    by (auto simp: rs released_by_def)
  then show ?case
    using applyCommit_refines [OF c(1), of W] Cons.IH [OF c(2), of ?W]
    by (auto dest!: mmove01_mmoves intro: rtranclp_trans frame_trans)
qed

lemma released_idem: "pr_LocksReleased p \<Longrightarrow> pr_Locks p = [] \<Longrightarrow> released p = p"
  by (simp add: released_def)

definition releasable :: "prepared_map \<Rightarrow> txn_id set \<Rightarrow> txn_id \<Rightarrow> bool" where
  "releasable pm W i \<longleftrightarrow> (\<exists>p. mget pm i = Some p \<and> (i \<in> W \<or> released p = p))"

lemma run_completion_refines:
  assumes "\<And>i. c = Completion_Release i \<Longrightarrow> releasable (m_prepared m) W i"
  shows "mmove01 (txns m W) (txns (run_completion c m) (W - released_by [c])) \<and> frame m (run_completion c m) \<and>
    m_store (run_completion c m) = m_store m"
proof (cases c)
  case (Completion_Release i)
  then obtain p where p: "mget (m_prepared m) i = Some p" "i \<in> W \<or> released p = p"
    using assms by (auto simp: releasable_def)
  have rb: "released_by [c] = {i}" by (auto simp: Completion_Release released_by_def)
  show ?thesis
  proof (cases "i \<in> W")
    case True
    then show ?thesis
      using p(1) by (simp add: run_completion_def Completion_Release releaseLocks_prepared rb [unfolded Completion_Release]
          mmove01I [OF mmove.Complete])
  next
    case False
    then have "released p = p" "W - {i} = W" using p(2) by auto
    then show ?thesis
      using p(1) by (simp add: run_completion_def Completion_Release releaseLocks_prepared
          rb [unfolded Completion_Release] update_triv)
  qed
qed (simp add: run_completion_def released_by_def)

lemma run_completion_releasable:
  assumes "releasable (m_prepared m) W i"
  shows "releasable (m_prepared (run_completion c m)) (W - released_by [c]) i"
proof (cases c)
  case (Completion_Release j)
  have rb: "released_by [c] = {j}" by (auto simp: Completion_Release released_by_def)
  show ?thesis
    using assms unfolding rb
    by (cases "mget (m_prepared m) j")
      (auto simp: releasable_def run_completion_def Completion_Release releaseLocks_prepared
        released_idem releaseLocks_def)
qed (use assms in \<open>simp add: run_completion_def released_by_def\<close>)

lemma fold_completions_refine:
  assumes "\<And>i. i \<in> released_by cs \<Longrightarrow> releasable (m_prepared m) W i"
  shows "mmove\<^sup>*\<^sup>* (txns m W) (txns (fold run_completion cs m) (W - released_by cs)) \<and>
    frame m (fold run_completion cs m) \<and> m_store (fold run_completion cs m) = m_store m"
  using assms
proof (induction cs arbitrary: m W)
  case (Cons c cs)
  have c: "mmove01 (txns m W) (txns (run_completion c m) (W - released_by [c])) \<and> frame m (run_completion c m) \<and>
    m_store (run_completion c m) = m_store m"
    by (rule run_completion_refines) (use Cons.prems in \<open>auto simp: released_by_def\<close>)
  have rel: "releasable (m_prepared (run_completion c m)) (W - released_by [c]) i" if "i \<in> released_by cs" for i
    by (rule run_completion_releasable) (use Cons.prems that in \<open>auto simp: released_by_def\<close>)
  have W: "W - released_by [c] - released_by cs = W - released_by (c # cs)"
    by (auto simp: released_by_def)
  show ?case
    using c Cons.IH [OF rel, unfolded W]
    by (auto dest!: mmove01_mmoves intro: rtranclp_trans frame_trans)
qed (simp add: released_by_def)

lemma cleanup_refines:
  assumes "gomap_wf (m_status m)"
  shows "mstep (txns m {}) (txns (cleanup now m) {}) \<and> frame m (cleanup now m) \<and> m_store (cleanup now m) = m_store m"
proof -
  define ids where "ids = fst ` set (filter (\<lambda>(i, status).
            \<not> (ts_Timestamp status > FromTime (time_Unix (fst now) (snd now - m_cleanAfter m)) \<or> \<not> IsFinal (ts_State status)) \<and>
            \<not> (case mget (m_prepared m) i of Some x \<Rightarrow> \<not> pr_LocksReleased x | None \<Rightarrow> False)) (m_status m))"
  have c: "m_status (cleanup now m) = drop_ids ids (m_status m)" "m_prepared (cleanup now m) = drop_ids ids (m_prepared m)"
    "m_store (cleanup now m) = m_store m" "frame m (cleanup now m)"
    by (simp_all add: cleanup_def Let_def ids_def drop_ids_def frame_def add_tracked_def)
  have "forgettable (m_status m) (m_prepared m) i" if "i \<in> ids" for i
    using that gomap_mem_iff [OF assms] by (auto simp: ids_def forgettable_def split: option.splits)
  then show ?thesis unfolding c(1,2) using c(3,4) mstep.Forget by simp
qed

lemma db_Put_same: "db_Put index ws m = Some m' \<Longrightarrow> same_txns m m'"
  by (auto simp: db_Put_def same_txns_def split: bind_splits)

text \<open>The stages of \<^verbatim>\<open>ApplyBatch\<close>.\<close>

lemma ApplyBatch_stages:
  assumes "ApplyBatch now index b m = Some (res, m')"
  obtains ra m1 rt m2 rc m3 ru m4 rp m5 rd m6 m7 where
    "each (\<lambda>c m. Some (applyAbort c m)) (b_Abort b) m = Some (ra, m1)"
    "each (\<lambda>c m. Some (applyMarkTimedout c m)) (b_MarkTimedout b) m1 = Some (rt, m2)"
    "each applyCommit (b_Commit b) m2 = Some (rc, m3)"
    "each applyAutocommit (b_Autocommit b) m3 = Some (ru, m4)"
    "each applyPrepare (b_Prepare b) m4 = Some (rp, m5)"
    "each applyStoreDecision (b_StoreDecision b) m5 = Some (rd, m6)"
    "db_Put index (concat (map res_writes rc) @ concat (map res_writes ru)) m6 = Some m7"
    "m' = cleanup now ((fold run_completion (concat (map res_completion rc) @ concat (map res_completion ru)) m7)
            \<lparr>m_maxTimestamp := b_MaxTimestamp b\<rparr>)"
    "res = \<lparr>br_Autocommit = map res_status ru, br_Prepare = rp, br_Commit = map res_status rc,
            br_Abort = ra, br_StoreDecision = rd, br_MarkTimedout = rt\<rparr>"
  using assms unfolding ApplyBatch_def Let_def by (auto split: bind_splits)

lemma each_autocommits_no_release:
  "each applyAutocommit cs m = Some (rs, m') \<Longrightarrow> released_by (concat (map res_completion rs)) = {}"
proof (induction cs arbitrary: m rs)
  case (Cons c cs)
  then obtain r m1 rs' where c: "applyAutocommit c m = Some (r, m1)" "each applyAutocommit cs m1 = Some (rs', m')"
    and rs: "rs = r # rs'"
    by (auto split: bind_splits)
  show ?case
    using applyAutocommit_refines [OF c(1)] Cons.IH [OF c(2)] by (auto simp: rs released_by_def)
qed (simp add: released_by_def)

lemma ApplyBatch_moves:
  assumes ok: "txns_ok (txns m {})" and ap: "ApplyBatch now index b m = Some (res, m')"
  obtains m9 where "mmove\<^sup>*\<^sup>* (txns m {}) (txns m9 {})" "m' = cleanup now m9" "txns_ok (txns m9 {})"
    "frame (m\<lparr>m_maxTimestamp := b_MaxTimestamp b\<rparr>) m9"
proof -
  obtain ra m1 rt m2 rc m3 ru m4 rp m5 rd m6 m7 where st:
    "each (\<lambda>c m. Some (applyAbort c m)) (b_Abort b) m = Some (ra, m1)"
    "each (\<lambda>c m. Some (applyMarkTimedout c m)) (b_MarkTimedout b) m1 = Some (rt, m2)"
    "each applyCommit (b_Commit b) m2 = Some (rc, m3)"
    "each applyAutocommit (b_Autocommit b) m3 = Some (ru, m4)"
    "each applyPrepare (b_Prepare b) m4 = Some (rp, m5)"
    "each applyStoreDecision (b_StoreDecision b) m5 = Some (rd, m6)"
    "db_Put index (concat (map res_writes rc) @ concat (map res_writes ru)) m6 = Some m7"
    "m' = cleanup now ((fold run_completion (concat (map res_completion rc) @ concat (map res_completion ru)) m7)
            \<lparr>m_maxTimestamp := b_MaxTimestamp b\<rparr>)"
    by (rule ApplyBatch_stages [OF ap]) blast
  let ?cs = "concat (map res_completion rc) @ concat (map res_completion ru)"
  define W where "W = released_by (concat (map res_completion rc))"
  have cs: "released_by ?cs = W"
    using each_autocommits_no_release [OF st(4)] by (auto simp: W_def released_by_def)
  have s1: "mmove\<^sup>*\<^sup>* (txns m {}) (txns m1 {}) \<and> frame m m1"
    by (rule each_refines [OF st(1)]) (use applyAbort_refines in fastforce)
  have s2: "mmove\<^sup>*\<^sup>* (txns m1 {}) (txns m2 {}) \<and> frame m1 m2"
    by (rule each_refines [OF st(2)]) (use applyMarkTimedout_refines in fastforce)
  have s3: "mmove\<^sup>*\<^sup>* (txns m2 {}) (txns m3 W) \<and> frame m2 m3"
    using each_commits_refine [OF st(3), of "{}"] by (simp add: W_def)
  have s4: "mmove\<^sup>*\<^sup>* (txns m3 W) (txns m4 W) \<and> frame m3 m4"
    by (rule each_refines [OF st(4)]) (use applyAutocommit_refines in fastforce)
  have s5: "mmove\<^sup>*\<^sup>* (txns m4 W) (txns m5 W) \<and> frame m4 m5"
    by (rule each_refines [OF st(5)]) (use applyPrepare_refines in fastforce)
  have s6: "mmove\<^sup>*\<^sup>* (txns m5 W) (txns m6 W) \<and> frame m5 m6"
    by (rule each_refines [OF st(6)]) (use applyStoreDecision_refines in fastforce)
  have s7: "txns m7 W = txns m6 W" "frame m6 m7" using db_Put_same [OF st(7)] by (simp_all add: same_txns_def)
  have upto7: "mmove\<^sup>*\<^sup>* (txns m {}) (txns m7 W)"
    using s1 s2 s3 s4 s5 s6 s7(1) by (auto intro: rtranclp_trans)
  then have ok7: "txns_ok (txns m7 W)" using ok by (rule mmoves_ok)
  have rel: "releasable (m_prepared m7) W i" if "i \<in> released_by ?cs" for i
    using that txns_okD(7) [OF ok7, of i] unfolding cs by (auto simp: releasable_def)
  let ?m8 = "fold run_completion ?cs m7" and ?m9 = "(fold run_completion ?cs m7)\<lparr>m_maxTimestamp := b_MaxTimestamp b\<rparr>"
  have s8: "mmove\<^sup>*\<^sup>* (txns m7 W) (txns ?m8 {}) \<and> frame m7 ?m8"
    using fold_completions_refine [of ?cs m7 W, OF rel] unfolding cs Diff_cancel by blast
  then have ok8: "txns_ok (txns ?m8 {})" using ok7 mmoves_ok by blast
  show thesis
  proof (rule that)
    show "mmove\<^sup>*\<^sup>* (txns m {}) (txns ?m9 {})" using upto7 s8 by (auto intro: rtranclp_trans)
    show "m' = cleanup now ?m9" by (rule st(8))
    show "txns_ok (txns ?m9 {})" using ok8 by simp
    show "frame (m\<lparr>m_maxTimestamp := b_MaxTimestamp b\<rparr>) ?m9"
      using s1 s2 s3 s4 s5 s6 s7(2) s8 by (auto simp: frame_def)
  qed
qed

lemma ApplyBatch_msteps:
  assumes "txns_ok (txns m {})" "ApplyBatch now index b m = Some (res, m')"
  shows "mstep\<^sup>*\<^sup>* (txns m {}) (txns m' {})"
    and "frame (m\<lparr>m_maxTimestamp := b_MaxTimestamp b\<rparr>) m'"
proof -
  obtain m9 where m9: "mmove\<^sup>*\<^sup>* (txns m {}) (txns m9 {})" "m' = cleanup now m9" "txns_ok (txns m9 {})"
    "frame (m\<lparr>m_maxTimestamp := b_MaxTimestamp b\<rparr>) m9"
    by (rule ApplyBatch_moves [OF assms])
  note c = cleanup_refines [OF txns_okD(1) [OF m9(3)], of now]
  show "mstep\<^sup>*\<^sup>* (txns m {}) (txns m' {})"
    using mmoves_msteps [OF m9(1)] c by (auto simp: m9(2) intro: rtranclp.rtrancl_into_rtrancl)
  show "frame (m\<lparr>m_maxTimestamp := b_MaxTimestamp b\<rparr>) m'" using m9(4) c by (auto simp: m9(2) frame_def)
qed

section \<open>Reachable managers\<close>

text \<open>
  A manager starts empty, applies batches, and can be replaced by one that was restored from the
  snapshot of a reachable manager, on the same or on another replica.
\<close>

inductive reachable :: "'db manager \<Rightarrow> bool" where
  New: "reachable (NewManager pid ops maxAttempts store marshal cleanAfter)"
| Batch: "reachable m \<Longrightarrow> ApplyBatch now index b m = Some (res, m') \<Longrightarrow> reachable m'"
| Restored: "reachable m \<Longrightarrow> reachable m0 \<Longrightarrow> reachable (Restore (Snapshot m) m0)"

lemma fold_mput:
  assumes "distinct (map fst al)" "fst ` set al \<inter> fst ` set acc = {}" "\<And>i v. (i, v) \<in> set al \<Longrightarrow> key v = i \<and> val v = v"
  shows "fold (\<lambda>v. mput (key v) (val v)) (map snd al) acc = acc @ al"
  using assms
proof (induction al arbitrary: acc)
  case (Cons x al)
  obtain i v where x: "x = (i, v)" by (cases x)
  have kv: "key v = i" "val v = v" using Cons.prems(3) [of i v] by (simp_all add: x)
  have "i \<notin> fst ` set acc" using Cons.prems(2) by (auto simp: x)
  then have "mput i v acc = acc @ [(i, v)]" by (induction acc) auto
  moreover have "fold (\<lambda>v. mput (key v) (val v)) (map snd al) (acc @ [(i, v)]) = (acc @ [(i, v)]) @ al"
    using Cons.prems by (intro Cons.IH) (auto simp: x)
  ultimately show ?case by (simp add: x kv)
qed simp

lemma Restore_Snapshot:
  assumes "txns_ok (txns m {})"
  shows "m_status (Restore (Snapshot m) m0) = m_status m"
    and "m_prepared (Restore (Snapshot m) m0) = m_prepared m"
    and "m_maxTimestamp (Restore (Snapshot m) m0) = m_maxTimestamp m"
proof -
  note d = txns_okD [OF assms]
  have mem: "ts_Id s = i \<and> s = s" if "(i, s) \<in> set (m_status m)" for i s
    using that d(4) [of i s] gomap_mem_iff [OF d(1), of i s] by simp
  have "fold (\<lambda>s. mput (ts_Id s) s) (map snd (m_status m)) [] = [] @ m_status m"
    by (rule fold_mput [OF _ _ mem]) (use d(1) in \<open>simp_all add: gomap_wf_def\<close>)
  then show "m_status (Restore (Snapshot m) m0) = m_status m"
    by (simp add: Restore_def Snapshot_def Let_def)
  let ?f = "\<lambda>p. p\<lparr>pr_Locks := []\<rparr>"
  have e: "t_Id (pr_Txn p) = i \<and> restore_prepared (?f p) = p" if "(i, p) \<in> set (m_prepared m)" for i p
    using d(6) [of i p] that gomap_mem_iff [OF d(2), of i p]
    by (auto simp: entry_ok_def restore_prepared_def split: if_splits)
  have "fold (\<lambda>x. mput (t_Id (pr_Txn x)) (restore_prepared x)) (map (\<lambda>(_, p). ?f p) (m_prepared m)) [] =
      fold (\<lambda>p. mput (t_Id (pr_Txn p)) (restore_prepared (?f p))) (map snd (m_prepared m)) []"
    by (simp add: fold_map comp_def split_beta)
  also have "\<dots> = [] @ m_prepared m"
    by (rule fold_mput [OF _ _ e]) (use d(2) in \<open>simp_all add: gomap_wf_def\<close>)
  finally show "m_prepared (Restore (Snapshot m) m0) = m_prepared m"
    by (simp add: Restore_def Snapshot_def Let_def)
  show "m_maxTimestamp (Restore (Snapshot m) m0) = m_maxTimestamp m"
    by (simp add: Restore_def Snapshot_def Let_def add_tracked_def add_running_def add_locks_held_def)
qed

lemma mget_cleanup:
  assumes "gomap_wf (m_status m)"
  shows "mget (m_status (cleanup now m)) i = (case mget (m_status m) i of
       None \<Rightarrow> None
     | Some s \<Rightarrow> if ts_Timestamp s \<le> FromTime (time_Unix (fst now) (snd now - m_cleanAfter m)) \<and> IsFinal (ts_State s) \<and>
         \<not> (case mget (m_prepared m) i of Some x \<Rightarrow> \<not> pr_LocksReleased x | None \<Rightarrow> False)
       then None else Some s)"
proof -
  let ?P = "\<lambda>(i, status).
            \<not> (ts_Timestamp status > FromTime (time_Unix (fst now) (snd now - m_cleanAfter m)) \<or> \<not> IsFinal (ts_State status)) \<and>
            \<not> (case mget (m_prepared m) i of Some x \<Rightarrow> \<not> pr_LocksReleased x | None \<Rightarrow> False)"
  have c: "m_status (cleanup now m) = drop_ids (fst ` set (filter ?P (m_status m))) (m_status m)"
    by (simp add: cleanup_def Let_def drop_ids_def add_tracked_def)
  have ids: "i \<in> fst ` set (filter ?P (m_status m)) \<longleftrightarrow> (\<exists>s. mget (m_status m) i = Some s \<and> ?P (i, s))"
    using gomap_mem_iff [OF assms] by force
  show ?thesis
    unfolding c mget_drop_ids [OF assms] ids by (cases "mget (m_status m) i") (auto simp: not_less)
qed

lemma reachable_ok: "reachable m \<Longrightarrow> txns_ok (txns m {})"
proof (induction rule: reachable.induct)
  case (New pid ops maxAttempts store marshal cleanAfter)
  show ?case by (simp add: txns_ok_def NewManager_def compatible_locks_def)
next
  case (Batch m now index b res m')
  then show ?case using ApplyBatch_msteps(1) msteps_ok by blast
next
  case (Restored m m0)
  then show ?case by (simp add: Restore_Snapshot [OF Restored.IH(1)])
qed

section \<open>A small run\<close>

text \<open>
  A concrete run for the witnesses: a partition in memory, a first batch that prepares two
  transactions, a second one that aborts the first of them, and a third one without commands.
\<close>

definition demo_id :: "u64 \<Rightarrow> txn_id" where
  "demo_id n = \<lparr>PrincipalPid = 0, ServerId = 1, IdTimestamp = n\<rparr>"

definition demo_txn :: "u64 \<Rightarrow> u8 \<Rightarrow> txn" where
  "demo_txn n k = \<lparr>t_Id = demo_id n, t_Actions = [\<lparr>a_Id = 0, a_Payload = Action_Upsert 16 [k] [7]\<rparr>],
                  t_ParticipantPids = [0]\<rparr>"

definition demo_marshal :: "go_value \<Rightarrow> bytes option" where
  "demo_marshal v = (case v of Value_Bytes b \<Rightarrow> Some b | Value_Unknown \<Rightarrow> None)"

definition demo_new :: "inmem manager" where
  "demo_new = NewManager 0 (Emulated_ops inmem_ops) 3 [(0, \<lparr>p_index = 0, p_records = []\<rparr>)] demo_marshal 1000"

definition empty_batch :: "u64 \<Rightarrow> txn_batch" where
  "empty_batch ts = \<lparr>b_Autocommit = [], b_Prepare = [], b_Commit = [], b_Abort = [], b_StoreDecision = [],
                     b_MarkTimedout = [], b_MaxTimestamp = ts\<rparr>"

definition demo_batch1 :: txn_batch where
  "demo_batch1 = (empty_batch 12)\<lparr>b_Prepare := [\<lparr>pp_Txn = demo_txn 1 1, pp_Timestamp = 11\<rparr>,
                                               \<lparr>pp_Txn = demo_txn 2 2, pp_Timestamp = 12\<rparr>]\<rparr>"

definition demo_batch2 :: txn_batch where
  "demo_batch2 = (empty_batch 13)\<lparr>b_Abort := [\<lparr>ab_Id = demo_id 1, ab_Timestamp = 13\<rparr>]\<rparr>"

definition demo_m1 :: "inmem manager" where
  "demo_m1 = snd (the (ApplyBatch (0, 1000) 1 demo_batch1 demo_new))"

definition demo_m2 :: "inmem manager" where
  "demo_m2 = snd (the (ApplyBatch (0, 1000) 2 demo_batch2 demo_m1))"

definition demo_m3 :: "inmem manager" where
  "demo_m3 = snd (the (ApplyBatch (0, 1000) 3 (empty_batch 14) demo_m2))"

lemma the_Some: "x \<noteq> None \<Longrightarrow> x = Some (fst (the x), snd (the x))"
  by auto

lemma demo_run:
  "ApplyBatch (0, 1000) 1 demo_batch1 demo_new = Some (fst (the (ApplyBatch (0, 1000) 1 demo_batch1 demo_new)), demo_m1)"
  "ApplyBatch (0, 1000) 2 demo_batch2 demo_m1 = Some (fst (the (ApplyBatch (0, 1000) 2 demo_batch2 demo_m1)), demo_m2)"
  "ApplyBatch (0, 1000) 3 (empty_batch 14) demo_m2 = Some (fst (the (ApplyBatch (0, 1000) 3 (empty_batch 14) demo_m2)), demo_m3)"
proof -
  have "ApplyBatch (0, 1000) 1 demo_batch1 demo_new \<noteq> None" by code_simp
  then show "ApplyBatch (0, 1000) 1 demo_batch1 demo_new = Some (fst (the (ApplyBatch (0, 1000) 1 demo_batch1 demo_new)), demo_m1)"
    unfolding demo_m1_def by (rule the_Some)
  have "ApplyBatch (0, 1000) 2 demo_batch2 demo_m1 \<noteq> None" by code_simp
  then show "ApplyBatch (0, 1000) 2 demo_batch2 demo_m1 = Some (fst (the (ApplyBatch (0, 1000) 2 demo_batch2 demo_m1)), demo_m2)"
    unfolding demo_m2_def by (rule the_Some)
  have "ApplyBatch (0, 1000) 3 (empty_batch 14) demo_m2 \<noteq> None" by code_simp
  then show "ApplyBatch (0, 1000) 3 (empty_batch 14) demo_m2 = Some (fst (the (ApplyBatch (0, 1000) 3 (empty_batch 14) demo_m2)), demo_m3)"
    unfolding demo_m3_def by (rule the_Some)
qed

lemma demo_reachable: "reachable demo_new" "reachable demo_m1" "reachable demo_m2"
proof -
  show new: "reachable demo_new" unfolding demo_new_def by (rule reachable.New)
  show m1: "reachable demo_m1" by (rule reachable.Batch [OF new demo_run(1)])
  show "reachable demo_m2" by (rule reachable.Batch [OF m1 demo_run(2)])
qed

section \<open>Properties\<close>

text \<open>
  C3: applying a batch refines the abstract transaction machine. From a reachable manager the
  statuses and prepared transactions after \<^verbatim>\<open>ApplyBatch\<close> are reached by a sequence of abstract
  moves (begin, decide, commit, complete, abort, time out, release, forget), with no completion left
  pending; the partition, the store interface and the configuration are unchanged and the maximum
  timestamp is the one of the batch.
\<close>

theorem ApplyBatch_refines_machine:
  assumes "reachable m" "ApplyBatch now index b m = Some (res, m')"
  shows "mstep\<^sup>*\<^sup>* (m_status m, m_prepared m, {}) (m_status m', m_prepared m', {}) \<and>
    m_pid m' = m_pid m \<and> m_db m' = m_db m \<and> m_cleanAfter m' = m_cleanAfter m \<and>
    m_maxTimestamp m' = b_MaxTimestamp b"
  using ApplyBatch_msteps [OF reachable_ok [OF assms(1)] assms(2)] by (simp add: frame_def)

theorem ApplyBatch_refines_machine_witness:
  "mstep\<^sup>*\<^sup>* (m_status demo_new, m_prepared demo_new, {}) (m_status demo_m1, m_prepared demo_m1, {}) \<and>
    m_status demo_m1 \<noteq> [] \<and> m_maxTimestamp demo_m1 = 12"
proof -
  have "m_status demo_m1 \<noteq> []" "b_MaxTimestamp demo_batch1 = 12" by code_simp+
  with ApplyBatch_refines_machine [OF demo_reachable(1) demo_run(1)] show ?thesis by simp
qed

text \<open>
  C6: prepared transactions are isolated. In a reachable manager two prepared transactions that still
  hold their locks hold exactly the locks their actions ask for, and every lock of the one is
  compatible with every lock of the other: no two of these locks, of whatever kind, share a key with
  one of them exclusive. So if one writes a key, the other neither reads, writes nor checks that key,
  alone or inside a range.
\<close>

theorem prepared_transactions_isolated:
  assumes "reachable m" "i \<noteq> j"
    and "mget (m_prepared m) i = Some p" "\<not> pr_LocksReleased p"
    and "mget (m_prepared m) j = Some q" "\<not> pr_LocksReleased q"
  shows "pr_Locks p = BuildLocks (pr_Txn p) \<and> pr_Locks q = BuildLocks (pr_Txn q) \<and>
    (\<forall>x \<in> set (pr_Locks p). \<forall>y \<in> set (pr_Locks q). CompatibleWith x y \<and> \<not> locks_conflict x y) \<and>
    (\<forall>a \<in> set (t_Actions (pr_Txn p)). \<forall>c \<in> set (t_Actions (pr_Txn q)). \<forall>ks k.
      \<not> (action_writes a ks k \<and> action_touches c ks k))"
proof -
  note d = txns_okD [OF reachable_ok [OF assms(1)]]
  have l: "pr_Locks p = BuildLocks (pr_Txn p)" "pr_Locks q = BuildLocks (pr_Txn q)"
    using d(6) [OF assms(3)] d(6) [OF assms(5)] assms(4,6) by (auto simp: entry_ok_def)
  have c: "CompatibleWith x y \<and> \<not> locks_conflict x y" if "x \<in> set (pr_Locks p)" "y \<in> set (pr_Locks q)" for x y
    using d(3) assms(2-6) that conflict_imp_incompatible [of x y] unfolding compatible_locks_def by blast
  have "\<not> (action_writes a ks k \<and> action_touches c ks k)"
    if ac: "a \<in> set (t_Actions (pr_Txn p))" "c \<in> set (t_Actions (pr_Txn q))" for a c ks k
  proof
    assume wt: "action_writes a ks k \<and> action_touches c ks k"
    obtain x where x: "BuildLock a = Some x" "lock_exclusive x" "lock_covers x ks k"
      using BuildLock_writes wt by blast
    obtain y where y: "BuildLock c = Some y" "lock_covers y ks k" using BuildLock_touches wt by blast
    have "x \<in> set (pr_Locks p)" "y \<in> set (pr_Locks q)"
      using x(1) y(1) ac by (auto simp: l BuildLocks_def build_locks_mem)
    with c [of x y] x y show False by (auto simp: locks_conflict_def)
  qed
  with l c show ?thesis by blast
qed

theorem prepared_transactions_isolated_witness:
  "CompatibleWith (hd (BuildLocks (demo_txn 1 1))) (hd (BuildLocks (demo_txn 2 2))) \<and>
   \<not> locks_conflict (hd (BuildLocks (demo_txn 1 1))) (hd (BuildLocks (demo_txn 2 2))) \<and>
   \<not> (action_writes (hd (t_Actions (demo_txn 1 1))) 16 [1] \<and> action_touches (hd (t_Actions (demo_txn 2 2))) 16 [1])"
proof -
  have "mget (m_prepared demo_m1) (demo_id 1) = Some (new_prepared (demo_txn 1 1) 11)"
    "mget (m_prepared demo_m1) (demo_id 2) = Some (new_prepared (demo_txn 2 2) 12)"
    by code_simp+
  note iso = prepared_transactions_isolated [OF demo_reachable(2) _ this(1) _ this(2)]
  have ne: "demo_id 1 \<noteq> demo_id 2" "\<not> pr_LocksReleased (new_prepared (demo_txn 1 1) 11)"
    "\<not> pr_LocksReleased (new_prepared (demo_txn 2 2) 12)"
    "pr_Locks (new_prepared (demo_txn 1 1) 11) \<noteq> []" "pr_Locks (new_prepared (demo_txn 2 2) 12) \<noteq> []"
    "t_Actions (pr_Txn (new_prepared (demo_txn 1 1) 11)) \<noteq> []" "t_Actions (pr_Txn (new_prepared (demo_txn 2 2) 12)) \<noteq> []"
    by code_simp+
  have t: "pr_Txn (new_prepared (demo_txn 1 1) 11) = demo_txn 1 1" "pr_Txn (new_prepared (demo_txn 2 2) 12) = demo_txn 2 2"
    by (simp_all add: new_prepared_def)
  show ?thesis using iso [OF ne(1-3)] ne(4-7) hd_in_set unfolding t by metis
qed

text \<open>
  C7: outcomes are final. Once a reachable manager has a transaction in a final state (committed,
  aborted or timed out), no batch changes its status: afterwards it is exactly as it was, or the
  clean-up has forgotten it because it is older than the retention time.
\<close>

theorem final_status_stable:
  assumes "reachable m" "ApplyBatch now index b m = Some (res, m')"
    and "mget (m_status m) i = Some s" "IsFinal (ts_State s)"
  shows "mget (m_status m') i = Some s \<or>
    mget (m_status m') i = None \<and> ts_Timestamp s \<le> FromTime (time_Unix (fst now) (snd now - m_cleanAfter m))"
proof -
  obtain m9 where m9: "mmove\<^sup>*\<^sup>* (txns m {}) (txns m9 {})" "m' = cleanup now m9" "txns_ok (txns m9 {})"
    "frame (m\<lparr>m_maxTimestamp := b_MaxTimestamp b\<rparr>) m9"
    by (rule ApplyBatch_moves [OF reachable_ok [OF assms(1)] assms(2)])
  have s9: "mget (m_status m9) i = Some s" using mmoves_final [OF m9(1)] assms(3,4) by simp
  have ca: "m_cleanAfter m9 = m_cleanAfter m" using m9(4) by (simp add: frame_def)
  note wf = txns_okD(1) [OF m9(3)]
  have "mget (m_status (cleanup now m9)) i = Some s \<or>
    mget (m_status (cleanup now m9)) i = None \<and> ts_Timestamp s \<le> FromTime (time_Unix (fst now) (snd now - m_cleanAfter m9))"
    using mget_cleanup [OF wf, of now i] s9 by auto
  then show ?thesis by (simp add: m9(2) ca)
qed

theorem final_status_stable_witness:
  "mget (m_status demo_m2) (demo_id 1) = Some (newStatus (demo_id 1) 13 Aborted) \<and>
   mget (m_status demo_m3) (demo_id 1) = Some (newStatus (demo_id 1) 13 Aborted)"
proof -
  have s: "mget (m_status demo_m2) (demo_id 1) = Some (newStatus (demo_id 1) 13 Aborted)" by code_simp
  have f: "IsFinal (ts_State (newStatus (demo_id 1) 13 Aborted))" by code_simp
  have "mget (m_status demo_m3) (demo_id 1) \<noteq> None" by code_simp
  with final_status_stable [OF demo_reachable(3) demo_run(3) s f] s show ?thesis by blast
qed

text \<open>
  C22: a snapshot loses nothing. Restoring the snapshot of a reachable manager, in any other manager,
  gives the same statuses, the same prepared transactions with the same locks, although the locks
  are not part of the snapshot, and the same maximum timestamp.
\<close>

theorem Snapshot_Restore_roundtrip:
  assumes "reachable m"
  shows "m_status (Restore (Snapshot m) m0) = m_status m \<and>
    m_prepared (Restore (Snapshot m) m0) = m_prepared m \<and>
    m_maxTimestamp (Restore (Snapshot m) m0) = m_maxTimestamp m"
  using Restore_Snapshot [OF reachable_ok [OF assms]] by blast

theorem Snapshot_Restore_roundtrip_witness:
  "m_prepared (Restore (Snapshot demo_m1) demo_new) = m_prepared demo_m1 \<and> m_prepared demo_m1 \<noteq> []"
proof -
  have "m_prepared demo_m1 \<noteq> []" by code_simp
  with Snapshot_Restore_roundtrip [OF demo_reachable(2), of demo_new] show ?thesis by simp
qed

end
