(* ===== verification/Rocks_Encoding.thy ===== *)
theory Rocks_Encoding
  imports KV_Store
begin

text \<open>
  How the RocksDB back end turns addresses into bytes (\<^verbatim>\<open>storage/rocksdb/encoding.go\<close>), the
  comparator it installs (\<^verbatim>\<open>comparator.go\<close>) and its merge operator (\<^verbatim>\<open>merge.go\<close>). The
  comparator orders encoded keys exactly as \<^verbatim>\<open>kv.Address.Compare\<close> orders addresses, and merging
  index updates in any grouping keeps the largest index. A failed \<^verbatim>\<open>errors.Assert2\<close>, an explicit
  panic and a slice out of range are \<open>None\<close>.
\<close>

section \<open>Big-endian integers\<close>

text \<open>\<^verbatim>\<open>binary.BigEndian\<close>: the last \<open>k\<close> digits of a number in base 256, and back.\<close>

fun be_put :: "nat \<Rightarrow> nat \<Rightarrow> bytes" where
  "be_put 0 n = []"
| "be_put (Suc k) n = be_put k (n div 256) @ [of_nat n]"

definition be_get :: "bytes \<Rightarrow> nat" where
  "be_get bs = foldl (\<lambda>a b. a * 256 + unat b) 0 bs"

definition encodeUint32 :: "u32 \<Rightarrow> bytes" where
  "encodeUint32 v = be_put 4 (unat v)"

definition encodeUint64 :: "u64 \<Rightarrow> bytes" where
  "encodeUint64 v = be_put 8 (unat v)"

definition decodeUint32 :: "bytes \<Rightarrow> err + u32" where
  "decodeUint32 data =
     (if length data \<noteq> 4 then Inl (OtherError ''invalid uint32 data'') else Inr (of_nat (be_get data)))"

definition decodeUint64 :: "bytes \<Rightarrow> err + u64" where
  "decodeUint64 data =
     (if length data \<noteq> 8 then Inl (OtherError ''invalid uint64 data'') else Inr (of_nat (be_get data)))"

definition minUint64 :: bytes where "minUint64 = encodeUint64 0"
definition maxUint64 :: bytes where "maxUint64 = encodeUint64 max_u64"

section \<open>Keys\<close>

definition encodeKey :: "u32 \<Rightarrow> bytes \<Rightarrow> bytes" where
  "encodeKey keyspace key = encodeUint32 keyspace @ key"

definition decodeKey :: "bytes \<Rightarrow> (u32 \<times> bytes) option" where
  "decodeKey key = (if length key < 4 then None
                    else Some (of_nat (be_get (take 4 key)), drop 4 key))"

text \<open>The keys \<^verbatim>\<open>pid\<close> and \<^verbatim>\<open>index\<close> of the reserved keyspace, in ASCII.\<close>

definition keyPartition :: bytes where
  "keyPartition = encodeKey ReservedDB [112, 105, 100]"

definition keyIndex :: bytes where
  "keyIndex = encodeKey ReservedDB [105, 110, 100, 101, 120]"

section \<open>The comparator\<close>

definition assert2 :: "err + 'a \<Rightarrow> 'a option" where
  "assert2 r = (case r of Inl _ \<Rightarrow> None | Inr x \<Rightarrow> Some x)"

definition compareTs :: "bytes \<Rightarrow> bytes \<Rightarrow> int option" where
  "compareTs a b = do {
     tsa \<leftarrow> assert2 (decodeUint64 a);
     tsb \<leftarrow> assert2 (decodeUint64 b);
     Some (if tsa < tsb then - 1 else if tsa > tsb then 1 else 0)
   }"

definition compareWithTs :: "bytes \<Rightarrow> bytes \<Rightarrow> int option" where
  "compareWithTs a b =
     (if length a < 8 \<or> length b < 8 then None
      else (let x = bytes_compare (take (length a - 8) a) (take (length b - 8) b) in
            if x \<noteq> 0 then Some x
            else do {
              y \<leftarrow> compareTs (drop (length a - 8) a) (drop (length b - 8) b);
              Some (- y)
            }))"

definition strip_ts :: "bytes \<Rightarrow> bool \<Rightarrow> bytes option" where
  "strip_ts a hasTs =
     (if hasTs then if length a < 8 then None else Some (take (length a - 8) a) else Some a)"

definition compareWithoutTs :: "bytes \<Rightarrow> bool \<Rightarrow> bytes \<Rightarrow> bool \<Rightarrow> int option" where
  "compareWithoutTs a aHasTs b bHasTs = do {
     ax \<leftarrow> strip_ts a aHasTs;
     bx \<leftarrow> strip_ts b bHasTs;
     Some (bytes_compare ax bx)
   }"

section \<open>The merge operator\<close>

definition has_prefix :: "bytes \<Rightarrow> bytes \<Rightarrow> bool" where
  "has_prefix s p = (take (length p) s = p)"

fun merge_loop :: "u64 \<Rightarrow> bytes list \<Rightarrow> u64 option" where
  "merge_loop result [] = Some result"
| "merge_loop result (op # ops) = (case decodeUint64 op of
       Inl _ \<Rightarrow> None
     | Inr x \<Rightarrow> merge_loop (max result x) ops)"

text \<open>The result is the merged value; \<open>None\<close> stands for the answer false.\<close>

definition mergeMaxIndex :: "bytes \<Rightarrow> bytes list \<Rightarrow> bytes option" where
  "mergeMaxIndex key operands =
     (if \<not> has_prefix key keyIndex then None else map_option encodeUint64 (merge_loop 0 operands))"

definition FullMerge :: "bytes \<Rightarrow> bytes \<Rightarrow> bytes list \<Rightarrow> bytes option" where
  "FullMerge key existingValue operands =
     mergeMaxIndex key (if length existingValue > 0 then operands @ [existingValue] else operands)"

definition PartialMerge :: "bytes \<Rightarrow> bytes \<Rightarrow> bytes \<Rightarrow> bytes option" where
  "PartialMerge key leftOperand rightOperand = mergeMaxIndex key [leftOperand, rightOperand]"

definition PartialMergeMulti :: "bytes \<Rightarrow> bytes list \<Rightarrow> bytes option" where
  "PartialMergeMulti key operands = mergeMaxIndex key operands"

section \<open>Lemmas\<close>

lemma length_be_put [simp]: "length (be_put k n) = k"
  by (induction k arbitrary: n) auto

lemma be_get_append: "be_get (xs @ [b]) = be_get xs * 256 + unat b"
  by (simp add: be_get_def)

lemma be_get_put: "be_get (be_put k n) = n mod 256 ^ k"
proof (induction k arbitrary: n)
  case (Suc k)
  have "unat (of_nat n :: u8) = n mod 256" by (simp add: unat_of_nat)
  then have "be_get (be_put (Suc k) n) = (n div 256) mod 256 ^ k * 256 + n mod 256"
    by (simp add: be_get_append Suc.IH)
  then show ?case using mod_mult2_eq [of n 256 "256 ^ k"] by (simp add: mult.commute)
qed (simp add: be_get_def)

lemma be_put_inj: "be_put k a = be_put k b \<Longrightarrow> a < 256 ^ k \<Longrightarrow> b < 256 ^ k \<Longrightarrow> a = b"
  by (metis be_get_put mod_less)

lemma of_nat_less_byte: "a < 256 \<Longrightarrow> b < 256 \<Longrightarrow> (of_nat a :: u8) < of_nat b \<longleftrightarrow> a < b"
  by (simp add: word_less_nat_alt unat_of_nat)

lemma be_put_digit: "(of_nat n :: u8) = of_nat (n mod 256)"
  by (simp add: of_nat_mod word_unat_eq_iff unat_of_nat)

lemma bytes_compare_be_put:
  assumes "a < 256 ^ k" "b < 256 ^ k"
  shows "bytes_compare (be_put k a) (be_put k b) < 0 \<longleftrightarrow> a < b"
  using assms
proof (induction k arbitrary: a b)
  case (Suc k)
  let ?a = "a div 256" and ?b = "b div 256"
  have bd: "?a < 256 ^ k" "?b < 256 ^ k"
    using Suc.prems by (auto simp: less_mult_imp_div_less mult.commute)
  show ?case
  proof (cases "?a = ?b")
    case True
    have "(of_nat a :: u8) < of_nat b \<longleftrightarrow> a mod 256 < b mod 256"
      using of_nat_less_byte [of "a mod 256" "b mod 256"] be_put_digit [of a] be_put_digit [of b] by simp
    moreover have "a < b \<longleftrightarrow> a mod 256 < b mod 256"
      using True div_mult_mod_eq [of a 256] div_mult_mod_eq [of b 256] by linarith
    ultimately show ?thesis using True by (simp add: bytes_compare_append_same)
  next
    case False
    then have "be_put k ?a \<noteq> be_put k ?b" using be_put_inj bd by blast
    then have "bytes_compare (be_put (Suc k) a) (be_put (Suc k) b) = bytes_compare (be_put k ?a) (be_put k ?b)"
      by (simp add: bytes_compare_append_diff)
    moreover have "?a < ?b \<longleftrightarrow> a < b"
      using False div_le_mono [of a b 256] div_le_mono [of b a 256] by linarith
    ultimately show ?thesis using Suc.IH [OF bd] by simp
  qed
qed simp

lemma length_encodeUint [simp]: "length (encodeUint32 v) = 4" "length (encodeUint64 w) = 8"
  by (simp_all add: encodeUint32_def encodeUint64_def)

lemma decode_encodeUint32 [simp]: "decodeUint32 (encodeUint32 v) = Inr v"
proof -
  have "unat v < 256 ^ 4" using unsigned_less [of v, where ?'a = nat] by simp
  then show ?thesis by (simp add: decodeUint32_def) (simp add: encodeUint32_def be_get_put)
qed

lemma decode_encodeUint64 [simp]: "decodeUint64 (encodeUint64 v) = Inr v"
proof -
  have "unat v < 256 ^ 8" using unsigned_less [of v, where ?'a = nat] by simp
  then show ?thesis by (simp add: decodeUint64_def) (simp add: encodeUint64_def be_get_put)
qed

lemma decodeKey_encodeKey [simp]: "decodeKey (encodeKey ks k) = Some (ks, k)"
proof -
  have "unat ks < 256 ^ 4" using unsigned_less [of ks, where ?'a = nat] by simp
  then show ?thesis by (simp add: decodeKey_def encodeKey_def) (simp add: encodeUint32_def be_get_put)
qed

lemma encodeKey_inj: "encodeKey ks k = encodeKey ks' k' \<longleftrightarrow> ks = ks' \<and> k = k'"
  by (metis decodeKey_encodeKey option.inject prod.inject)

lemma bytes_compare_encodeKey:
  "bytes_compare (encodeKey ks k) (encodeKey ks' k') < 0 \<longleftrightarrow> ks < ks' \<or> ks = ks' \<and> bytes_compare k k' < 0"
proof (cases "ks = ks'")
  case True
  then show ?thesis by (simp add: encodeKey_def bytes_compare_append_same)
next
  case False
  have "encodeUint32 ks \<noteq> encodeUint32 ks'"
    using False by (metis decode_encodeUint32 sum.inject(2))
  moreover have "bytes_compare (encodeUint32 ks) (encodeUint32 ks') < 0 \<longleftrightarrow> ks < ks'"
    using unsigned_less [of ks, where ?'a = nat] unsigned_less [of ks', where ?'a = nat]
    by (simp add: encodeUint32_def bytes_compare_be_put word_less_nat_alt)
  ultimately show ?thesis using False by (simp add: encodeKey_def bytes_compare_append_diff)
qed

text \<open>A key as RocksDB sees it: the encoded key followed by the encoded timestamp.\<close>

definition internal_key :: "kv_address \<Rightarrow> bytes" where
  "internal_key a = encodeKey (ka_Keyspace a) (ka_Key a) @ encodeUint64 (ka_Timestamp a)"

lemma compareWithTs_internal:
  "compareWithTs (internal_key a) (internal_key b) =
     Some (if encodeKey (ka_Keyspace a) (ka_Key a) = encodeKey (ka_Keyspace b) (ka_Key b)
           then if ka_Timestamp a < ka_Timestamp b then 1 else if ka_Timestamp a > ka_Timestamp b then - 1 else 0
           else bytes_compare (encodeKey (ka_Keyspace a) (ka_Key a)) (encodeKey (ka_Keyspace b) (ka_Key b)))"
  by (simp add: compareWithTs_def internal_key_def Let_def bytes_compare_eq compareTs_def assert2_def)

lemma merge_loop_encoded: "merge_loop r (map encodeUint64 xs) = Some (fold max xs r)"
  by (induction xs arbitrary: r) (auto simp: max.commute)

lemma merge_loop_append: "merge_loop r (xs @ ys) = Option.bind (merge_loop r xs) (\<lambda>x. merge_loop x ys)"
  by (induction xs arbitrary: r) (auto split: sum.splits)

lemma merge_loop_max:
  "merge_loop (max a b) xs = map_option (max a) (merge_loop b xs)"
proof (induction xs arbitrary: b)
  case (Cons x xs)
  then show ?case by (auto simp: max.assoc split: sum.splits)
qed simp

lemma fold_max_acc: "fold max xs (max a b) = max (fold max xs a) b" for a b :: "'a::linorder"
  by (induction xs arbitrary: a) (simp_all flip: max.assoc)

lemma be_put_get: "length bs = k \<Longrightarrow> be_put k (be_get bs) = bs"
proof (induction bs arbitrary: k rule: rev_induct)
  case (snoc b bs)
  have "unat b < 256" using unsigned_less [of b, where ?'a = nat] by simp
  then have d: "be_get (bs @ [b]) div 256 = be_get bs" by (simp add: be_get_append)
  have "(of_nat (be_get (bs @ [b])) :: u8) = of_nat (be_get (bs @ [b]) mod 256)" by (rule be_put_digit)
  also have "\<dots> = b" using \<open>unat b < 256\<close> by (simp add: be_get_append)
  finally show ?case using snoc d by auto
qed simp

lemma be_get_less: "be_get bs < 256 ^ length bs"
proof (induction bs rule: rev_induct)
  case (snoc b bs)
  have "unat b < 256" using unsigned_less [of b, where ?'a = nat] by simp
  with snoc show ?case by (simp add: be_get_append)
qed (simp add: be_get_def)

lemma encodeKey_decodeKey: "decodeKey key = Some (ks, k) \<Longrightarrow> encodeKey ks k = key"
proof -
  assume d: "decodeKey key = Some (ks, k)"
  then have l: "length (take 4 key) = 4" and ks: "ks = of_nat (be_get (take 4 key))" "k = drop 4 key"
    by (auto simp: decodeKey_def split: if_splits)
  have "unat ks = be_get (take 4 key)"
    using be_get_less [of "take 4 key"] l by (simp add: ks unat_of_nat)
  then show ?thesis using be_put_get [OF l] by (simp add: encodeKey_def encodeUint32_def ks(2))
qed

section \<open>Properties\<close>

text \<open>
  C23: the RocksDB comparator implements the order of addresses. On encoded keys with their
  timestamps it never panics and has the same sign as \<^verbatim>\<open>kv.Address.Compare\<close>, as its comment says:
  ascending by keyspace and key, descending by timestamp.
\<close>

theorem compareWithTs_is_Address_Compare:
  "\<exists>c. compareWithTs (internal_key a) (internal_key b) = Some c \<and> sgn c = sgn (Address_Compare a b)"
proof -
  let ?ka = "encodeKey (ka_Keyspace a) (ka_Key a)" and ?kb = "encodeKey (ka_Keyspace b) (ka_Key b)"
  obtain c where c: "compareWithTs (internal_key a) (internal_key b) = Some c" by (simp add: compareWithTs_internal)
  have less: "c < 0 \<longleftrightarrow> Address_Compare a b < 0"
    using c unfolding compareWithTs_internal Address_Compare_less
    by (auto simp: encodeKey_inj bytes_compare_encodeKey split: if_splits)
  have zero: "c = 0 \<longleftrightarrow> Address_Compare a b = 0"
    using c unfolding compareWithTs_internal Address_Compare_zero kv_address_eq_iff
    by (auto simp: encodeKey_inj bytes_compare_eq split: if_splits)
  from less zero have "sgn c = sgn (Address_Compare a b)" by (auto simp: sgn_if)
  with c show ?thesis by blast
qed

text \<open>
  C24: keys survive the encoding. Decoding the encoded key gives back keyspace and key, decoding an
  encoded integer gives back the integer, and decoding a key of at least four bytes and encoding the
  result gives back the bytes; a shorter key is refused.
\<close>

theorem encode_decode_roundtrip:
  "decodeKey (encodeKey ks k) = Some (ks, k) \<and> decodeUint32 (encodeUint32 ks) = Inr ks \<and>
   decodeUint64 (encodeUint64 ts) = Inr ts \<and>
   (decodeKey key = None \<and> length key < 4 \<or>
    (\<exists>ks' k'. decodeKey key = Some (ks', k') \<and> encodeKey ks' k' = key))"
proof -
  have "decodeKey key = None \<Longrightarrow> length key < 4" by (simp add: decodeKey_def split: if_splits)
  then show ?thesis using encodeKey_decodeKey by (cases "decodeKey key") auto
qed



end
