(* ===== verification/Rocks.thy ===== *)
theory Rocks
  imports Rocks_Encoding Mvcc
begin

text \<open>
  The RocksDB back end: one column family per partition (\<^verbatim>\<open>storage/rocksdb/column_family.go\<close>,
  \<^verbatim>\<open>open.go\<close>, \<^verbatim>\<open>rocksdb.go\<close>), the key-value interface (\<^verbatim>\<open>rocksdb_kv.go\<close>) and the
  multi-version interface (\<^verbatim>\<open>rocksdb_mvcc.go\<close>) on top of it. The locale \<open>grocks\<close> states what the
  back end relies on of the database; under it the multi-version interface meets the laws of
  \<open>mvcc_db\<close>. A database that keeps its entries in a sorted list satisfies them.
\<close>

section \<open>The RocksDB library\<close>

text \<open>
  The binding \<^verbatim>\<open>grocksdb\<close> is not part of the sources. Its calls are the fields of a record of
  functions over an abstract database \<open>'g\<close> with column family handles \<open>'cf\<close>. A slice that does not
  exist is \<open>None\<close>. An iterator is the list of the entries it visits from the seek position on,
  each with its key, timestamp and value, and the error it ends with.
\<close>

datatype 'cf batch_op =
    PutCFWithTS 'cf bytes bytes bytes
  | MergeCFWithTS 'cf bytes bytes bytes

text \<open>The options that change what a read sees; the others tune caching and prefetching.\<close>

record read_options =
  ro_Timestamp :: bytes
  ro_PersistedTier :: bool
  ro_IterStartTimestamp :: "bytes option"
  ro_UpperBound :: "bytes option"

type_synonym entry = "bytes \<times> bytes \<times> bytes"

record ('g, 'cf) grocks_ops =
  g_CreateColumnFamily :: "'g \<Rightarrow> string \<Rightarrow> (err + 'cf) \<times> 'g"
  g_DropColumnFamily :: "'g \<Rightarrow> 'cf \<Rightarrow> err option \<times> 'g"
  g_FlushCF :: "'g \<Rightarrow> 'cf \<Rightarrow> err option \<times> 'g"
  g_PutCFWithTS :: "'g \<Rightarrow> 'cf \<Rightarrow> bytes \<Rightarrow> bytes \<Rightarrow> bytes \<Rightarrow> err option \<times> 'g"
  g_Write :: "'g \<Rightarrow> 'cf batch_op list \<Rightarrow> err option \<times> 'g"
  g_GetCF :: "'g \<Rightarrow> read_options \<Rightarrow> 'cf \<Rightarrow> bytes \<Rightarrow> (err + bytes option) \<times> 'g"
  g_GetCFWithTS :: "'g \<Rightarrow> read_options \<Rightarrow> 'cf \<Rightarrow> bytes \<Rightarrow> (err + (bytes \<times> bytes) option) \<times> 'g"
  g_MultiGetCFWithTS ::
    "'g \<Rightarrow> read_options \<Rightarrow> 'cf \<Rightarrow> bytes list \<Rightarrow> (err + (bytes \<times> bytes) option list) \<times> 'g"
  g_Iterate :: "'g \<Rightarrow> read_options \<Rightarrow> 'cf \<Rightarrow> bytes \<Rightarrow> (entry list \<times> err option) \<times> 'g"

definition makeReadOptionsMVCC :: read_options where
  "makeReadOptionsMVCC =
     \<lparr>ro_Timestamp = [], ro_PersistedTier = False, ro_IterStartTimestamp = None, ro_UpperBound = None\<rparr>"

definition makeReadOptionsKV :: read_options where
  "makeReadOptionsKV =
     \<lparr>ro_Timestamp = maxUint64, ro_PersistedTier = False, ro_IterStartTimestamp = Some minUint64,
      ro_UpperBound = None\<rparr>"

definition makeStreamOptions :: read_options where
  "makeStreamOptions =
     \<lparr>ro_Timestamp = maxUint64, ro_PersistedTier = False, ro_IterStartTimestamp = Some minUint64,
      ro_UpperBound = None\<rparr>"

section \<open>State\<close>

record ('g, 'cf) rocksdb =
  rk_db :: 'g
  rk_cfs :: "(u32, 'cf) gomap"

definition getCF :: "('g, 'cf) rocksdb \<Rightarrow> u32 \<Rightarrow> 'cf option" where
  "getCF r pid = mget (rk_cfs r) pid"

text \<open>\<^verbatim>\<open>fmt.Sprintf("part_%d", pid)\<close>.\<close>

fun digits :: "nat \<Rightarrow> nat \<Rightarrow> string" where
  "digits 0 n = []"
| "digits (Suc fuel) n =
     (if n < 10 then [char_of (48 + n)] else digits fuel (n div 10) @ [char_of (48 + n mod 10)])"

definition getCFName :: "u32 \<Rightarrow> string" where
  "getCFName pid = ''part_'' @ digits 10 (unat pid)"

section \<open>Column families\<close>

definition flushCF :: "('g, 'cf) grocks_ops \<Rightarrow> 'g \<Rightarrow> 'cf \<Rightarrow> err option \<times> 'g" where
  "flushCF ops db cf = g_FlushCF ops db cf"

definition initCF :: "('g, 'cf) grocks_ops \<Rightarrow> 'g \<Rightarrow> 'cf \<Rightarrow> u32 \<Rightarrow> err option \<times> 'g" where
  "initCF ops db cf pid = (case g_PutCFWithTS ops db cf keyPartition minUint64 (encodeUint32 pid) of
       (Some e, db') \<Rightarrow> (Some e, db')
     | (None, db') \<Rightarrow> flushCF ops db' cf)"

definition probeCF :: "('g, 'cf) grocks_ops \<Rightarrow> 'g \<Rightarrow> 'cf \<Rightarrow> (err + u32) \<times> 'g" where
  "probeCF ops db cf = (case g_GetCF ops db makeReadOptionsKV cf keyPartition of
       (Inl e, db') \<Rightarrow> (Inl e, db')
     | (Inr None, db') \<Rightarrow> (Inl NotFound, db')
     | (Inr (Some x), db') \<Rightarrow> (decodeUint32 x, db'))"

fun probeCFs ::
    "('g, 'cf) grocks_ops \<Rightarrow> 'g \<Rightarrow> 'cf list \<Rightarrow> (u32, 'cf) gomap \<Rightarrow> 'cf list \<Rightarrow>
     (err + ((u32, 'cf) gomap \<times> 'cf list)) \<times> 'g" where
  "probeCFs ops db [] known unknown = (Inr (known, unknown), db)"
| "probeCFs ops db (cf # cfs) known unknown = (case probeCF ops db cf of
       (Inl e, db') \<Rightarrow> if e \<noteq> NotFound then (Inl e, db') else probeCFs ops db' cfs known (unknown @ [cf])
     | (Inr pid, db') \<Rightarrow>
         (case mget known pid of
            Some _ \<Rightarrow> (Inl (OtherError ''Found multiple column families for partition''), db')
          | None \<Rightarrow> probeCFs ops db' cfs (mput pid cf known) unknown))"

definition readCFIndex :: "('g, 'cf) grocks_ops \<Rightarrow> 'g \<Rightarrow> 'cf \<Rightarrow> bool \<Rightarrow> (err + u64) \<times> 'g" where
  "readCFIndex ops db cf persisted = (case g_GetCF ops db (makeReadOptionsKV\<lparr>ro_PersistedTier := persisted\<rparr>) cf keyIndex of
       (Inl e, db') \<Rightarrow> (Inl e, db')
     | (Inr None, db') \<Rightarrow> (Inl NotFound, db')
     | (Inr (Some x), db') \<Rightarrow> (decodeUint64 x, db'))"

section \<open>Opening and closing\<close>

text \<open>
  Opening reads the directory: whether it holds a database, the column families of that database,
  and the handles it opens with.
\<close>

record ('g, 'cf) grocks_dir =
  d_exists :: "err + bool"
  d_OpenDb :: "err + 'g"
  d_ListColumnFamilies :: "err + string list"
  d_OpenDbColumnFamilies :: "string list \<Rightarrow> err + ('g \<times> 'cf list)"

definition openDB :: "('g, 'cf) grocks_ops \<Rightarrow> ('g, 'cf) grocks_dir \<Rightarrow> err + ('g \<times> (u32, 'cf) gomap)" where
  "openDB ops dir = (case d_exists dir of
       Inl e \<Rightarrow> Inl e
     | Inr False \<Rightarrow> (case d_OpenDb dir of Inl e \<Rightarrow> Inl e | Inr db \<Rightarrow> Inr (db, []))
     | Inr True \<Rightarrow>
         (case d_ListColumnFamilies dir of
            Inl e \<Rightarrow> Inl e
          | Inr cfNames \<Rightarrow>
              (case d_OpenDbColumnFamilies dir cfNames of
                 Inl e \<Rightarrow> Inl e
               | Inr (db, cfHandles) \<Rightarrow>
                   (case probeCFs ops db cfHandles [] [] of
                      (Inl e, _) \<Rightarrow> Inl e
                    | (Inr (known, _), db') \<Rightarrow> Inr (db', known)))))"

definition RocksDB_Start :: "('g, 'cf) grocks_ops \<Rightarrow> ('g, 'cf) grocks_dir \<Rightarrow> err + ('g, 'cf) rocksdb" where
  "RocksDB_Start ops dir = (case openDB ops dir of
       Inl e \<Rightarrow> Inl e
     | Inr (db, cfs) \<Rightarrow> Inr \<lparr>rk_db = db, rk_cfs = cfs\<rparr>)"

section \<open>The key-value interface\<close>

definition rocksKV_InitPartition ::
    "('g, 'cf) grocks_ops \<Rightarrow> ('g, 'cf) rocksdb \<Rightarrow> u32 \<Rightarrow> err option \<times> ('g, 'cf) rocksdb" where
  "rocksKV_InitPartition ops r pid = (case getCF r pid of
       Some _ \<Rightarrow> (None, r)
     | None \<Rightarrow> (case g_CreateColumnFamily ops (rk_db r) (getCFName pid) of
           (Inl e, db) \<Rightarrow> (Some e, r\<lparr>rk_db := db\<rparr>)
         | (Inr cf, db) \<Rightarrow> (case initCF ops db cf pid of
               (Some e, db') \<Rightarrow> (Some e, r\<lparr>rk_db := db'\<rparr>)
             | (None, db') \<Rightarrow> (None, \<lparr>rk_db = db', rk_cfs = mput pid cf (rk_cfs r)\<rparr>))))"

definition rocksKV_DropPartition ::
    "('g, 'cf) grocks_ops \<Rightarrow> ('g, 'cf) rocksdb \<Rightarrow> u32 \<Rightarrow> err option \<times> ('g, 'cf) rocksdb" where
  "rocksKV_DropPartition ops r pid = (case getCF r pid of
       None \<Rightarrow> (Some NotFound, r)
     | Some cf \<Rightarrow> (case g_DropColumnFamily ops (rk_db r) cf of
           (e, db) \<Rightarrow> (e, \<lparr>rk_db = db, rk_cfs = mdel pid (rk_cfs r)\<rparr>)))"

definition rocksKV_SyncPartition ::
    "('g, 'cf) grocks_ops \<Rightarrow> ('g, 'cf) rocksdb \<Rightarrow> u32 \<Rightarrow> err option \<times> ('g, 'cf) rocksdb" where
  "rocksKV_SyncPartition ops r pid = (case getCF r pid of
       None \<Rightarrow> (Some NotFound, r)
     | Some cf \<Rightarrow> (case flushCF ops (rk_db r) cf of (e, db) \<Rightarrow> (e, r\<lparr>rk_db := db\<rparr>)))"

definition rocksKV_encodeKey :: "kv_address \<Rightarrow> bytes" where
  "rocksKV_encodeKey a = encodeKey (ka_Keyspace a) (ka_Key a)"

definition rocks_batch :: "'cf \<Rightarrow> u64 \<Rightarrow> kv_record list \<Rightarrow> 'cf batch_op list" where
  "rocks_batch cf index records =
     map (\<lambda>r. PutCFWithTS cf (rocksKV_encodeKey (kr_Address r))
                 (encodeUint64 (ka_Timestamp (kr_Address r))) (kr_Data r)) records @
     (if index > 0 then [MergeCFWithTS cf keyIndex minUint64 (encodeUint64 index)] else [])"

definition rocksKV_Put ::
    "('g, 'cf) grocks_ops \<Rightarrow> ('g, 'cf) rocksdb \<Rightarrow> u32 \<Rightarrow> u64 \<Rightarrow> kv_record list \<Rightarrow> err option \<times> ('g, 'cf) rocksdb" where
  "rocksKV_Put ops r pid index records = (case getCF r pid of
       None \<Rightarrow> (Some NotFound, r)
     | Some cf \<Rightarrow> (case g_Write ops (rk_db r) (rocks_batch cf index records) of
           (e, db) \<Rightarrow> (e, r\<lparr>rk_db := db\<rparr>)))"

definition rocksKV_Get ::
    "('g, 'cf) grocks_ops \<Rightarrow> ('g, 'cf) rocksdb \<Rightarrow> u32 \<Rightarrow> kv_address \<Rightarrow>
     ((err + kv_record option) \<times> ('g, 'cf) rocksdb) option" where
  "rocksKV_Get ops r pid address = (case getCF r pid of
       None \<Rightarrow> Some (Inl NotFound, r)
     | Some cf \<Rightarrow>
         (case g_GetCFWithTS ops (rk_db r)
                 (makeReadOptionsKV\<lparr>ro_Timestamp := encodeUint64 (ka_Timestamp address)\<rparr>) cf
                 (rocksKV_encodeKey address) of
            (Inl e, db) \<Rightarrow> Some (Inl e, r\<lparr>rk_db := db\<rparr>)
          | (Inr None, db) \<Rightarrow> Some (Inr None, r\<lparr>rk_db := db\<rparr>)
          | (Inr (Some (v, t)), db) \<Rightarrow> do {
              ts \<leftarrow> assert2 (decodeUint64 t);
              Some (Inr (if ts \<noteq> ka_Timestamp address then None
                         else Some \<lparr>kr_Address = address, kr_Data = v\<rparr>), r\<lparr>rk_db := db\<rparr>)
            }))"

definition rocksKV_decodeAddress :: "bytes \<Rightarrow> bytes \<Rightarrow> kv_address option" where
  "rocksKV_decodeAddress key t = do {
     (ks, k) \<leftarrow> decodeKey key;
     ts \<leftarrow> assert2 (decodeUint64 t);
     Some (kv_NewAddress ks k ts)
   }"

fun rocks_iter_loop :: "kv_address \<Rightarrow> kv_address option \<Rightarrow> err option \<Rightarrow> entry list \<Rightarrow> kv_iter" where
  "rocks_iter_loop start end ie [] = (case ie of None \<Rightarrow> [] | Some e \<Rightarrow> [ItemErr e])"
| "rocks_iter_loop start end ie ((k, t, v) # es) = (case rocksKV_decodeAddress k t of
       None \<Rightarrow> [ItemPanic]
     | Some addr \<Rightarrow>
         if Address_Before addr start then rocks_iter_loop start end ie es
         else if (case end of Some x \<Rightarrow> Address_Compare addr x \<ge> 0 | None \<Rightarrow> False) then []
         else Item \<lparr>kr_Address = addr, kr_Data = v\<rparr> # rocks_iter_loop start end ie es)"

definition rocks_getIterator ::
    "('g, 'cf) grocks_ops \<Rightarrow> ('g, 'cf) rocksdb \<Rightarrow> u32 \<Rightarrow> read_options \<Rightarrow> kv_address \<Rightarrow> kv_address option \<Rightarrow>
     (err + kv_iter) \<times> ('g, 'cf) rocksdb" where
  "rocks_getIterator ops r pid ro start end = (case getCF r pid of
       None \<Rightarrow> (Inl NotFound, r)
     | Some cf \<Rightarrow>
         (let ro' = (case end of
                        None \<Rightarrow> ro
                      | Some x \<Rightarrow> ro\<lparr>ro_UpperBound := Some (rocksKV_encodeKey (Address_NextKey x))\<rparr>)
          in case g_Iterate ops (rk_db r) ro' cf (rocksKV_encodeKey start) of
               ((es, ie), db) \<Rightarrow> (Inr (rocks_iter_loop start end ie es), r\<lparr>rk_db := db\<rparr>)))"

definition rocksKV_GetRange ::
    "('g, 'cf) grocks_ops \<Rightarrow> ('g, 'cf) rocksdb \<Rightarrow> u32 \<Rightarrow> kv_address \<Rightarrow> kv_address option \<Rightarrow>
     (err + kv_iter) \<times> ('g, 'cf) rocksdb" where
  "rocksKV_GetRange ops r pid start end = rocks_getIterator ops r pid makeReadOptionsKV start end"

definition rocksKV_GetStream ::
    "('g, 'cf) grocks_ops \<Rightarrow> ('g, 'cf) rocksdb \<Rightarrow> u32 \<Rightarrow> kv_address \<Rightarrow> (err + kv_iter) \<times> ('g, 'cf) rocksdb" where
  "rocksKV_GetStream ops r pid start = rocks_getIterator ops r pid makeStreamOptions start None"

definition rocksKV_GetIndex ::
    "('g, 'cf) grocks_ops \<Rightarrow> ('g, 'cf) rocksdb \<Rightarrow> u32 \<Rightarrow> bool \<Rightarrow> (err + u64) \<times> ('g, 'cf) rocksdb" where
  "rocksKV_GetIndex ops r pid persistedOnDisk = (case getCF r pid of
       None \<Rightarrow> (Inl NotFound, r)
     | Some cf \<Rightarrow> (case readCFIndex ops (rk_db r) cf persistedOnDisk of
           (Inl e, db) \<Rightarrow> (if e \<noteq> NotFound then Inl e else Inr 0, r\<lparr>rk_db := db\<rparr>)
         | (Inr index, db) \<Rightarrow> (Inr index, r\<lparr>rk_db := db\<rparr>)))"

section \<open>The multi-version interface\<close>

definition rocksMVCC_encodeKey :: "mv_address \<Rightarrow> bytes" where
  "rocksMVCC_encodeKey a = encodeKey (ma_Keyspace a) (ma_Key a)"

definition rocksMVCC_decodeAddress :: "bytes \<Rightarrow> mv_address option" where
  "rocksMVCC_decodeAddress key = do { (ks, k) \<leftarrow> decodeKey key; Some (mv_NewAddress ks k) }"

fun rocks_get_loop :: "mv_address list \<Rightarrow> (bytes \<times> bytes) option list \<Rightarrow> mv_record option list option" where
  "rocks_get_loop [] ds = Some []"
| "rocks_get_loop (a # as) [] = None"
| "rocks_get_loop (a # as) (d # ds) = do {
     r \<leftarrow> (case d of
             None \<Rightarrow> Some None
           | Some (data, t) \<Rightarrow> do {
               (v, flags) \<leftarrow> DecodeData data;
               (if Tombstone flags then Some None
                else do {
                  ts \<leftarrow> assert2 (decodeUint64 t);
                  Some (Some \<lparr>mr_Address = a, mr_Timestamp = ts, mr_Value = v, mr_Flags = flags\<rparr>)
                })
             });
     rs \<leftarrow> rocks_get_loop as ds;
     Some (r # rs)
   }"

definition rocksMVCC_Get ::
    "('g, 'cf) grocks_ops \<Rightarrow> ('g, 'cf) rocksdb \<Rightarrow> u32 \<Rightarrow> u64 \<Rightarrow> mv_address list \<Rightarrow>
     ((err + mv_record option list) \<times> ('g, 'cf) rocksdb) option" where
  "rocksMVCC_Get ops r pid timestamp addrs = (case getCF r pid of
       None \<Rightarrow> Some (Inl NotFound, r)
     | Some cf \<Rightarrow>
         (case g_MultiGetCFWithTS ops (rk_db r)
                 (makeReadOptionsMVCC\<lparr>ro_Timestamp := encodeUint64 (eff_ts timestamp)\<rparr>) cf
                 (map rocksMVCC_encodeKey addrs) of
            (Inl e, db) \<Rightarrow> Some (Inl e, r\<lparr>rk_db := db\<rparr>)
          | (Inr ds, db) \<Rightarrow> do { rs \<leftarrow> rocks_get_loop addrs ds; Some (Inr rs, r\<lparr>rk_db := db\<rparr>) }))"

fun rocks_range_loop :: "err option \<Rightarrow> entry list \<Rightarrow> mv_iter" where
  "rocks_range_loop ie [] = (case ie of None \<Rightarrow> [] | Some e \<Rightarrow> [ItemErr e])"
| "rocks_range_loop ie ((k, t, d) # es) = (case DecodeData d of
       None \<Rightarrow> [ItemPanic]
     | Some (v, flags) \<Rightarrow>
         if Tombstone flags then rocks_range_loop ie es
         else (case rocksMVCC_decodeAddress k of
             None \<Rightarrow> [ItemPanic]
           | Some a \<Rightarrow> (case assert2 (decodeUint64 t) of
                 None \<Rightarrow> [ItemPanic]
               | Some ts \<Rightarrow> Item \<lparr>mr_Address = a, mr_Timestamp = ts, mr_Value = v, mr_Flags = flags\<rparr> #
                   rocks_range_loop ie es)))"

definition rocksMVCC_GetRange ::
    "('g, 'cf) grocks_ops \<Rightarrow> ('g, 'cf) rocksdb \<Rightarrow> u32 \<Rightarrow> u64 \<Rightarrow> mv_address \<Rightarrow> mv_address \<Rightarrow>
     ((err + mv_iter) \<times> ('g, 'cf) rocksdb) option" where
  "rocksMVCC_GetRange ops r pid timestamp start end = (case getCF r pid of
       None \<Rightarrow> Some (Inl NotFound, r)
     | Some cf \<Rightarrow>
         (case g_Iterate ops (rk_db r)
                 (makeReadOptionsMVCC\<lparr>ro_Timestamp := encodeUint64 (eff_ts timestamp),
                                       ro_UpperBound := Some (rocksMVCC_encodeKey end)\<rparr>) cf
                 (rocksMVCC_encodeKey start) of
            ((es, ie), db) \<Rightarrow> Some (Inr (rocks_range_loop ie es), r\<lparr>rk_db := db\<rparr>)))"

definition rocksMVCC_Exists ::
    "('g, 'cf) grocks_ops \<Rightarrow> ('g, 'cf) rocksdb \<Rightarrow> u32 \<Rightarrow> u64 \<Rightarrow> mv_address \<Rightarrow>
     ((err + bool) \<times> ('g, 'cf) rocksdb) option" where
  "rocksMVCC_Exists ops r pid timestamp addr = do {
     (v, r') \<leftarrow> rocksMVCC_Get ops r pid timestamp [addr];
     (case v of Inl e \<Rightarrow> Some (Inl e, r') | Inr rs \<Rightarrow> Some (Inr (hd rs \<noteq> None), r'))
   }"

definition rocksMVCC_ExistsInRange ::
    "('g, 'cf) grocks_ops \<Rightarrow> ('g, 'cf) rocksdb \<Rightarrow> u32 \<Rightarrow> u64 \<Rightarrow> mv_address \<Rightarrow> mv_address \<Rightarrow>
     ((err + bool) \<times> ('g, 'cf) rocksdb) option" where
  "rocksMVCC_ExistsInRange ops r pid timestamp start end = do {
     (x, r') \<leftarrow> rocksMVCC_GetRange ops r pid timestamp start end;
     (case x of
        Inl e \<Rightarrow> Some (Inl e, r')
      | Inr it \<Rightarrow> do { b \<leftarrow> first_yield it; Some (Inr b, r') })
   }"

definition rocksMVCC_Put ::
    "('g, 'cf) grocks_ops \<Rightarrow> ('g, 'cf) rocksdb \<Rightarrow> u32 \<Rightarrow> u64 \<Rightarrow> mv_record list \<Rightarrow>
     (err option \<times> ('g, 'cf) rocksdb) option" where
  "rocksMVCC_Put ops r pid index records = Some (rocksKV_Put ops r pid index (map ToKVRecord records))"

definition rocksMVCC_ops :: "('g, 'cf) grocks_ops \<Rightarrow> ('g, 'cf) rocksdb mv_ops" where
  "rocksMVCC_ops ops =
     \<lparr>mv_Get = rocksMVCC_Get ops, mv_GetRange = rocksMVCC_GetRange ops, mv_Exists = rocksMVCC_Exists ops,
      mv_ExistsInRange = rocksMVCC_ExistsInRange ops, mv_Put = rocksMVCC_Put ops\<rparr>"

section \<open>What the back end relies on\<close>

text \<open>
  The entries of a column family are listed in the order of the installed comparator. A read at a
  timestamp sees the newest entry of each key that is not above it. An error of the library is
  never the program's own \<^verbatim>\<open>errors.NotFound\<close>.
\<close>

definition ts_le :: "bytes \<Rightarrow> bytes \<Rightarrow> bool" where
  "ts_le a b = (case compareTs a b of Some c \<Rightarrow> c \<le> 0 | None \<Rightarrow> False)"

definition ent_less :: "entry \<Rightarrow> entry \<Rightarrow> bool" where
  "ent_less a b = (case compareWithTs (fst a @ fst (snd a)) (fst b @ fst (snd b)) of
       Some c \<Rightarrow> c < 0 | None \<Rightarrow> False)"

definition newest :: "entry list \<Rightarrow> bytes \<Rightarrow> entry \<Rightarrow> bool" where
  "newest es T e \<longleftrightarrow> ts_le (fst (snd e)) T \<and>
     (\<forall>q \<in> set es. fst q = fst e \<longrightarrow> ts_le (fst (snd q)) T \<longrightarrow> ts_le (fst (snd q)) (fst (snd e)))"

definition read_key :: "entry list \<Rightarrow> bytes \<Rightarrow> bytes \<Rightarrow> (bytes \<times> bytes) option" where
  "read_key es T k = map_option (\<lambda>(k, t, v). (v, t)) (find (\<lambda>e. fst e = k \<and> newest es T e) es)"

definition read_range :: "entry list \<Rightarrow> bytes \<Rightarrow> bytes \<Rightarrow> bytes \<Rightarrow> entry list" where
  "read_range es T s u =
     filter (\<lambda>e. bytes_compare s (fst e) \<le> 0 \<and> bytes_compare (fst e) u < 0 \<and> newest es T e) es"

text \<open>A batch is applied in order; a merge goes through the merge operator of the back end.\<close>

definition ent_map :: "entry list \<Rightarrow> bytes \<times> bytes \<Rightarrow> bytes option" where
  "ent_map es = map_of (map (\<lambda>(k, t, v). ((k, t), v)) es)"

definition bytes_or_nil :: "bytes option \<Rightarrow> bytes" where
  "bytes_or_nil x = (case x of None \<Rightarrow> [] | Some v \<Rightarrow> v)"

fun apply_ops :: "'cf \<Rightarrow> 'cf batch_op list \<Rightarrow> (bytes \<times> bytes \<Rightarrow> bytes option) \<Rightarrow>
    (bytes \<times> bytes \<Rightarrow> bytes option) option" where
  "apply_ops cf [] m = Some m"
| "apply_ops cf (PutCFWithTS cf' k t v # ops) m = apply_ops cf ops (if cf' = cf then m((k, t) \<mapsto> v) else m)"
| "apply_ops cf (MergeCFWithTS cf' k t v # ops) m =
     (if cf' = cf
      then (case FullMerge k (bytes_or_nil (m (k, t))) [v] of
              None \<Rightarrow> None
            | Some x \<Rightarrow> apply_ops cf ops (m((k, t) \<mapsto> x)))
      else apply_ops cf ops m)"

fun op_key :: "'cf batch_op \<Rightarrow> 'cf \<times> bytes \<times> bytes" where
  "op_key (PutCFWithTS cf k t v) = (cf, k, t)"
| "op_key (MergeCFWithTS cf k t v) = (cf, k, t)"

definition entries_ok :: "entry list \<Rightarrow> bool" where
  "entries_ok es \<longleftrightarrow> sorted_wrt ent_less es \<and> (\<forall>e \<in> set es. length (fst (snd e)) = 8)"

locale grocks =
  fixes ops :: "('g, 'cf) grocks_ops" and raw :: "'g \<Rightarrow> 'cf \<Rightarrow> entry list option" and inv :: "'g \<Rightarrow> bool"
  assumes raw_ok: "inv g \<Longrightarrow> raw g cf = Some es \<Longrightarrow> entries_ok es"
    and create_law: "inv g \<Longrightarrow> g_CreateColumnFamily ops g name = (c, g') \<Longrightarrow> inv g' \<and>
      (case c of Inl _ \<Rightarrow> raw g' = raw g | Inr cf \<Rightarrow> raw g cf = None \<and> raw g' = (raw g)(cf \<mapsto> []))"
    and drop_law: "inv g \<Longrightarrow> g_DropColumnFamily ops g cf = (x, g') \<Longrightarrow> inv g' \<and>
      raw g' = (if x = None then (raw g)(cf := None) else raw g)"
    and flush_law: "inv g \<Longrightarrow> g_FlushCF ops g cf = (x, g') \<Longrightarrow> inv g' \<and> raw g' = raw g"
    and put_ts_law: "inv g \<Longrightarrow> raw g cf = Some es \<Longrightarrow> length t = 8 \<Longrightarrow>
      g_PutCFWithTS ops g cf k t v = (x, g') \<Longrightarrow> inv g' \<and>
      (if x = None then \<exists>es'. raw g' = (raw g)(cf \<mapsto> es') \<and> ent_map es' = (ent_map es)((k, t) \<mapsto> v)
       else raw g' = raw g)"
    and write_law: "inv g \<Longrightarrow> raw g cf = Some es \<Longrightarrow>
      \<forall>p \<in> set b. fst (op_key p) = cf \<and> length (snd (snd (op_key p))) = 8 \<Longrightarrow>
      apply_ops cf b (ent_map es) = Some m \<Longrightarrow> g_Write ops g b = (x, g') \<Longrightarrow> inv g' \<and>
      (if x = None then \<exists>es'. raw g' = (raw g)(cf \<mapsto> es') \<and> ent_map es' = m else raw g' = raw g)"
    and get_law: "inv g \<Longrightarrow> raw g cf = Some es \<Longrightarrow> g_GetCF ops g ro cf k = (w, g') \<Longrightarrow>
      inv g' \<and> raw g' = raw g \<and> w \<noteq> Inl NotFound \<and>
      (\<forall>d. w = Inr d \<longrightarrow> \<not> ro_PersistedTier ro \<longrightarrow> d = map_option fst (read_key es (ro_Timestamp ro) k))"
    and get_ts_law: "inv g \<Longrightarrow> raw g cf = Some es \<Longrightarrow> g_GetCFWithTS ops g ro cf k = (y, g') \<Longrightarrow>
      inv g' \<and> raw g' = raw g \<and>
      (\<forall>dt. y = Inr dt \<longrightarrow> \<not> ro_PersistedTier ro \<longrightarrow> dt = read_key es (ro_Timestamp ro) k)"
    and multi_get_law: "inv g \<Longrightarrow> raw g cf = Some es \<Longrightarrow> g_MultiGetCFWithTS ops g ro cf ks = (z, g') \<Longrightarrow>
      inv g' \<and> raw g' = raw g \<and>
      (\<forall>ds. z = Inr ds \<longrightarrow> \<not> ro_PersistedTier ro \<longrightarrow> ds = map (read_key es (ro_Timestamp ro)) ks)"
    and iterate_law: "inv g \<Longrightarrow> raw g cf = Some es \<Longrightarrow> ro_IterStartTimestamp ro = None \<Longrightarrow>
      ro_UpperBound ro = Some u \<Longrightarrow> \<not> ro_PersistedTier ro \<Longrightarrow>
      g_Iterate ops g ro cf s = ((xs, ie), g') \<Longrightarrow> inv g' \<and> raw g' = raw g \<and>
      (\<exists>n. xs = (if ie = None then id else take n) (read_range es (ro_Timestamp ro) s u))"

section \<open>Entries and records\<close>

definition ent_of :: "kv_record \<Rightarrow> entry" where
  "ent_of r = (encodeKey (ka_Keyspace (kr_Address r)) (ka_Key (kr_Address r)),
     encodeUint64 (ka_Timestamp (kr_Address r)), kr_Data r)"

definition rec_of :: "entry \<Rightarrow> kv_record" where
  "rec_of e = \<lparr>kr_Address = kv_NewAddress (fst (the (decodeKey (fst e)))) (snd (the (decodeKey (fst e))))
       (the (assert2 (decodeUint64 (fst (snd e))))), kr_Data = snd (snd e)\<rparr>"

definition wf_entry :: "entry \<Rightarrow> bool" where
  "wf_entry e \<longleftrightarrow> 4 \<le> length (fst e) \<and> length (fst (snd e)) = 8"

lemma encodeUint64_inj [simp]: "encodeUint64 a = encodeUint64 b \<longleftrightarrow> a = b"
  by (metis decode_encodeUint64 sum.inject(2))

lemma encode_decodeUint64: "length t = 8 \<Longrightarrow> \<exists>ts. t = encodeUint64 ts \<and> decodeUint64 t = Inr ts"
proof -
  assume l: "length t = 8"
  have "be_get t < 2 ^ 64" using be_get_less [of t] l by simp
  then have "unat (of_nat (be_get t) :: u64) = be_get t" by (simp add: unat_of_nat)
  then have "encodeUint64 (of_nat (be_get t)) = t" using be_put_get [OF l] by (simp add: encodeUint64_def)
  then show ?thesis using l by (metis decode_encodeUint64)
qed

lemma rec_of_ent_of [simp]: "rec_of (ent_of r) = r"
  by (simp add: rec_of_def ent_of_def assert2_def kv_NewAddress_def)

lemma wf_ent_of [simp]: "wf_entry (ent_of r)"
  by (simp add: wf_entry_def ent_of_def encodeKey_def)

lemma ent_of_rec_of: "wf_entry e \<Longrightarrow> ent_of (rec_of e) = e"
proof -
  assume w: "wf_entry e"
  obtain ts where ts: "fst (snd e) = encodeUint64 ts" using encode_decodeUint64 w by (auto simp: wf_entry_def)
  obtain ks k where "decodeKey (fst e) = Some (ks, k)"
    using w by (cases "decodeKey (fst e)") (auto simp: wf_entry_def decodeKey_def split: if_splits)
  moreover from encodeKey_decodeKey [OF this] have "fst e = encodeKey ks k" by simp
  ultimately show ?thesis using ts
    by (cases e) (simp add: ent_of_def rec_of_def assert2_def kv_NewAddress_def)
qed

lemma wf_entries_of:
  assumes "\<forall>e \<in> set es. wf_entry e"
  shows "es = map ent_of (map rec_of es)"
  using assms by (induction es) (auto simp: ent_of_rec_of)

lemma ent_of_inj [simp]: "ent_of a = ent_of b \<longleftrightarrow> a = b"
  by (metis rec_of_ent_of)

lemma ts_le_encode [simp]: "ts_le (encodeUint64 a) (encodeUint64 b) \<longleftrightarrow> a \<le> b"
  by (auto simp: ts_le_def compareTs_def assert2_def)

lemma ent_less_ent_of [simp]: "ent_less (ent_of a) (ent_of b) \<longleftrightarrow> Address_Compare (kr_Address a) (kr_Address b) < 0"
proof -
  have "ent_less (ent_of a) (ent_of b) =
      (case compareWithTs (internal_key (kr_Address a)) (internal_key (kr_Address b)) of Some c \<Rightarrow> c < 0 | None \<Rightarrow> False)"
    by (simp add: ent_less_def ent_of_def internal_key_def)
  then show ?thesis unfolding compareWithTs_internal Address_Compare_less
    by (auto simp: encodeKey_inj bytes_compare_encodeKey)
qed

lemma newest_ent_of [simp]: "newest (map ent_of recs) (encodeUint64 T) (ent_of r) \<longleftrightarrow> latest recs T r"
  by (auto simp: newest_def latest_def same_key_def) (auto simp: ent_of_def encodeKey_inj)

lemma sorted_ent_of [simp]: "sorted_wrt ent_less (map ent_of recs) \<longleftrightarrow> recs_sorted recs"
  by (simp add: sorted_wrt_map)

section \<open>User records\<close>

definition user_record :: "kv_record \<Rightarrow> bool" where
  "user_record r \<longleftrightarrow> FirstUserKeyspace \<le> ka_Keyspace (kr_Address r)"

lemma latest_user: "user_record r \<Longrightarrow> latest (filter user_record recs) T r \<longleftrightarrow> latest recs T r"
  by (auto simp: latest_def user_record_def same_key_def)

lemma find_filter: "(\<And>x. x \<in> set xs \<Longrightarrow> P x \<Longrightarrow> Q x) \<Longrightarrow> find P (filter Q xs) = find P xs"
  by (induction xs) auto

lemma find_map: "find P (map f xs) = map_option f (find (P \<circ> f) xs)"
  by (induction xs) auto

lemma find_cong_set: "(\<And>x. x \<in> set xs \<Longrightarrow> P x = Q x) \<Longrightarrow> find P xs = find Q xs"
  by (induction xs) auto

lemma read_key_ent_of:
  "read_key (map ent_of recs) (encodeUint64 T) (encodeKey ks k) =
     map_option (\<lambda>r. (kr_Data r, encodeUint64 (ka_Timestamp (kr_Address r))))
       (find (\<lambda>r. ka_Keyspace (kr_Address r) = ks \<and> ka_Key (kr_Address r) = k \<and> latest recs T r) recs)"
proof -
  have "(\<lambda>e. fst e = encodeKey ks k \<and> newest (map ent_of recs) (encodeUint64 T) e) \<circ> ent_of =
      (\<lambda>r. ka_Keyspace (kr_Address r) = ks \<and> ka_Key (kr_Address r) = k \<and> latest recs T r)"
    by (rule ext) (simp, simp add: ent_of_def encodeKey_inj)
  then show ?thesis by (simp add: read_key_def find_map option.map_comp) (simp add: o_def ent_of_def)
qed

text \<open>Of the latest versions of a key there is only one, so looking for a live one can stop at it.\<close>

lemma find_latest_live:
  assumes "recs_sorted recs"
  defines "K \<equiv> \<lambda>ks k r. ka_Keyspace (kr_Address r) = ks \<and> ka_Key (kr_Address r) = k"
  shows "find (\<lambda>r. K ks k r \<and> latest recs T r \<and> live r) recs =
    (case find (\<lambda>r. K ks k r \<and> latest recs T r) recs of
       None \<Rightarrow> None | Some r \<Rightarrow> if live r then Some r else None)"
proof (cases "find (\<lambda>r. K ks k r \<and> latest recs T r) recs")
  case None
  then have "find (\<lambda>r. K ks k r \<and> latest recs T r \<and> live r) recs = None"
    by (auto simp: find_None_iff)
  with None show ?thesis by simp
next
  case (Some r)
  then have r: "r \<in> set recs" "K ks k r" "latest recs T r" by (auto simp: find_Some_iff)
  have uniq: "q = r" if "q \<in> set recs" "K ks k q" "latest recs T q" for q
  proof -
    have "ka_Timestamp (kr_Address q) = ka_Timestamp (kr_Address r)"
      using that r by (intro antisym) (auto simp: latest_def same_key_def K_def)
    then have "kr_Address q = kr_Address r" using that r by (simp add: K_def kv_address_eq_iff)
    then show ?thesis using ac.sorted_by_distinct [OF assms(1)] that(1) r(1)
      by (meson distinct_map inj_on_def)
  qed
  show ?thesis
  proof (cases "live r")
    case True
    have "find (\<lambda>r. K ks k r \<and> latest recs T r \<and> live r) recs = find (\<lambda>r. K ks k r \<and> latest recs T r) recs"
      by (rule find_cong_set) (use uniq True in auto)
    with Some True show ?thesis by simp
  next
    case False
    then have "find (\<lambda>r. K ks k r \<and> latest recs T r \<and> live r) recs = None"
      using uniq by (auto simp: find_None_iff)
    with Some False show ?thesis by simp
  qed
qed


section \<open>Reads under the laws\<close>

definition user_records :: "entry list \<Rightarrow> kv_record list" where
  "user_records es = filter user_record (map rec_of es)"

lemma view_get_read_key:
  assumes "entries_ok es" "\<forall>e \<in> set es. wf_entry e" "user_address a" "encoded (user_records es)"
  shows "view_get (user_records es) ts a =
    (case read_key es (encodeUint64 (eff_ts ts)) (rocksMVCC_encodeKey a) of
       None \<Rightarrow> None
     | Some (d, t) \<Rightarrow> if d = [] \<or> Tombstone (last d) then None
         else Some \<lparr>mr_Address = a, mr_Timestamp = the (assert2 (decodeUint64 t)), mr_Value = butlast d, mr_Flags = last d\<rparr>)"
proof -
  let ?recs = "map rec_of es" and ?T = "eff_ts ts"
  let ?K = "\<lambda>r. ka_Keyspace (kr_Address r) = ma_Keyspace a \<and> ka_Key (kr_Address r) = ma_Key a"
  have es: "es = map ent_of ?recs" using assms(2) by (rule wf_entries_of)
  have srt: "recs_sorted ?recs" using assms(1) es sorted_ent_of by (metis entries_ok_def)
  have "find (\<lambda>r. ?K r \<and> latest (user_records es) ?T r \<and> live r) (user_records es) =
      find (\<lambda>r. ?K r \<and> latest (user_records es) ?T r \<and> live r) ?recs"
    unfolding user_records_def
    by (rule find_filter) (use assms(3) in \<open>auto simp: user_record_def user_address_def\<close>)
  also have "\<dots> = find (\<lambda>r. ?K r \<and> latest ?recs ?T r \<and> live r) ?recs"
    by (rule find_cong_set)
      (use assms(3) latest_user in \<open>auto simp: user_records_def user_record_def user_address_def\<close>)
  also have "\<dots> = (case find (\<lambda>r. ?K r \<and> latest ?recs ?T r) ?recs of
       None \<Rightarrow> None | Some r \<Rightarrow> if live r then Some r else None)"
    using find_latest_live [OF srt, of "ma_Keyspace a" "ma_Key a" ?T] by simp
  finally have 1: "view_get (user_records es) ts a = map_option mv_of
      (case find (\<lambda>r. ?K r \<and> latest ?recs ?T r) ?recs of
         None \<Rightarrow> None | Some r \<Rightarrow> if live r then Some r else None)"
    by (simp add: view_get_def)
  have 2: "read_key es (encodeUint64 ?T) (rocksMVCC_encodeKey a) =
      map_option (\<lambda>r. (kr_Data r, encodeUint64 (ka_Timestamp (kr_Address r))))
        (find (\<lambda>r. ?K r \<and> latest ?recs ?T r) ?recs)"
    using read_key_ent_of [of ?recs ?T "ma_Keyspace a" "ma_Key a"] es by (simp add: rocksMVCC_encodeKey_def)
  show ?thesis
  proof (cases "find (\<lambda>r. ?K r \<and> latest ?recs ?T r) ?recs")
    case (Some r)
    then have "?K r" by (auto simp: find_Some_iff)
    with Some show ?thesis unfolding 1 2
      by (simp add: live_def mv_of_def mk_mv_record_def mv_NewAddress_def assert2_def)
  qed (simp add: 1 2)
qed

lemma read_key_user_data:
  assumes "\<forall>e \<in> set es. wf_entry e" "user_address a" "encoded (user_records es)"
    and "read_key es T (rocksMVCC_encodeKey a) = Some (d, t)"
  shows "d \<noteq> [] \<and> length t = 8"
proof -
  obtain e where "find (\<lambda>e. fst e = rocksMVCC_encodeKey a \<and> newest es T e) es = Some e" "snd e = (t, d)"
    using assms(4) by (auto simp: read_key_def)
  then have e: "e \<in> set es" "fst e = rocksMVCC_encodeKey a" "snd e = (t, d)"
    by (auto simp: find_Some_iff)
  have w: "wf_entry e" using assms(1) e(1) by blast
  have "user_record (rec_of e)"
    using e(2) assms(2) by (simp add: user_record_def rec_of_def rocksMVCC_encodeKey_def user_address_def
      kv_NewAddress_def)
  with e(1) have "rec_of e \<in> set (user_records es)" by (simp add: user_records_def)
  with assms(3) have "kr_Data (rec_of e) \<noteq> []" by (simp add: encoded_def)
  with w e(3) show ?thesis by (simp add: rec_of_def wf_entry_def)
qed

lemma rocks_get_loop_view:
  assumes "entries_ok es" "\<forall>e \<in> set es. wf_entry e" "encoded (user_records es)" "list_all user_address addrs"
  shows "rocks_get_loop addrs (map (read_key es (encodeUint64 (eff_ts ts)) \<circ> rocksMVCC_encodeKey) addrs) =
    Some (map (view_get (user_records es) ts) addrs)"
  using assms(4)
proof (induction addrs)
  case (Cons a addrs)
  then have a: "user_address a" by simp
  note v = view_get_read_key [OF assms(1,2) a assms(3), of ts]
    and d = read_key_user_data [OF assms(2) a assms(3), of "encodeUint64 (eff_ts ts)"]
  show ?case
  proof (cases "read_key es (encodeUint64 (eff_ts ts)) (rocksMVCC_encodeKey a)")
    case None
    with Cons v show ?thesis by simp
  next
    case (Some p)
    obtain data t where p: "p = (data, t)" by fastforce
    with d Some have dt: "data \<noteq> []" "length t = 8" by auto
    obtain n where "decodeUint64 t = Inr n" using encode_decodeUint64 dt(2) by blast
    with Cons v Some p dt show ?thesis by (simp add: DecodeData_Some assert2_def)
  qed
qed simp

lemma rocks_range_loop_recs:
  assumes "\<forall>r \<in> set recs. kr_Data r \<noteq> []"
  shows "rocks_range_loop ie (map ent_of recs) =
    map (Item \<circ> mv_of) (filter live recs) @ (case ie of None \<Rightarrow> [] | Some e \<Rightarrow> [ItemErr e])"
  using assms
proof (induction recs)
  case (Cons r recs)
  have "rocks_range_loop ie (ent_of r # es) = (if live r then Item (mv_of r) # rocks_range_loop ie es
      else rocks_range_loop ie es)" if "kr_Data r \<noteq> []" for es
    using that by (simp add: ent_of_def DecodeData_Some live_def rocksMVCC_decodeAddress_def assert2_def
      mv_of_def mk_mv_record_def)
  with Cons show ?case by simp
qed (simp split: option.splits)

lemma filter_take: "\<exists>k. filter P (take n xs) = take k (filter P xs)"
  by (metis append_eq_conv_conj append_take_drop_id filter_append)

lemma read_range_recs:
  assumes "\<forall>e \<in> set es. wf_entry e" "user_address s" "ma_Keyspace e = ma_Keyspace s"
  shows "read_range es (encodeUint64 T) (rocksMVCC_encodeKey s) (rocksMVCC_encodeKey e) =
    map ent_of (filter (\<lambda>r. key_in_range s e r \<and> latest (user_records es) T r) (user_records es))"
proof -
  let ?recs = "map rec_of es" and ?k = "\<lambda>r. encodeKey (ka_Keyspace (kr_Address r)) (ka_Key (kr_Address r))"
  have es: "es = map ent_of ?recs" using assms(1) by (rule wf_entries_of)
  have rng: "bytes_compare (rocksMVCC_encodeKey s) (?k r) \<le> 0 \<and> bytes_compare (?k r) (rocksMVCC_encodeKey e) < 0 \<longleftrightarrow>
      key_in_range s e r" for r
    using assms(3)
    by (auto simp: rocksMVCC_encodeKey_def bc.cmp_le_iff encodeKey_inj bytes_compare_encodeKey key_in_range_def)
  have "read_range (map ent_of ?recs) (encodeUint64 T) (rocksMVCC_encodeKey s) (rocksMVCC_encodeKey e) =
      map ent_of (filter (\<lambda>r. key_in_range s e r \<and> latest ?recs T r) ?recs)"
  proof -
    have "(\<lambda>x. bytes_compare (rocksMVCC_encodeKey s) (fst x) \<le> 0 \<and>
        bytes_compare (fst x) (rocksMVCC_encodeKey e) < 0 \<and> newest (map ent_of ?recs) (encodeUint64 T) x) \<circ> ent_of =
      (\<lambda>r. key_in_range s e r \<and> latest ?recs T r)"
    proof (rule ext)
      fix r
      have "fst (ent_of r) = ?k r" by (simp add: ent_of_def)
      then show "((\<lambda>x. bytes_compare (rocksMVCC_encodeKey s) (fst x) \<le> 0 \<and>
        bytes_compare (fst x) (rocksMVCC_encodeKey e) < 0 \<and> newest (map ent_of ?recs) (encodeUint64 T) x) \<circ> ent_of) r =
        (key_in_range s e r \<and> latest ?recs T r)"
        unfolding rng [of r, symmetric] by (simp add: newest_ent_of del: map_map)
    qed
    then show ?thesis by (simp only: read_range_def filter_map)
  qed
  moreover have "filter (\<lambda>r. key_in_range s e r \<and> latest ?recs T r) ?recs =
      filter (\<lambda>r. key_in_range s e r \<and> latest (user_records es) T r) (user_records es)"
    unfolding user_records_def filter_filter
    by (rule filter_cong [OF refl])
      (use assms(2) latest_user in \<open>auto simp: user_record_def key_in_range_def user_address_def\<close>)
  ultimately show ?thesis using es by simp
qed

lemma rocks_range_loop_view:
  assumes "\<forall>e \<in> set es. wf_entry e" "user_address s" "ma_Keyspace e = ma_Keyspace s"
    and "encoded (user_records es)"
    and "xs = (if ie = None then id else take n) (read_range es (encodeUint64 (eff_ts ts)) (rocksMVCC_encodeKey s) (rocksMVCC_encodeKey e))"
  shows "yields (rocks_range_loop ie xs) (view_range (user_records es) ts s e)"
proof -
  let ?L = "filter (\<lambda>r. key_in_range s e r \<and> latest (user_records es) (eff_ts ts) r) (user_records es)"
  have v: "view_range (user_records es) ts s e = map mv_of (filter live ?L)"
    by (simp add: view_range_def conj_ac filter_filter)
  obtain L where L: "xs = map ent_of L" "set L \<subseteq> set ?L" "L = (if ie = None then ?L else take n ?L)"
    using assms(5) read_range_recs [OF assms(1-3)]
    by (cases "ie = None") (auto simp: take_map intro!: that dest: in_set_takeD)
  have "\<forall>r \<in> set L. kr_Data r \<noteq> []" using L(2) assms(4) by (auto simp: encoded_def)
  note loop = rocks_range_loop_recs [OF this, of ie]
  show ?thesis
  proof (cases ie)
    case None
    with loop L v show ?thesis by (simp add: yields_def)
  next
    case (Some x)
    obtain k where "filter live (take n ?L) = take k (filter live ?L)" using filter_take by blast
    with loop L v Some show ?thesis unfolding yields_def
      by (intro disjI2 exI [of _ k] exI [of _ x]) (simp add: take_map)
  qed
qed


section \<open>Writes under the laws\<close>

definition rec_kt :: "kv_record \<Rightarrow> bytes \<times> bytes" where
  "rec_kt r = (fst (ent_of r), fst (snd (ent_of r)))"

definition put_map :: "kv_record list \<Rightarrow> (bytes \<times> bytes \<Rightarrow> bytes option) \<Rightarrow> bytes \<times> bytes \<Rightarrow> bytes option" where
  "put_map rs m = fold (\<lambda>r m. m(rec_kt r \<mapsto> kr_Data r)) rs m"

lemma rec_kt_eq [simp]: "rec_kt a = rec_kt b \<longleftrightarrow> kr_Address a = kr_Address b"
  by (auto simp: rec_kt_def ent_of_def encodeKey_inj kv_address_eq_iff)

lemma put_map_other: "x \<notin> rec_kt ` set rs \<Longrightarrow> put_map rs m x = m x"
  unfolding put_map_def by (induction rs arbitrary: m) auto

lemma put_map_last: "r \<in> set (keep_last rs) \<Longrightarrow> put_map rs m (rec_kt r) = Some (kr_Data r)"
proof (induction rs arbitrary: m)
  case (Cons q rs)
  show ?case
  proof (cases "r \<in> set (keep_last rs)")
    case True
    then show ?thesis using Cons.IH by (simp add: put_map_def)
  next
    case False
    then have "r = q" "kr_Address q \<notin> kr_Address ` set rs"
      using Cons.prems by (auto split: if_splits)
    then have "rec_kt q \<notin> rec_kt ` set rs" by (auto simp: image_iff)
    from put_map_other [OF this] show ?thesis using \<open>r = q\<close> by (simp add: put_map_def)
  qed
qed simp

lemma put_map_rec:
  "put_map rs m (rec_kt r) = Some (kr_Data r) \<longleftrightarrow>
     r \<in> set (keep_last rs) \<or> kr_Address r \<notin> kr_Address ` set rs \<and> m (rec_kt r) = Some (kr_Data r)"
proof (cases "kr_Address r \<in> kr_Address ` set rs")
  case True
  then obtain q where q: "q \<in> set (keep_last rs)" "kr_Address q = kr_Address r"
    using keep_last_addrs [of rs] by (metis imageE)
  moreover from this(2) have "rec_kt q = rec_kt r" by simp
  ultimately have "put_map rs m (rec_kt r) = Some (kr_Data q)" using put_map_last [of q rs m] by metis
  moreover have "r \<in> set (keep_last rs) \<longleftrightarrow> r = q"
    using q keep_last_distinct [of rs] by (metis distinct_map inj_onD)
  ultimately show ?thesis using True q(2) by (cases r; cases q) auto
next
  case False
  then have "rec_kt r \<notin> rec_kt ` set rs" by (auto simp: image_iff)
  moreover have "r \<notin> set (keep_last rs)" using False keep_last_subset by fastforce
  ultimately show ?thesis using False by (simp add: put_map_other)
qed

lemma apply_ops_puts:
  "apply_ops cf (map (\<lambda>r. PutCFWithTS cf (rocksKV_encodeKey (kr_Address r))
       (encodeUint64 (ka_Timestamp (kr_Address r))) (kr_Data r)) rs @ ops) m = apply_ops cf ops (put_map rs m)"
  by (induction rs arbitrary: m) (auto simp: put_map_def rec_kt_def ent_of_def rocksKV_encodeKey_def)

lemma ent_less_irrefl: "\<not> ent_less (k, t, v) (k, t, w)"
  by (auto simp: ent_less_def compareWithTs_def compareTs_def assert2_def bytes_compare_eq Let_def
      split: option.splits sum.splits bind_splits)

lemma ent_map_iff:
  assumes "entries_ok es"
  shows "ent_map es (k, t) = Some v \<longleftrightarrow> (k, t, v) \<in> set es"
proof -
  have "distinct (map fst (map (\<lambda>(k, t, v). ((k, t), v)) es))"
    using assms ent_less_irrefl unfolding entries_ok_def
  proof (induction es)
    case (Cons e es)
    obtain k t v where e: "e = (k, t, v)" by (cases e)
    have "(k, t, w) \<notin> set es" for w using Cons.prems ent_less_irrefl e by auto
    with Cons e show ?case by force
  qed simp
  then have "ent_map es (k, t) = Some v \<longleftrightarrow> ((k, t), v) \<in> set (map (\<lambda>(k, t, v). ((k, t), v)) es)"
    unfolding ent_map_def by (rule map_of_eq_Some_iff)
  then show ?thesis by (force simp: image_iff)
qed

text \<open>
  What the back end keeps of a column family: keys start with a keyspace, user data carry a flag
  byte, and the applied index has the single version of timestamp 0.
\<close>

definition family_ok :: "entry list \<Rightarrow> bool" where
  "family_ok es \<longleftrightarrow> (\<forall>e \<in> set es. wf_entry e) \<and> encoded (user_records es) \<and>
     (\<forall>t v. (keyIndex, t, v) \<in> set es \<longrightarrow> t = minUint64 \<and> length v = 8)"

definition index_map :: "u64 \<Rightarrow> (bytes \<times> bytes \<Rightarrow> bytes option) \<Rightarrow> bytes \<times> bytes \<Rightarrow> bytes option" where
  "index_map index m = (if index = 0 then m else m((keyIndex, minUint64) \<mapsto>
     encodeUint64 (max index (case m (keyIndex, minUint64) of
        None \<Rightarrow> 0 | Some v \<Rightarrow> the (assert2 (decodeUint64 v))))))"

lemma rec_kt_user: "user_record r \<Longrightarrow> fst (rec_kt r) \<noteq> keyIndex"
  by (auto simp: rec_kt_def ent_of_def keyIndex_def encodeKey_inj user_record_def ReservedDB_def FirstUserKeyspace_def)

lemma apply_rocks_batch:
  assumes "entries_ok es" "family_ok es" "\<forall>r \<in> set rs. user_record r"
  shows "apply_ops cf (rocks_batch cf index rs) (ent_map es) = Some (index_map index (put_map rs (ent_map es)))"
proof -
  let ?m = "put_map rs (ent_map es)"
  have "(keyIndex, minUint64) \<notin> rec_kt ` set rs" using assms(3) rec_kt_user by (metis fst_conv imageE)
  then have m: "?m (keyIndex, minUint64) = ent_map es (keyIndex, minUint64)" by (rule put_map_other)
  have p: "has_prefix keyIndex keyIndex" by (simp add: has_prefix_def)
  show ?thesis
  proof (cases "?m (keyIndex, minUint64)")
    case None
    then show ?thesis using p
      by (simp add: rocks_batch_def apply_ops_puts index_map_def FullMerge_def mergeMaxIndex_def bytes_or_nil_def
          word_gt_0 max.commute)
  next
    case (Some v)
    then have "length v = 8" using assms(1,2) m by (auto simp: ent_map_iff family_ok_def)
    then obtain n where "v = encodeUint64 n" using encode_decodeUint64 by blast
    moreover have "length (encodeUint64 n) > 0" by simp
    ultimately show ?thesis using p Some
      by (simp add: rocks_batch_def apply_ops_puts index_map_def FullMerge_def mergeMaxIndex_def bytes_or_nil_def
          word_gt_0 assert2_def max.commute)
  qed
qed

lemma user_records_iff:
  assumes "entries_ok es" "\<forall>e \<in> set es. wf_entry e"
  shows "r \<in> set (user_records es) \<longleftrightarrow> user_record r \<and> ent_map es (rec_kt r) = Some (kr_Data r)"
proof -
  have "r \<in> set (map rec_of es) \<longleftrightarrow> ent_of r \<in> set es"
  proof
    assume "ent_of r \<in> set es"
    then have "rec_of (ent_of r) \<in> set (map rec_of es)" unfolding list.set_map by (rule imageI)
    then show "r \<in> set (map rec_of es)" by (simp only: rec_of_ent_of)
  qed (use assms(2) in \<open>auto simp: ent_of_rec_of\<close>)
  also have "\<dots> \<longleftrightarrow> ent_map es (rec_kt r) = Some (kr_Data r)"
    using ent_map_iff [OF assms(1), of "fst (ent_of r)" "fst (snd (ent_of r))" "kr_Data r"]
    by (simp add: rec_kt_def ent_of_def)
  finally show ?thesis by (auto simp: user_records_def)
qed

lemma user_records_sorted:
  assumes "entries_ok es" "\<forall>e \<in> set es. wf_entry e"
  shows "recs_sorted (user_records es)"
proof -
  have "sorted_wrt ent_less (map ent_of (map rec_of es))"
    using assms(1) wf_entries_of [OF assms(2)] by (simp add: entries_ok_def)
  then have "recs_sorted (map rec_of es)" by (simp only: sorted_ent_of)
  then show ?thesis unfolding user_records_def by (rule sorted_wrt_filter)
qed

lemma put_family:
  assumes "entries_ok es" "family_ok es" "\<forall>r \<in> set rs. user_record r" "encoded rs"
    and "entries_ok es'" "ent_map es' = index_map index (put_map rs (ent_map es))"
  shows "family_ok es' \<and> user_records es' = put_records (user_records es) rs"
proof -
  have cases: "(\<exists>r \<in> set rs. e = ent_of r) \<or> (\<exists>n. e = (keyIndex, minUint64, encodeUint64 n)) \<or> e \<in> set es"
    if e: "e \<in> set es'" for e
  proof -
    obtain k t v where ktv: "e = (k, t, v)" by (cases e)
    with e have "index_map index (put_map rs (ent_map es)) (k, t) = Some v"
      using ent_map_iff [OF assms(5)] assms(6) by simp
    then consider "\<exists>n. e = (keyIndex, minUint64, encodeUint64 n)" | "put_map rs (ent_map es) (k, t) = Some v"
      using ktv by (auto simp: index_map_def split: if_splits)
    then show ?thesis
    proof cases
      case 2
      show ?thesis
      proof (cases "(k, t) \<in> rec_kt ` set rs")
        case True
        then obtain r where r: "r \<in> set rs" "(k, t) = rec_kt r" by blast
        then obtain q where q: "q \<in> set (keep_last rs)" "kr_Address q = kr_Address r"
          using keep_last_addrs [of rs] by (metis image_eqI imageE)
        then have "(k, t) = rec_kt q" using r by simp
        with put_map_last [OF q(1), of "ent_map es"] 2 have "v = kr_Data q" by simp
        with \<open>(k, t) = rec_kt q\<close> ktv have "e = ent_of q" by (simp add: rec_kt_def ent_of_def)
        then show ?thesis using q(1) keep_last_subset by blast
      next
        case False
        with 2 put_map_other have "ent_map es (k, t) = Some v" by metis
        then show ?thesis using ent_map_iff [OF assms(1)] ktv by simp
      qed
    qed blast
  qed
  have wf: "\<forall>e \<in> set es'. wf_entry e"
  proof
    fix e assume "e \<in> set es'"
    from cases [OF this] show "wf_entry e"
      using assms(2) by (auto simp: family_ok_def wf_entry_def keyIndex_def encodeKey_def minUint64_def)
        (auto simp: ent_of_def encodeKey_def)
  qed
  have wf0: "\<forall>e \<in> set es. wf_entry e" using assms(2) by (simp add: family_ok_def)
  have idx: "t = minUint64 \<and> length v = 8" if "(keyIndex, t, v) \<in> set es'" for t v
  proof -
    have "(keyIndex, t, v) \<noteq> ent_of r" if "r \<in> set rs" for r
      using that assms(3) rec_kt_user [of r] by (metis fst_conv rec_kt_def)
    with cases [OF that] assms(2) show ?thesis by (auto simp: family_ok_def)
  qed
  have "user_records es' = put_records (user_records es) rs"
  proof (rule ac.sorted_by_unique)
    show "recs_sorted (user_records es')" using user_records_sorted [OF assms(5) wf] .
    show "recs_sorted (put_records (user_records es) rs)"
      using put_records_sorted [OF user_records_sorted [OF assms(1) wf0]] .
    have "r \<in> set (user_records es') \<longleftrightarrow> r \<in> set (put_records (user_records es) rs)" for r
    proof (cases "user_record r")
      case True
      then have "ent_map es' (rec_kt r) = put_map rs (ent_map es) (rec_kt r)"
        using rec_kt_user [of r] assms(6) by (auto simp: index_map_def)
      then show ?thesis using True put_map_rec [of rs "ent_map es" r]
        by (auto simp: user_records_iff [OF assms(5) wf] user_records_iff [OF assms(1) wf0] set_put_records)
    next
      case False
      then have "r \<notin> set (keep_last rs)" using assms(3) keep_last_subset by blast
      with False show ?thesis by (auto simp: user_records_def set_put_records)
    qed
    then show "set (user_records es') = set (put_records (user_records es) rs)" by blast
  qed
  moreover have "encoded (put_records (user_records es) rs)"
    using put_records_encoded assms(2,4) by (simp add: family_ok_def)
  ultimately show ?thesis using wf idx by (auto simp: family_ok_def)
qed


section \<open>The back end as a multi-version store\<close>

definition rocks_contents ::
    "('g \<Rightarrow> 'cf \<Rightarrow> entry list option) \<Rightarrow> ('g, 'cf) rocksdb \<Rightarrow> u32 \<Rightarrow> kv_record list option" where
  "rocks_contents raw r pid = (case getCF r pid of
       None \<Rightarrow> None | Some cf \<Rightarrow> map_option user_records (raw (rk_db r) cf))"

definition rocks_inv ::
    "('g \<Rightarrow> 'cf \<Rightarrow> entry list option) \<Rightarrow> ('g \<Rightarrow> bool) \<Rightarrow> ('g, 'cf) rocksdb \<Rightarrow> bool" where
  "rocks_inv raw I r \<longleftrightarrow> I (rk_db r) \<and>
     (\<forall>p q cf. getCF r p = Some cf \<longrightarrow> getCF r q = Some cf \<longrightarrow> p = q) \<and>
     (\<forall>p cf. getCF r p = Some cf \<longrightarrow> (\<exists>es. raw (rk_db r) cf = Some es \<and> family_ok es))"

lemma getCF_update_db [simp]: "getCF (r\<lparr>rk_db := db\<rparr>) = getCF r"
  by (simp add: getCF_def fun_eq_iff)

lemma rocks_inv_same_raw:
  "rocks_inv raw I r \<Longrightarrow> I db \<Longrightarrow> raw db = raw (rk_db r) \<Longrightarrow>
     rocks_inv raw I (r\<lparr>rk_db := db\<rparr>) \<and> rocks_contents raw (r\<lparr>rk_db := db\<rparr>) = rocks_contents raw r"
  by (auto simp: rocks_inv_def rocks_contents_def fun_eq_iff split: option.splits)

lemma rocks_contents_Some:
  assumes "rocks_inv raw I r" "rocks_contents raw r pid = Some recs"
  obtains cf es where "getCF r pid = Some cf" "raw (rk_db r) cf = Some es" "family_ok es" "recs = user_records es"
  using assms by (fastforce simp: rocks_inv_def rocks_contents_def split: option.splits)

context grocks
begin

lemma rocks_Get_view:
  assumes "rocks_inv raw inv r" "rocks_contents raw r pid = Some recs" "list_all user_address addrs"
  shows "\<exists>x r'. rocksMVCC_Get ops r pid ts addrs = Some (x, r') \<and> rocks_inv raw inv r' \<and>
    rocks_contents raw r' = rocks_contents raw r \<and> (\<forall>rs. x = Inr rs \<longrightarrow> rs = map (view_get recs ts) addrs)"
proof -
  obtain cf es where cf: "getCF r pid = Some cf" "raw (rk_db r) cf = Some es" "family_ok es" "recs = user_records es"
    using rocks_contents_Some [OF assms(1,2)] .
  have i: "inv (rk_db r)" using assms(1) by (simp add: rocks_inv_def)
  let ?ro = "makeReadOptionsMVCC\<lparr>ro_Timestamp := encodeUint64 (eff_ts ts)\<rparr>"
  obtain z db where z: "g_MultiGetCFWithTS ops (rk_db r) ?ro cf (map rocksMVCC_encodeKey addrs) = (z, db)"
    by fastforce
  from multi_get_law [OF i cf(2) z] have law: "inv db" "raw db = raw (rk_db r)"
    "\<forall>ds. z = Inr ds \<longrightarrow> ds = map (read_key es (encodeUint64 (eff_ts ts)) \<circ> rocksMVCC_encodeKey) addrs"
    by (auto simp: makeReadOptionsMVCC_def)
  have loop: "rocks_get_loop addrs (map (read_key es (encodeUint64 (eff_ts ts)) \<circ> rocksMVCC_encodeKey) addrs) =
      Some (map (view_get recs ts) addrs)"
    using rocks_get_loop_view [OF raw_ok [OF i cf(2)]] cf(3,4) assms(3) by (simp add: family_ok_def)
  show ?thesis
    using z law(3) loop cf(1) rocks_inv_same_raw [OF assms(1) law(1,2)]
    by (cases z) (simp_all add: rocksMVCC_Get_def)
qed

lemma rocks_GetRange_view:
  assumes "rocks_inv raw inv r" "rocks_contents raw r pid = Some recs" "user_address s" "ma_Keyspace e = ma_Keyspace s"
  shows "\<exists>it r'. rocksMVCC_GetRange ops r pid ts s e = Some (Inr it, r') \<and> rocks_inv raw inv r' \<and>
    rocks_contents raw r' = rocks_contents raw r \<and> yields it (view_range recs ts s e)"
proof -
  obtain cf es where cf: "getCF r pid = Some cf" "raw (rk_db r) cf = Some es" "family_ok es" "recs = user_records es"
    using rocks_contents_Some [OF assms(1,2)] .
  have i: "inv (rk_db r)" using assms(1) by (simp add: rocks_inv_def)
  let ?ro = "makeReadOptionsMVCC\<lparr>ro_Timestamp := encodeUint64 (eff_ts ts), ro_UpperBound := Some (rocksMVCC_encodeKey e)\<rparr>"
  obtain xs ie db where z: "g_Iterate ops (rk_db r) ?ro cf (rocksMVCC_encodeKey s) = ((xs, ie), db)"
    by (metis prod.exhaust)
  have "ro_IterStartTimestamp ?ro = None" "ro_UpperBound ?ro = Some (rocksMVCC_encodeKey e)" "\<not> ro_PersistedTier ?ro"
    by (simp_all add: makeReadOptionsMVCC_def)
  from iterate_law [OF i cf(2) this z] obtain n where law: "inv db" "raw db = raw (rk_db r)"
    "xs = (if ie = None then id else take n)
       (read_range es (encodeUint64 (eff_ts ts)) (rocksMVCC_encodeKey s) (rocksMVCC_encodeKey e))"
    by auto
  have "yields (rocks_range_loop ie xs) (view_range recs ts s e)"
    using rocks_range_loop_view [OF _ assms(3,4) _ law(3)] cf(3,4) by (simp add: family_ok_def)
  then show ?thesis
    using z cf(1) rocks_inv_same_raw [OF assms(1) law(1,2)] by (simp add: rocksMVCC_GetRange_def)
qed

lemma rocks_Put_records:
  assumes "rocks_inv raw inv r" "rocks_contents raw r pid = Some recs" "\<forall>q \<in> set rs. user_record q" "encoded rs"
  shows "\<exists>x r'. rocksKV_Put ops r pid index rs = (x, r') \<and> rocks_inv raw inv r' \<and>
    (\<forall>p. p \<noteq> pid \<longrightarrow> rocks_contents raw r' p = rocks_contents raw r p) \<and>
    rocks_contents raw r' pid = Some (if x = None then put_records recs rs else recs) \<and>
    (x = None \<longrightarrow> (\<exists>cf es es'. getCF r pid = Some cf \<and> getCF r' = getCF r \<and> raw (rk_db r) cf = Some es \<and>
       raw (rk_db r') = (raw (rk_db r))(cf \<mapsto> es') \<and> ent_map es' = index_map index (put_map rs (ent_map es))))"
proof -
  obtain cf es where cf: "getCF r pid = Some cf" "raw (rk_db r) cf = Some es" "family_ok es" "recs = user_records es"
    using rocks_contents_Some [OF assms(1,2)] .
  have i: "inv (rk_db r)" using assms(1) by (simp add: rocks_inv_def)
  note ok = raw_ok [OF i cf(2)]
  let ?b = "rocks_batch cf index rs" and ?m = "index_map index (put_map rs (ent_map es))"
  obtain x db where x: "g_Write ops (rk_db r) ?b = (x, db)" by fastforce
  have ks: "\<forall>p \<in> set ?b. fst (op_key p) = cf \<and> length (snd (snd (op_key p))) = 8"
    by (auto simp: rocks_batch_def minUint64_def)
  note law = write_law [OF i cf(2) ks apply_rocks_batch [OF ok cf(3) assms(3)] x]
  show ?thesis
  proof (cases x)
    case None
    then obtain es' where es': "raw db = (raw (rk_db r))(cf \<mapsto> es')" "ent_map es' = ?m" "inv db" using law by auto
    then have "entries_ok es'" using raw_ok [of db cf es'] by simp
    from put_family [OF ok cf(3) assms(3,4) this es'(2)] have fam: "family_ok es'"
      "user_records es' = put_records recs rs" using cf(4) by simp_all
    have "rocks_inv raw inv (r\<lparr>rk_db := db\<rparr>)"
      using assms(1) es' fam(1) by (auto simp: rocks_inv_def)
    moreover have "getCF r p \<noteq> Some cf" if "p \<noteq> pid" for p
      using that assms(1) cf(1) by (auto simp: rocks_inv_def)
    then have "\<forall>p. p \<noteq> pid \<longrightarrow> rocks_contents raw (r\<lparr>rk_db := db\<rparr>) p = rocks_contents raw r p"
      using es'(1) by (auto simp: rocks_contents_def split: option.splits)
    ultimately show ?thesis using None x cf es' fam(2) by (auto simp: rocksKV_Put_def rocks_contents_def)
  next
    case (Some e)
    with law have "inv db" "raw db = raw (rk_db r)" by simp_all
    from rocks_inv_same_raw [OF assms(1) this] show ?thesis
      using Some x cf(1) assms(2) by (simp add: rocksKV_Put_def)
  qed
qed

end

lemma encoded_ToKVRecord [simp]: "encoded (map ToKVRecord rs)"
  by (simp add: encoded_def ToKVRecord_def EncodeData_def)

sublocale grocks \<subseteq> rocks: mvcc_db "rocksMVCC_ops ops" "rocks_contents raw" "rocks_inv raw inv"
proof unfold_locales
  fix db pid recs
  assume a: "rocks_inv raw inv db" "rocks_contents raw db pid = Some recs"
  then obtain cf es where cf: "raw (rk_db db) cf = Some es" "family_ok es" "recs = user_records es"
    by (rule rocks_contents_Some)
  have "entries_ok es" using raw_ok cf(1) a(1) by (auto simp: rocks_inv_def)
  then show "recs_sorted recs \<and> encoded recs"
    using cf user_records_sorted by (simp add: family_ok_def)
next
  fix db pid recs and s e :: mv_address and ts
  assume a: "rocks_inv raw inv db" "rocks_contents raw db pid = Some recs" "user_address s"
    "ma_Keyspace e = ma_Keyspace s" "ma_Key s \<noteq> []"
  then obtain it r' where g: "rocksMVCC_GetRange ops db pid ts s e = Some (Inr it, r')" "rocks_inv raw inv r'"
    "rocks_contents raw r' = rocks_contents raw db" "yields it (view_range recs ts s e)"
    using rocks_GetRange_view [OF a(1-4), of ts] by blast
  then show "\<exists>x db'. mv_GetRange (rocksMVCC_ops ops) db pid ts s e = Some (x, db') \<and> rocks_inv raw inv db' \<and>
        rocks_contents raw db' = rocks_contents raw db \<and> (\<forall>it. x = Inr it \<longrightarrow> yields it (view_range recs ts s e))"
    by (simp add: rocksMVCC_ops_def)
  have "\<exists>b. first_yield it = Some b \<and> (\<not> b \<longrightarrow> view_range recs ts s e = [])"
    using g(4) by (auto simp: first_yield_def yields_def split: list.splits item.splits)
      (metis append_eq_Cons_conv item.distinct(1,3,5) list.map_disc_iff list.sel(1) list.distinct(1) map_eq_Cons_D)+
  with g show "\<exists>x db'. mv_ExistsInRange (rocksMVCC_ops ops) db pid ts s e = Some (x, db') \<and> rocks_inv raw inv db' \<and>
        rocks_contents raw db' = rocks_contents raw db \<and> (x = Inr False \<longrightarrow> view_range recs ts s e = [])"
    by (auto simp: rocksMVCC_ops_def rocksMVCC_ExistsInRange_def)
next
  fix db pid recs addrs ts
  assume a: "rocks_inv raw inv db" "rocks_contents raw db pid = Some recs" "list_all user_address addrs"
  from rocks_Get_view [OF a] show "\<exists>x db'. mv_Get (rocksMVCC_ops ops) db pid ts addrs = Some (x, db') \<and>
      rocks_inv raw inv db' \<and> rocks_contents raw db' = rocks_contents raw db \<and>
      (\<forall>rs. x = Inr rs \<longrightarrow> rs = map (view_get recs ts) addrs)"
    by (simp add: rocksMVCC_ops_def)
next
  fix db pid recs a ts
  assume a: "rocks_inv raw inv db" "rocks_contents raw db pid = Some recs" "user_address a"
  then obtain x r' where "rocksMVCC_Get ops db pid ts [a] = Some (x, r')" "rocks_inv raw inv r'"
    "rocks_contents raw r' = rocks_contents raw db" "\<forall>rs. x = Inr rs \<longrightarrow> rs = [view_get recs ts a]"
    using rocks_Get_view [OF a(1,2), of "[a]" ts] by auto
  then show "\<exists>x db'. mv_Exists (rocksMVCC_ops ops) db pid ts a = Some (x, db') \<and> rocks_inv raw inv db' \<and>
      rocks_contents raw db' = rocks_contents raw db \<and> (\<forall>b. x = Inr b \<longrightarrow> (b \<longleftrightarrow> view_get recs ts a \<noteq> None))"
    by (cases x) (simp_all add: rocksMVCC_ops_def rocksMVCC_Exists_def)
next
  fix db pid recs and rs :: "mv_record list" and index
  assume a: "rocks_inv raw inv db" "rocks_contents raw db pid = Some recs"
    "list_all (\<lambda>r. user_address (mr_Address r)) rs"
  then have "\<forall>q \<in> set (map ToKVRecord rs). user_record q"
    by (auto simp: user_record_def ToKVRecord_def user_address_def list_all_iff)
  from rocks_Put_records [OF a(1,2) this, of index]
  show "\<exists>x db'. mv_Put (rocksMVCC_ops ops) db pid index rs = Some (x, db') \<and> rocks_inv raw inv db' \<and>
      (\<forall>p. p \<noteq> pid \<longrightarrow> rocks_contents raw db' p = rocks_contents raw db p) \<and>
      rocks_contents raw db' pid = Some (if x = None then put_records recs (map ToKVRecord rs) else recs)"
    by (auto simp: rocksMVCC_ops_def rocksMVCC_Put_def)
qed

section \<open>The applied index\<close>

definition applied_index :: "entry list \<Rightarrow> u64" where
  "applied_index es = (case ent_map es (keyIndex, minUint64) of
       None \<Rightarrow> 0 | Some v \<Rightarrow> the (assert2 (decodeUint64 v)))"

lemma maxUint64_top: "length t = 8 \<Longrightarrow> ts_le t maxUint64"
  using encode_decodeUint64 [of t] by (auto simp: maxUint64_def)

lemma read_key_index:
  assumes "entries_ok es" "family_ok es"
  shows "read_key es maxUint64 keyIndex = map_option (\<lambda>v. (v, minUint64)) (ent_map es (keyIndex, minUint64))"
proof -
  have only: "\<And>t v. (keyIndex, t, v) \<in> set es \<Longrightarrow> t = minUint64" using assms(2) by (simp add: family_ok_def)
  have new: "newest es maxUint64 (keyIndex, minUint64, v)" for v
  proof -
    have "ts_le minUint64 maxUint64" "ts_le minUint64 minUint64" by (simp_all add: minUint64_def maxUint64_def)
    then show ?thesis using only unfolding newest_def by (metis fst_conv prod.collapse snd_conv)
  qed
  show ?thesis
  proof (cases "find (\<lambda>e. fst e = keyIndex \<and> newest es maxUint64 e) es")
    case None
    then have "(keyIndex, minUint64, v) \<notin> set es" for v using new by (auto simp: find_None_iff)
    then have "ent_map es (keyIndex, minUint64) = None" using ent_map_iff [OF assms(1)] by (metis not_None_eq)
    with None show ?thesis by (simp add: read_key_def)
  next
    case (Some e)
    then have "e \<in> set es" "fst e = keyIndex" by (auto simp: find_Some_iff)
    then obtain v where "e = (keyIndex, minUint64, v)" using only by (metis prod.collapse)
    with \<open>e \<in> set es\<close> Some show ?thesis by (simp add: read_key_def ent_map_iff [OF assms(1), THEN iffD2])
  qed
qed

lemma applied_index_index_map:
  assumes "entries_ok es" "family_ok es" "\<forall>r \<in> set rs. user_record r"
    and "ent_map es' = index_map index (put_map rs (ent_map es))"
  shows "applied_index es' = max (applied_index es) index"
proof -
  have "(keyIndex, minUint64) \<notin> rec_kt ` set rs" using assms(3) rec_kt_user by (metis fst_conv imageE)
  then have "put_map rs (ent_map es) (keyIndex, minUint64) = ent_map es (keyIndex, minUint64)"
    by (rule put_map_other)
  then show ?thesis
    by (auto simp: applied_index_def assms(4) index_map_def assert2_def max.commute word_le_def split: option.splits)
qed

lemma rocks_inv_cf: "rocks_inv raw I r \<Longrightarrow> getCF r p = Some cf \<Longrightarrow> \<exists>es. raw (rk_db r) cf = Some es \<and> family_ok es"
  by (simp add: rocks_inv_def)

lemma rocks_inv_other_raw:
  assumes "rocks_inv raw I r" "I db" "\<And>p cf. getCF r p = Some cf \<Longrightarrow> raw db cf = raw (rk_db r) cf"
  shows "rocks_inv raw I (r\<lparr>rk_db := db\<rparr>) \<and> rocks_contents raw (r\<lparr>rk_db := db\<rparr>) = rocks_contents raw r"
  using assms by (auto simp: rocks_inv_def rocks_contents_def fun_eq_iff split: option.splits)

lemma rocks_inv_new_cf:
  assumes "rocks_inv raw I r" "raw (rk_db r) cf = Some es" "family_ok es" "\<And>p. getCF r p \<noteq> Some cf"
    and "r' = r\<lparr>rk_cfs := mput pid cf (rk_cfs r)\<rparr>"
  shows "rocks_inv raw I r' \<and> rocks_contents raw r' = (rocks_contents raw r)(pid \<mapsto> user_records es)"
proof -
  have "getCF r' = (getCF r)(pid \<mapsto> cf)" by (simp add: getCF_def assms(5) fun_eq_iff)
  then show ?thesis using assms
    by (auto simp: rocks_inv_def rocks_contents_def fun_eq_iff split: option.splits if_splits)
qed

lemma family_ok_partition: "ent_map es = [(keyPartition, minUint64) \<mapsto> encodeUint32 pid] \<Longrightarrow> entries_ok es \<Longrightarrow>
  family_ok es \<and> user_records es = []"
proof -
  assume m: "ent_map es = [(keyPartition, minUint64) \<mapsto> encodeUint32 pid]" and ok: "entries_ok es"
  have mem: "e = (keyPartition, minUint64, encodeUint32 pid)" if "e \<in> set es" for e
  proof -
    obtain k t v where e: "e = (k, t, v)" by (cases e)
    then have "ent_map es (k, t) = Some v" using that ent_map_iff [OF ok, of k t v] by simp
    then show ?thesis using m e by (simp split: if_splits)
  qed
  have "\<not> user_record (rec_of (keyPartition, minUint64, encodeUint32 pid))"
    by (simp add: user_record_def rec_of_def keyPartition_def kv_NewAddress_def ReservedDB_def FirstUserKeyspace_def)
  then have "user_records es = []" using mem by (auto simp: user_records_def filter_empty_conv)
  moreover have "keyPartition \<noteq> keyIndex" by (simp add: keyPartition_def keyIndex_def encodeKey_inj)
  moreover have "wf_entry (keyPartition, minUint64, encodeUint32 pid)"
    by (simp add: wf_entry_def keyPartition_def encodeKey_def minUint64_def)
  ultimately have idx: "(keyIndex, t, v) \<notin> set es" for t v using mem [of "(keyIndex, t, v)"] by auto
  have "\<forall>e \<in> set es. wf_entry e" using mem \<open>wf_entry (keyPartition, minUint64, encodeUint32 pid)\<close> by blast
  with idx show ?thesis using \<open>user_records es = []\<close> by (simp add: family_ok_def encoded_def)
qed

context grocks
begin

lemma rocks_GetIndex:
  assumes "rocks_inv raw inv r" "getCF r pid = Some cf" "raw (rk_db r) cf = Some es"
    and "rocksKV_GetIndex ops r pid False = (Inr n, r')"
  shows "n = applied_index es \<and> rocks_inv raw inv r' \<and> getCF r' = getCF r \<and> raw (rk_db r') = raw (rk_db r)"
proof -
  have i: "inv (rk_db r)" using assms(1) by (simp add: rocks_inv_def)
  have fam: "family_ok es" using rocks_inv_cf [OF assms(1,2)] assms(3) by simp
  let ?ro = "makeReadOptionsKV\<lparr>ro_PersistedTier := False\<rparr>"
  obtain w db where w: "g_GetCF ops (rk_db r) ?ro cf keyIndex = (w, db)" by fastforce
  from get_law [OF i assms(3) w] have law: "inv db" "raw db = raw (rk_db r)"
    "\<forall>d. w = Inr d \<longrightarrow> d = map_option fst (read_key es maxUint64 keyIndex)" "w \<noteq> Inl NotFound"
    by (auto simp: makeReadOptionsKV_def)
  note idx = read_key_index [OF raw_ok [OF i assms(3)] fam]
  have len: "\<And>v. ent_map es (keyIndex, minUint64) = Some v \<Longrightarrow> length v = 8"
    using fam ent_map_iff [OF raw_ok [OF i assms(3)]] by (auto simp: family_ok_def)
  have "r' = r\<lparr>rk_db := db\<rparr> \<and> n = applied_index es"
  proof (cases "ent_map es (keyIndex, minUint64)")
    case None
    then show ?thesis using assms(2,4) w law(3,4) idx
      by (auto simp: rocksKV_GetIndex_def readCFIndex_def applied_index_def split: sum.splits if_splits)
  next
    case (Some v)
    obtain m where "decodeUint64 v = Inr m" using len [OF Some] encode_decodeUint64 by blast
    with Some show ?thesis using assms(2,4) w law(3,4) idx
      by (auto simp: rocksKV_GetIndex_def readCFIndex_def applied_index_def assert2_def split: sum.splits if_splits)
  qed
  then show ?thesis using rocks_inv_same_raw [OF assms(1) law(1,2)] law(2) by simp
qed

lemma rocks_index_max:
  assumes "rocks_inv raw inv r" "\<forall>q \<in> set rs. user_record q" "encoded rs"
    and "rocksKV_GetIndex ops r pid False = (Inr n, r1)"
    and "rocksKV_Put ops r1 pid index rs = (None, r2)"
    and "rocksKV_GetIndex ops r2 pid False = (Inr n', r3)"
  shows "n' = max n index"
proof -
  obtain cf where cf: "getCF r pid = Some cf"
    using assms(4) by (cases "getCF r pid") (auto simp: rocksKV_GetIndex_def)
  then obtain es where es: "raw (rk_db r) cf = Some es" "family_ok es"
    using rocks_inv_cf [OF assms(1)] by blast
  from rocks_GetIndex [OF assms(1) cf es(1) assms(4)] have 1: "n = applied_index es" "rocks_inv raw inv r1"
    "getCF r1 pid = Some cf" "raw (rk_db r1) cf = Some es" using cf es(1) by simp_all
  then have "rocks_contents raw r1 pid = Some (user_records es)" by (simp add: rocks_contents_def)
  from rocks_Put_records [OF 1(2) this assms(2,3), of index] assms(5) 1(3,4) obtain es' where
    2: "rocks_inv raw inv r2" "getCF r2 pid = Some cf" "raw (rk_db r2) cf = Some es'"
      "ent_map es' = index_map index (put_map rs (ent_map es))" by auto
  have "n' = applied_index es'" using rocks_GetIndex [OF 2(1-3) assms(6)] by simp
  moreover have "entries_ok es" using raw_ok 1(2,4) by (auto simp: rocks_inv_def)
  ultimately show ?thesis using applied_index_index_map [OF _ es(2) assms(2) 2(4)] 1(1) by simp
qed

lemma rocks_InitPartition:
  assumes "rocks_inv raw inv r" "rocksKV_InitPartition ops r pid = (x, r')"
  shows "rocks_inv raw inv r' \<and> (\<forall>p. p \<noteq> pid \<longrightarrow> rocks_contents raw r' p = rocks_contents raw r p) \<and>
    rocks_contents raw r' pid =
      (if x = None \<and> rocks_contents raw r pid = None then Some [] else rocks_contents raw r pid)"
proof (cases "getCF r pid")
  case (Some cf)
  then have "rocks_contents raw r pid \<noteq> None" using assms(1) by (fastforce simp: rocks_inv_def rocks_contents_def)
  then show ?thesis using Some assms by (auto simp: rocksKV_InitPartition_def)
next
  case None
  have i: "inv (rk_db r)" using assms(1) by (simp add: rocks_inv_def)
  have none: "rocks_contents raw r pid = None" using None by (simp add: rocks_contents_def)
  obtain c db where c: "g_CreateColumnFamily ops (rk_db r) (getCFName pid) = (c, db)" by fastforce
  note cl = create_law [OF i c]
  show ?thesis
  proof (cases c)
    case (Inl e)
    then show ?thesis using None c assms cl rocks_inv_same_raw [OF assms(1), of db] none
      by (auto simp: rocksKV_InitPartition_def)
  next
    case (Inr cf)
    then have fresh: "raw (rk_db r) cf = None" and raw1: "raw db = (raw (rk_db r))(cf \<mapsto> [])" and i1: "inv db"
      using cl by simp_all
    have notin: "getCF r p \<noteq> Some cf" for p using fresh rocks_inv_cf [OF assms(1), of p cf] by auto
    obtain y db1 where y: "g_PutCFWithTS ops db cf keyPartition minUint64 (encodeUint32 pid) = (y, db1)" by fastforce
    have "raw db cf = Some []" "length minUint64 = 8" using raw1 by (simp_all add: minUint64_def)
    note pl = put_ts_law [OF i1 this y]
    have other: "raw d cf' = raw (rk_db r) cf'" if "\<exists>z. raw d = (raw db)(cf := z)" "getCF r p = Some cf'" for d p cf'
      using that notin [of p] raw1 by auto
    have old: "rocks_inv raw inv (r\<lparr>rk_db := d\<rparr>) \<and> rocks_contents raw (r\<lparr>rk_db := d\<rparr>) = rocks_contents raw r"
      if "inv d" "\<exists>z. raw d = (raw db)(cf := z)" for d
      using rocks_inv_other_raw [OF assms(1) that(1)] other [OF that(2)] by blast
    show ?thesis
    proof (cases y)
      case (Some e)
      have "\<exists>z. raw db1 = (raw db)(cf := z)" using pl Some by (intro exI [of _ "raw db cf"]) simp
      with old [of db1] pl show ?thesis using None Inr c y Some assms(2) none
        by (auto simp: rocksKV_InitPartition_def initCF_def)
    next
      case None': None
      then obtain es' where es': "raw db1 = (raw db)(cf \<mapsto> es')" "inv db1"
        "ent_map es' = [(keyPartition, minUint64) \<mapsto> encodeUint32 pid]" using pl by (auto simp: ent_map_def)
      obtain z db2 where z: "g_FlushCF ops db1 cf = (z, db2)" by fastforce
      from flush_law [OF es'(2) z] have db2: "inv db2" "raw db2 = (raw db)(cf \<mapsto> es')" using es'(1) by simp_all
      have fam: "family_ok es'" "user_records es' = []"
        using family_ok_partition [OF es'(3)] raw_ok [OF db2(1), of cf es'] db2(2) by auto
      have o: "rocks_inv raw inv (r\<lparr>rk_db := db2\<rparr>)" "rocks_contents raw (r\<lparr>rk_db := db2\<rparr>) = rocks_contents raw r"
        using old [OF db2(1)] db2(2) by blast+
      have "x = z" "r' = (if z = None then (r\<lparr>rk_db := db2\<rparr>)\<lparr>rk_cfs := mput pid cf (rk_cfs r)\<rparr> else r\<lparr>rk_db := db2\<rparr>)"
        using None Inr c y None' z assms(2)
        by (auto simp: rocksKV_InitPartition_def initCF_def flushCF_def split: option.splits)
      then show ?thesis
        using o none rocks_inv_new_cf [OF o(1), of cf es' r' pid] db2(2) notin fam by (cases z) auto
    qed
  qed
qed

lemma rocks_DropPartition:
  assumes "rocks_inv raw inv r" "rocksKV_DropPartition ops r pid = (x, r')"
  shows "rocks_inv raw inv r' \<and> (\<forall>p. p \<noteq> pid \<longrightarrow> rocks_contents raw r' p = rocks_contents raw r p) \<and>
    rocks_contents raw r' pid = None"
proof (cases "getCF r pid")
  case None
  then show ?thesis using assms by (auto simp: rocksKV_DropPartition_def rocks_contents_def)
next
  case (Some cf)
  obtain y db where y: "g_DropColumnFamily ops (rk_db r) cf = (y, db)" by fastforce
  have i: "inv (rk_db r)" using assms(1) by (simp add: rocks_inv_def)
  note law = drop_law [OF i y]
  have r': "r' = \<lparr>rk_db = db, rk_cfs = mdel pid (rk_cfs r)\<rparr>" using Some y assms(2) by (simp add: rocksKV_DropPartition_def)
  have g: "getCF r' p = (if p = pid then None else getCF r p)" for p by (simp add: r' getCF_def)
  have same: "raw db cf' = raw (rk_db r) cf'" if "getCF r p = Some cf'" "p \<noteq> pid" for p cf'
  proof -
    have "cf' \<noteq> cf" using that Some assms(1) unfolding rocks_inv_def by blast
    then show ?thesis using law by (simp split: if_splits)
  qed
  have "rk_db r' = db" by (simp add: r')
  moreover have "inv db" using law by simp
  ultimately show ?thesis using same assms(1)
    by (auto simp: rocks_inv_def rocks_contents_def g split: option.splits)
qed

end

end
