(* ===== verification/Rocks_Reference.thy ===== *)
theory Rocks_Reference
  imports Rocks
begin

text \<open>
  A database that keeps every law of \<open>grocks\<close>: the interpretation below shows that the laws can hold
  together, and the properties of the RocksDB back end are instantiated on it.
\<close>

section \<open>A database that satisfies the laws\<close>

text \<open>
  Column families as sorted lists under increasing handles. Nothing fails except an operation on a
  column family that does not exist and a batch whose merge the merge operator refuses; such a
  batch changes nothing.
\<close>

record ref_db =
  rd_next :: nat
  rd_cfs :: "(nat, entry list) gomap"

definition ref_raw :: "ref_db \<Rightarrow> nat \<Rightarrow> entry list option" where
  "ref_raw g cf = mget (rd_cfs g) cf"

fun ins_entry :: "entry \<Rightarrow> entry list \<Rightarrow> entry list" where
  "ins_entry e [] = [e]"
| "ins_entry e (x # xs) =
     (if fst e = fst x \<and> fst (snd e) = fst (snd x) then e # xs
      else if ent_less e x then e # x # xs else x # ins_entry e xs)"

definition ref_cf :: "ref_db \<Rightarrow> nat \<Rightarrow> entry list \<Rightarrow> ref_db" where
  "ref_cf g cf es = g\<lparr>rd_cfs := mput cf es (rd_cfs g)\<rparr>"

fun ref_batch :: "ref_db \<Rightarrow> nat batch_op list \<Rightarrow> ref_db option" where
  "ref_batch g [] = Some g"
| "ref_batch g (PutCFWithTS cf k t v # ops) = (case ref_raw g cf of
       None \<Rightarrow> None
     | Some es \<Rightarrow> ref_batch (ref_cf g cf (ins_entry (k, t, v) es)) ops)"
| "ref_batch g (MergeCFWithTS cf k t v # ops) = (case ref_raw g cf of
       None \<Rightarrow> None
     | Some es \<Rightarrow> (case FullMerge k (bytes_or_nil (ent_map es (k, t))) [v] of
           None \<Rightarrow> None
         | Some x \<Rightarrow> ref_batch (ref_cf g cf (ins_entry (k, t, x) es)) ops))"

definition ref_Write :: "ref_db \<Rightarrow> nat batch_op list \<Rightarrow> err option \<times> ref_db" where
  "ref_Write g b = (case ref_batch g b of None \<Rightarrow> (Some CorruptedData, g) | Some g' \<Rightarrow> (None, g'))"

definition ref_read :: "(entry list \<Rightarrow> 'a) \<Rightarrow> ref_db \<Rightarrow> nat \<Rightarrow> (err + 'a) \<times> ref_db" where
  "ref_read f g cf = (case ref_raw g cf of None \<Rightarrow> (Inl CorruptedData, g) | Some es \<Rightarrow> (Inr (f es), g))"

definition ref_Iterate ::
    "ref_db \<Rightarrow> read_options \<Rightarrow> nat \<Rightarrow> bytes \<Rightarrow> (entry list \<times> err option) \<times> ref_db" where
  "ref_Iterate g ro cf s = (case ref_raw g cf of
       None \<Rightarrow> (([], Some CorruptedData), g)
     | Some es \<Rightarrow>
         ((filter (\<lambda>e. bytes_compare s (fst e) \<le> 0 \<and>
             (case ro_UpperBound ro of None \<Rightarrow> True | Some u \<Rightarrow> bytes_compare (fst e) u < 0) \<and>
             (case ro_IterStartTimestamp ro of
                None \<Rightarrow> newest es (ro_Timestamp ro) e
              | Some l \<Rightarrow> ts_le l (fst (snd e)) \<and> ts_le (fst (snd e)) (ro_Timestamp ro))) es, None), g))"

definition ref_ops :: "(ref_db, nat) grocks_ops" where
  "ref_ops = \<lparr>
     g_CreateColumnFamily = (\<lambda>g name. (Inr (rd_next g),
        \<lparr>rd_next = Suc (rd_next g), rd_cfs = mput (rd_next g) [] (rd_cfs g)\<rparr>)),
     g_DropColumnFamily = (\<lambda>g cf. (None, g\<lparr>rd_cfs := mdel cf (rd_cfs g)\<rparr>)),
     g_FlushCF = (\<lambda>g cf. (None, g)),
     g_PutCFWithTS = (\<lambda>g cf k t v. ref_Write g [PutCFWithTS cf k t v]),
     g_Write = ref_Write,
     g_GetCF = (\<lambda>g ro cf k. ref_read (\<lambda>es. map_option fst (read_key es (ro_Timestamp ro) k)) g cf),
     g_GetCFWithTS = (\<lambda>g ro cf k. ref_read (\<lambda>es. read_key es (ro_Timestamp ro) k) g cf),
     g_MultiGetCFWithTS = (\<lambda>g ro cf ks. ref_read (\<lambda>es. map (read_key es (ro_Timestamp ro)) ks) g cf),
     g_Iterate = ref_Iterate\<rparr>"

definition ref_inv :: "ref_db \<Rightarrow> bool" where
  "ref_inv g \<longleftrightarrow> (\<forall>cf es. ref_raw g cf = Some es \<longrightarrow> entries_ok es \<and> cf < rd_next g)"

lemma ent_less_iff:
  assumes "length t = 8" "length t' = 8"
  shows "ent_less (k, t, v) (k', t', v') \<longleftrightarrow> bytes_compare k k' < 0 \<or> k = k' \<and> \<not> ts_le t t'"
  using encode_decodeUint64 [OF assms(1)] encode_decodeUint64 [OF assms(2)]
  by (auto simp: ent_less_def compareWithTs_def compareTs_def assert2_def bytes_compare_eq ts_le_def Let_def)

lemma ent_less_linear:
  assumes "length t = 8" "length t' = 8" "\<not> ent_less (k, t, v) (k', t', v')" "k \<noteq> k' \<or> t \<noteq> t'"
  shows "ent_less (k', t', v') (k, t, v)"
proof -
  obtain a b where ab: "t = encodeUint64 a" "t' = encodeUint64 b"
    using encode_decodeUint64 assms(1,2) by metis
  have "k = k' \<or> bytes_compare k k' < 0 \<or> bytes_compare k' k < 0"
    using bytes_compare_eq [of k k'] bytes_compare_swap [of k k'] by linarith
  then show ?thesis using assms(3,4) by (auto simp: ent_less_iff ab)
qed

lemma ent_less_trans:
  assumes "length t = 8" "length t' = 8" "length t'' = 8"
    and "ent_less (k, t, v) (k', t', v')" "ent_less (k', t', v') (k'', t'', v'')"
  shows "ent_less (k, t, v) (k'', t'', v'')"
proof -
  obtain a b c where abc: "t = encodeUint64 a" "t' = encodeUint64 b" "t'' = encodeUint64 c"
    using encode_decodeUint64 assms(1-3) by metis
  show ?thesis using assms(4,5) bc.cmp_trans [of k k' k'']
    by (auto simp: ent_less_iff abc)
qed

lemma set_ins_entry: "set (ins_entry e es) \<subseteq> insert e (set es)"
  by (induction es) auto

lemma ins_entry_ok: "entries_ok es \<Longrightarrow> length (fst (snd e)) = 8 \<Longrightarrow> entries_ok (ins_entry e es)"
proof (induction es)
  case (Cons x es)
  obtain k t v where e: "e = (k, t, v)" by (cases e)
  obtain k' t' v' where x: "x = (k', t', v')" by (cases x)
  have len: "length t = 8" "length t' = 8" "\<forall>y \<in> set es. length (fst (snd y)) = 8" and ok: "entries_ok es"
    using Cons.prems e x by (auto simp: entries_ok_def)
  have lt: "ent_less x y" if "y \<in> set es" for y using Cons.prems that by (simp add: entries_ok_def)
  consider "k = k'" "t = t'" | "k \<noteq> k' \<or> t \<noteq> t'" "ent_less e x" | "k \<noteq> k' \<or> t \<noteq> t'" "\<not> ent_less e x" by blast
  then show ?case
  proof cases
    case 1
    have "ent_less e y" if "y \<in> set es" for y
      using lt [OF that] len that 1 e x by (cases y) (auto simp: ent_less_iff)
    then show ?thesis using 1 e x ok len by (auto simp: entries_ok_def)
  next
    case 2
    have "ent_less e y" if y: "y \<in> set es" for y
    proof -
      obtain k2 t2 v2 where "y = (k2, t2, v2)" by (cases y)
      then show ?thesis using ent_less_trans [of t t' t2 k v k' v' k2 v2] lt [OF y] 2 e x len y by auto
    qed
    then show ?thesis using 2 e x Cons.prems len by (auto simp: entries_ok_def)
  next
    case 3
    have "ent_less x e" using ent_less_linear [of t t' k v k' v'] 3 e x len by simp
    moreover have "entries_ok (ins_entry e es)" using Cons ok by simp
    ultimately show ?thesis using 3 e x len lt set_ins_entry [of e es] by (auto simp: entries_ok_def)
  qed
qed (simp add: entries_ok_def)

lemma ent_map_Cons: "ent_map ((k, t, v) # es) = (ent_map es)((k, t) \<mapsto> v)"
  by (simp add: ent_map_def)

lemma ent_map_ins: "ent_map (ins_entry (k, t, v) es) = (ent_map es)((k, t) \<mapsto> v)"
proof (induction es)
  case (Cons x es)
  then show ?case by (cases x) (auto simp: ent_map_Cons fun_upd_twist)
qed (simp add: ent_map_def)

lemma ref_raw_cf [simp]: "ref_raw (ref_cf g cf es) = (ref_raw g)(cf \<mapsto> es)"
  by (simp add: ref_raw_def ref_cf_def fun_eq_iff)

lemma rd_next_cf [simp]: "rd_next (ref_cf g cf es) = rd_next g"
  by (simp add: ref_cf_def)

lemma ref_inv_cf: "ref_inv g \<Longrightarrow> ref_raw g cf = Some es \<Longrightarrow> entries_ok es' \<Longrightarrow> ref_inv (ref_cf g cf es')"
  by (auto simp: ref_inv_def split: if_splits)

lemma ref_batch_law:
  assumes "ref_inv g" "ref_raw g cf = Some es"
    and "\<forall>p \<in> set b. fst (op_key p) = cf \<and> length (snd (snd (op_key p))) = 8"
    and "apply_ops cf b (ent_map es) = Some m"
  shows "\<exists>g' es'. ref_batch g b = Some g' \<and> ref_inv g' \<and> ref_raw g' = (ref_raw g)(cf \<mapsto> es') \<and> ent_map es' = m"
  using assms
proof (induction b arbitrary: g es)
  case Nil
  then show ?case by (auto intro!: exI [of _ es] simp: fun_upd_idem)
next
  case (Cons p b)
  have ok: "entries_ok es" using Cons.prems(1,2) by (simp add: ref_inv_def)
  obtain k t v where kt: "length t = 8" "apply_ops cf b (ent_map (ins_entry (k, t, v) es)) = Some m"
    "ref_batch g (p # b) = ref_batch (ref_cf g cf (ins_entry (k, t, v) es)) b"
    using Cons.prems by (cases p) (auto simp: ent_map_ins split: option.splits)
  let ?es = "ins_entry (k, t, v) es"
  have "ref_inv (ref_cf g cf ?es)"
    using ref_inv_cf [OF Cons.prems(1,2)] ins_entry_ok [OF ok] kt(1) by simp
  moreover have "ref_raw (ref_cf g cf ?es) cf = Some ?es" by simp
  moreover have "\<forall>p \<in> set b. fst (op_key p) = cf \<and> length (snd (snd (op_key p))) = 8" using Cons.prems(3) by simp
  ultimately obtain g' es' where
    "ref_batch g (p # b) = Some g'" "ref_inv g'" "ref_raw g' = (ref_raw (ref_cf g cf ?es))(cf \<mapsto> es')" "ent_map es' = m"
    using Cons.IH kt(2,3) by metis
  moreover from this(3) have "ref_raw g' = (ref_raw g)(cf \<mapsto> es')" by simp
  ultimately show ?case by blast
qed

lemma ref_create:
  assumes "ref_inv g"
  defines "g' \<equiv> \<lparr>rd_next = Suc (rd_next g), rd_cfs = mput (rd_next g) [] (rd_cfs g)\<rparr>"
  shows "ref_inv g'" "ref_raw g (rd_next g) = None" "ref_raw g' = (ref_raw g)(rd_next g \<mapsto> [])"
proof -
  show "ref_raw g (rd_next g) = None"
    using assms(1) by (cases "ref_raw g (rd_next g)") (auto simp: ref_inv_def)
  show r: "ref_raw g' = (ref_raw g)(rd_next g \<mapsto> [])" by (simp add: ref_raw_def g'_def fun_eq_iff)
  have "rd_next g' = Suc (rd_next g)" by (simp add: g'_def)
  then show "ref_inv g'" using assms(1) by (auto simp: ref_inv_def r entries_ok_def less_SucI)
qed

interpretation refdb: grocks ref_ops ref_raw ref_inv
proof unfold_locales
  fix g cf es assume "ref_inv g" "ref_raw g cf = Some es"
  then show "entries_ok es" by (simp add: ref_inv_def)
next
  fix g name c g' assume "ref_inv g" "g_CreateColumnFamily ref_ops g name = (c, g')"
  then show "ref_inv g' \<and> (case c of Inl _ \<Rightarrow> ref_raw g' = ref_raw g
    | Inr cf \<Rightarrow> ref_raw g cf = None \<and> ref_raw g' = (ref_raw g)(cf \<mapsto> []))"
    using ref_create [of g] by (auto simp: ref_ops_def)
next
  fix g cf x g' assume "ref_inv g" "g_DropColumnFamily ref_ops g cf = (x, g')"
  then show "ref_inv g' \<and> ref_raw g' = (if x = None then (ref_raw g)(cf := None) else ref_raw g)"
    by (auto simp: ref_ops_def ref_inv_def ref_raw_def fun_eq_iff split: if_splits)
next
  fix g cf x g' assume "ref_inv g" "g_FlushCF ref_ops g cf = (x, g')"
  then show "ref_inv g' \<and> ref_raw g' = ref_raw g" by (auto simp: ref_ops_def)
next
  fix g cf es t k v x g'
  assume "ref_inv g" "ref_raw g cf = Some es" "length t = 8" "g_PutCFWithTS ref_ops g cf k t v = (x, g')"
  then show "ref_inv g' \<and> (if x = None
    then \<exists>es'. ref_raw g' = (ref_raw g)(cf \<mapsto> es') \<and> ent_map es' = (ent_map es)((k, t) \<mapsto> v)
    else ref_raw g' = ref_raw g)"
    using ref_batch_law [of g cf es "[PutCFWithTS cf k t v]"] by (auto simp: ref_ops_def ref_Write_def)
next
  fix g cf es b m x g'
  assume "ref_inv g" "ref_raw g cf = Some es" "\<forall>p \<in> set b. fst (op_key p) = cf \<and> length (snd (snd (op_key p))) = 8"
    "apply_ops cf b (ent_map es) = Some m" "g_Write ref_ops g b = (x, g')"
  then show "ref_inv g' \<and> (if x = None then \<exists>es'. ref_raw g' = (ref_raw g)(cf \<mapsto> es') \<and> ent_map es' = m
    else ref_raw g' = ref_raw g)"
    using ref_batch_law [of g cf es b m] by (auto simp: ref_ops_def ref_Write_def)
next
  fix g cf es ro s u xs ie g'
  assume "ref_inv g" "ref_raw g cf = Some es" "ro_IterStartTimestamp ro = None" "ro_UpperBound ro = Some u"
    "g_Iterate ref_ops g ro cf s = ((xs, ie), g')"
  then have "ref_inv g' \<and> ref_raw g' = ref_raw g \<and> ie = None \<and> xs = read_range es (ro_Timestamp ro) s u"
    by (auto simp: ref_ops_def ref_Iterate_def read_range_def)
  then show "ref_inv g' \<and> ref_raw g' = ref_raw g \<and>
      (\<exists>n. xs = (if ie = None then id else take n) (read_range es (ro_Timestamp ro) s u))" by simp
qed (auto simp: ref_ops_def ref_read_def)


section \<open>Properties\<close>

text \<open>
  C8: on any database that keeps the laws of \<open>grocks\<close>, the RocksDB back end reads the right versions:
  \<^verbatim>\<open>rocksMVCC.Get\<close> returns for every address the latest live version at the timestamp, and
  \<^verbatim>\<open>rocksMVCC.GetRange\<close> yields the latest live version of every key of the range in key order,
  or a part of them followed by the error of the iterator; neither panics and neither changes the
  contents of any partition.
\<close>

theorem rocksMVCC_reads_view:
  assumes "grocks ops raw I" "rocks_inv raw I r" "rocks_contents raw r pid = Some recs"
    and "list_all user_address addrs" "user_address s" "ma_Keyspace e = ma_Keyspace s"
  shows "\<exists>x r1 it r2. rocksMVCC_Get ops r pid ts addrs = Some (x, r1) \<and>
      (\<forall>rs. x = Inr rs \<longrightarrow> rs = map (view_get recs ts) addrs) \<and>
      rocksMVCC_GetRange ops r pid ts s e = Some (Inr it, r2) \<and> yields it (view_range recs ts s e) \<and>
      rocks_contents raw r1 = rocks_contents raw r \<and> rocks_contents raw r2 = rocks_contents raw r"
  using grocks.rocks_Get_view [OF assms(1-4), of ts] grocks.rocks_GetRange_view [OF assms(1-3,5,6), of ts]
  by blast

definition demo_rocks0 :: "(ref_db, nat) rocksdb" where
  "demo_rocks0 = snd (rocksKV_InitPartition ref_ops \<lparr>rk_db = \<lparr>rd_next = 0, rd_cfs = []\<rparr>, rk_cfs = []\<rparr> 7)"

definition demo_record :: kv_record where
  "demo_record = \<lparr>kr_Address = kv_NewAddress 20 [1] 10, kr_Data = [9, 0]\<rparr>"

definition demo_rocks :: "(ref_db, nat) rocksdb" where
  "demo_rocks = snd (rocksKV_Put ref_ops demo_rocks0 7 5 [demo_record])"

lemmas demo_rocks_defs = rocksKV_InitPartition_def getCF_def initCF_def flushCF_def ref_ops_def ref_Write_def
  ref_raw_def ref_cf_def rocksKV_Put_def rocks_batch_def

lemma demo_rocks0_ok:
  "rocks_inv ref_raw ref_inv demo_rocks0" "rocks_contents ref_raw demo_rocks0 7 = Some []"
proof -
  let ?r = "\<lparr>rk_db = \<lparr>rd_next = 0, rd_cfs = []\<rparr>, rk_cfs = []\<rparr> :: (ref_db, nat) rocksdb"
  have "rocks_inv ref_raw ref_inv ?r" "rocks_contents ref_raw ?r 7 = None"
    by (simp_all add: rocks_inv_def rocks_contents_def getCF_def ref_inv_def ref_raw_def)
  moreover have "rocksKV_InitPartition ref_ops ?r 7 = (None, demo_rocks0)"
    by (simp add: demo_rocks0_def demo_rocks_defs)
  ultimately show "rocks_inv ref_raw ref_inv demo_rocks0" "rocks_contents ref_raw demo_rocks0 7 = Some []"
    using refdb.rocks_InitPartition [of ?r 7 None demo_rocks0] by simp_all
qed

lemma ref_Put_None:
  assumes "rocks_inv ref_raw ref_inv r" "rocks_contents ref_raw r pid = Some recs" "\<forall>q \<in> set rs. user_record q"
  shows "fst (rocksKV_Put ref_ops r pid index rs) = None"
proof -
  obtain cf es where cf: "getCF r pid = Some cf" "ref_raw (rk_db r) cf = Some es" "family_ok es"
    using rocks_contents_Some [OF assms(1,2)] .
  have i: "ref_inv (rk_db r)" using assms(1) by (simp add: rocks_inv_def)
  then have ok: "entries_ok es" using cf(2) by (simp add: ref_inv_def)
  have "\<forall>p \<in> set (rocks_batch cf index rs). fst (op_key p) = cf \<and> length (snd (snd (op_key p))) = 8"
    by (auto simp: rocks_batch_def minUint64_def)
  from ref_batch_law [OF i cf(2) this apply_rocks_batch [OF ok cf(3) assms(3)]] cf(1) show ?thesis
    by (auto simp: rocksKV_Put_def ref_ops_def ref_Write_def)
qed

lemma demo_record_ok: "\<forall>q \<in> set [demo_record]. user_record q" "encoded [demo_record]"
  by (simp_all add: user_record_def demo_record_def kv_NewAddress_def FirstUserKeyspace_def encoded_def)

lemma demo_rocks_put: "rocksKV_Put ref_ops demo_rocks0 7 5 [demo_record] = (None, demo_rocks)"
  using ref_Put_None [OF demo_rocks0_ok demo_record_ok(1), of 5] by (simp add: demo_rocks_def prod_eq_iff)

lemma demo_rocks_ok:
  "rocks_inv ref_raw ref_inv demo_rocks" "rocks_contents ref_raw demo_rocks 7 = Some [demo_record]"
proof -
  have "put_records [] [demo_record] = [demo_record]"
    by (rule ac.sorted_by_unique [OF put_records_sorted]) (simp_all add: set_put_records)
  then show "rocks_inv ref_raw ref_inv demo_rocks" "rocks_contents ref_raw demo_rocks 7 = Some [demo_record]"
    using refdb.rocks_Put_records [OF demo_rocks0_ok demo_record_ok, of 5] demo_rocks_put by simp_all
qed

theorem rocksMVCC_reads_view_witness:
  "\<exists>x r1. rocksMVCC_Get ref_ops demo_rocks 7 12 [mv_NewAddress 20 [1]] = Some (x, r1) \<and>
     (\<forall>rs. x = Inr rs \<longrightarrow> rs = [Some \<lparr>mr_Address = mv_NewAddress 20 [1], mr_Timestamp = 10, mr_Value = [9], mr_Flags = 0\<rparr>])"
proof -
  have u: "list_all user_address [mv_NewAddress 20 [1]]" "user_address (mv_NewAddress 20 [1])"
    by (simp_all add: user_address_def mv_NewAddress_def FirstUserKeyspace_def)
  have v: "view_get [demo_record] 12 (mv_NewAddress 20 [1]) =
      Some \<lparr>mr_Address = mv_NewAddress 20 [1], mr_Timestamp = 10, mr_Value = [9], mr_Flags = 0\<rparr>"
    by (simp add: view_get_def demo_record_def kv_NewAddress_def mv_NewAddress_def latest_def eff_ts_def live_def
        Tombstone_def FlagTombstone_def mv_of_def mk_mv_record_def)
  from rocksMVCC_reads_view [OF refdb.grocks_axioms demo_rocks_ok u(1) u(2) refl, of 12] v
  show ?thesis by auto
qed

text \<open>
  C9: the applied index of a partition never goes back. After a write that reports success, the
  index read back is the larger one of the index before and the index of the write, whatever records
  the write carries.
\<close>

theorem rocksKV_index_max:
  assumes "grocks ops raw I" "rocks_inv raw I r" "\<forall>q \<in> set rs. user_record q" "encoded rs"
    and "rocksKV_GetIndex ops r pid False = (Inr n, r1)"
    and "rocksKV_Put ops r1 pid index rs = (None, r2)"
    and "rocksKV_GetIndex ops r2 pid False = (Inr n', r3)"
  shows "n' = max n index"
  using grocks.rocks_index_max [OF assms] .

lemma ref_GetIndex: "getCF r pid = Some cf \<Longrightarrow> ref_raw (rk_db r) cf = Some es \<Longrightarrow> rocks_inv ref_raw ref_inv r \<Longrightarrow>
  rocksKV_GetIndex ref_ops r pid False = (Inr (applied_index es), r)"
proof -
  assume a: "getCF r pid = Some cf" "ref_raw (rk_db r) cf = Some es" "rocks_inv ref_raw ref_inv r"
  have ok: "entries_ok es" "family_ok es"
    using a rocks_inv_cf [OF a(3,1)] by (auto simp: rocks_inv_def ref_inv_def)
  then have "length v = 8" if "ent_map es (keyIndex, minUint64) = Some v" for v
    using that ent_map_iff [OF ok(1)] by (auto simp: family_ok_def)
  then have "\<exists>n. decodeUint64 v = Inr n" if "ent_map es (keyIndex, minUint64) = Some v" for v
    using that encode_decodeUint64 by blast
  then show ?thesis
    using a read_key_index [OF ok]
    by (cases "ent_map es (keyIndex, minUint64)")
      (auto simp: rocksKV_GetIndex_def readCFIndex_def ref_ops_def ref_read_def makeReadOptionsKV_def applied_index_def
        assert2_def)
qed

theorem rocksKV_index_max_witness:
  "\<exists>n n' r3. rocksKV_GetIndex ref_ops demo_rocks0 7 False = (Inr n, demo_rocks0) \<and>
     rocksKV_GetIndex ref_ops demo_rocks 7 False = (Inr n', r3) \<and> n' = max n 5"
proof -
  have ex: "\<exists>es. rocksKV_GetIndex ref_ops r 7 False = (Inr (applied_index es), r)"
    if "rocks_inv ref_raw ref_inv r" "rocks_contents ref_raw r 7 = Some x" for r x
    using rocks_contents_Some [OF that] ref_GetIndex that(1) by metis
  obtain es es' where g: "rocksKV_GetIndex ref_ops demo_rocks0 7 False = (Inr (applied_index es), demo_rocks0)"
    "rocksKV_GetIndex ref_ops demo_rocks 7 False = (Inr (applied_index es'), demo_rocks)"
    using ex [OF demo_rocks0_ok] ex [OF demo_rocks_ok] by blast
  from rocksKV_index_max [OF refdb.grocks_axioms demo_rocks0_ok(1) demo_record_ok g(1) demo_rocks_put g(2)] g
  show ?thesis by blast
qed

end
