(* ===== verification/Txn_Validate.thy ===== *)
theory Txn_Validate
  imports Txn_Manager
begin

text \<open>
  The requests of the data service and the validation of transaction messages
  (\<^verbatim>\<open>src/internal/data/data_txn.go\<close>). A validated pointer is an option, with \<open>None\<close> for nil; a
  message inside another message is never nil in the model, and an enumeration holds one of its
  declared values.
\<close>

section \<open>Requests\<close>

record autocommit_request =
  ar_PartitionId :: u32
  ar_Txn :: txn
  ar_ReadTimestamp :: u64

record prepare_request =
  prq_ParticipantPid :: u32
  prq_Txn :: txn
  prq_ReadOnly :: bool

record commit_request =
  cr_ParticipantPid :: u32
  cr_Id :: txn_id
  cr_CommitTimestamp :: u64
  cr_FetchResults :: bool
  cr_ReadOnly :: bool

record abort_request =
  abr_ParticipantPid :: u32
  abr_Id :: txn_id

section \<open>Validation\<close>

definition TxnId_Validate :: "txn_id option \<Rightarrow> err option" where
  "TxnId_Validate t = (case t of
       None \<Rightarrow> Some (OtherError ''TxnId is nil'')
     | Some t \<Rightarrow>
         if ServerId t = 0 \<or> IdTimestamp t = 0 then Some (OtherError ''TxnId has missing fields'') else None)"

definition KeyLock_Validate :: "key_lock option \<Rightarrow> err option" where
  "KeyLock_Validate l = (case l of
       None \<Rightarrow> Some (OtherError ''KeyLock is nil'')
     | Some l \<Rightarrow>
         if kl_Keyspace l < FirstUserKeyspace \<or> length (kl_Key l) = 0
         then Some (OtherError ''KeyLock has invalid fields'') else None)"

definition RangeLock_Validate :: "range_lock option \<Rightarrow> err option" where
  "RangeLock_Validate l = (case l of
       None \<Rightarrow> Some (OtherError ''RangeLock is nil'')
     | Some l \<Rightarrow>
         if rl_Keyspace l < FirstUserKeyspace \<or> length (rl_StartKey l) = 0 \<or> length (rl_EndKey l) = 0
         then Some (OtherError ''RangeLock has invalid fields'') else None)"

definition Action_Validate :: "action option \<Rightarrow> err option" where
  "Action_Validate a = (case a of
       None \<Rightarrow> Some (OtherError ''Action is nil'')
     | Some a \<Rightarrow> (case a_Payload a of
           Action_Read ks k \<Rightarrow>
             if ks < FirstUserKeyspace \<or> length k = 0
             then Some (OtherError ''Action.Read has invalid fields'') else None
         | Action_ReadRange ks s e _ \<Rightarrow>
             if ks < FirstUserKeyspace \<or> length s = 0 \<or> length e = 0
             then Some (OtherError ''Action.ReadRange has invalid fields'') else None
         | Action_Insert ks k _ \<Rightarrow>
             if ks < FirstUserKeyspace \<or> length k = 0
             then Some (OtherError ''Action.Insert has invalid fields'') else None
         | Action_Update ks k _ \<Rightarrow>
             if ks < FirstUserKeyspace \<or> length k = 0
             then Some (OtherError ''Action.Update has invalid fields'') else None
         | Action_Upsert ks k _ \<Rightarrow>
             if ks < FirstUserKeyspace \<or> length k = 0
             then Some (OtherError ''Action.Upsert has invalid fields'') else None
         | Action_Delete ks k \<Rightarrow>
             if ks < FirstUserKeyspace \<or> length k = 0
             then Some (OtherError ''Action.Delete has invalid fields'') else None
         | Action_LockKey l _ \<Rightarrow> KeyLock_Validate (Some l)
         | Action_LockRange l _ \<Rightarrow> RangeLock_Validate (Some l)
         | Action_Unknown \<Rightarrow> Some (OtherError ''Action.Payload is unknown.'')))"

fun validate_actions :: "action list \<Rightarrow> err option" where
  "validate_actions [] = None"
| "validate_actions (a # as) =
     (case Action_Validate (Some a) of Some e \<Rightarrow> Some e | None \<Rightarrow> validate_actions as)"

definition Txn_Validate :: "txn option \<Rightarrow> err option" where
  "Txn_Validate t = (case t of
       None \<Rightarrow> Some (OtherError ''Txn is nil'')
     | Some t \<Rightarrow> (case TxnId_Validate (Some (t_Id t)) of
           Some e \<Rightarrow> Some e
         | None \<Rightarrow>
             if length (t_Actions t) = 0 then Some (OtherError ''Txn has missing fields'')
             else validate_actions (t_Actions t)))"

definition ActionStatus_Validate :: "action_status option \<Rightarrow> err option" where
  "ActionStatus_Validate a = (case a of
       None \<Rightarrow> Some (OtherError ''ActionStatus is nil'')
     | Some a \<Rightarrow>
         if as_Code a = Success \<and> length (as_Results a) = 0
         then Some (OtherError ''ActionStatus success with empty results'')
         else if as_Code a \<noteq> Success \<and> length (as_Results a) > 0
         then Some (OtherError ''ActionStatus failed with non-empty results'')
         else None)"

fun validate_action_status :: "(u32, action_status) gomap \<Rightarrow> err option" where
  "validate_action_status [] = None"
| "validate_action_status ((i, a) # as) = (case ActionStatus_Validate (Some a) of
       Some e \<Rightarrow> Some e
     | None \<Rightarrow>
         if i \<noteq> as_Id a then Some (OtherError ''TxnStatus.ActionStatus.Id does not match'')
         else validate_action_status as)"

definition TxnStatus_Validate :: "txn_status option \<Rightarrow> err option" where
  "TxnStatus_Validate t = (case t of
       None \<Rightarrow> Some (OtherError ''TxnStatus is nil'')
     | Some t \<Rightarrow> (case TxnId_Validate (Some (ts_Id t)) of
           Some e \<Rightarrow> Some e
         | None \<Rightarrow>
             if ts_Timestamp t = 0 then Some (OtherError ''TxnStatus has missing fields'')
             else (case ts_ActionStatus t of None \<Rightarrow> None | Some as \<Rightarrow> validate_action_status as)))"

definition Decision_Validate :: "decision option \<Rightarrow> err option" where
  "Decision_Validate d = (case d of
       None \<Rightarrow> Some (OtherError ''Decision is nil'')
     | Some d \<Rightarrow> (case TxnId_Validate (Some (d_Id d)) of
           Some e \<Rightarrow> Some e
         | None \<Rightarrow>
             if d_CommitTimestamp d = 0 then Some (OtherError ''Decision has missing fields'') else None))"

definition IsSnapshotRead :: "autocommit_request \<Rightarrow> bool" where
  "IsSnapshotRead r = (ar_ReadTimestamp r \<noteq> 0 \<and> Txn_IsReadOnly (ar_Txn r))"

definition AutocommitRequest_Validate :: "autocommit_request option \<Rightarrow> err option" where
  "AutocommitRequest_Validate r = (case r of
       None \<Rightarrow> Some (OtherError ''AutocommitRequest is nil'')
     | Some r \<Rightarrow> (case Txn_Validate (Some (ar_Txn r)) of
           Some e \<Rightarrow> Some e
         | None \<Rightarrow>
             if \<not> IsSnapshotRead r \<and> ar_PartitionId r \<noteq> PrincipalPid (t_Id (ar_Txn r))
             then Some (OtherError ''AutocommitRequest.PartitionId is invalid'')
             else if ar_ReadTimestamp r \<noteq> 0 \<and> \<not> Txn_IsReadOnly (ar_Txn r)
             then Some (OtherError ''AutocommitRequest.ReadTimestamp invalid for read-write txn'')
             else None))"

definition PrepareRequest_Validate :: "prepare_request option \<Rightarrow> err option" where
  "PrepareRequest_Validate r = (case r of
       None \<Rightarrow> Some (OtherError ''PrepareRequest is nil'')
     | Some r \<Rightarrow> (case Txn_Validate (Some (prq_Txn r)) of
           Some e \<Rightarrow> Some e
         | None \<Rightarrow>
             if prq_ParticipantPid r = PrincipalPid (t_Id (prq_Txn r)) \<and> length (t_ParticipantPids (prq_Txn r)) = 0
             then Some (OtherError ''PrepareRequest.Txn.ParticipantPids is missing'') else None))"

definition CommitRequest_Validate :: "commit_request option \<Rightarrow> err option" where
  "CommitRequest_Validate r = (case r of
       None \<Rightarrow> Some (OtherError ''CommitRequest is nil'')
     | Some r \<Rightarrow> (case TxnId_Validate (Some (cr_Id r)) of
           Some e \<Rightarrow> Some e
         | None \<Rightarrow>
             if cr_CommitTimestamp r = 0 then Some (OtherError ''CommitRequest has missing fields'') else None))"

definition AbortRequest_Validate :: "abort_request option \<Rightarrow> err option" where
  "AbortRequest_Validate r = (case r of
       None \<Rightarrow> Some (OtherError ''AbortRequest is nil'')
     | Some r \<Rightarrow> TxnId_Validate (Some (abr_Id r)))"

section \<open>What validation guarantees\<close>

text \<open>Every address that an action of a validated transaction names is a non-empty user key.\<close>

definition user_key :: "u32 \<Rightarrow> bytes \<Rightarrow> bool" where
  "user_key ks k \<longleftrightarrow> FirstUserKeyspace \<le> ks \<and> k \<noteq> []"

fun action_keys :: "action_payload \<Rightarrow> (u32 \<times> bytes) list" where
  "action_keys (Action_Read ks k) = [(ks, k)]"
| "action_keys (Action_ReadRange ks s e _) = [(ks, s), (ks, e)]"
| "action_keys (Action_Insert ks k _) = [(ks, k)]"
| "action_keys (Action_Update ks k _) = [(ks, k)]"
| "action_keys (Action_Upsert ks k _) = [(ks, k)]"
| "action_keys (Action_Delete ks k) = [(ks, k)]"
| "action_keys (Action_LockKey l _) = [(kl_Keyspace l, kl_Key l)]"
| "action_keys (Action_LockRange l _) = [(rl_Keyspace l, rl_StartKey l), (rl_Keyspace l, rl_EndKey l)]"
| "action_keys Action_Unknown = []"

definition action_ok :: "action \<Rightarrow> bool" where
  "action_ok a \<longleftrightarrow> a_Payload a \<noteq> Action_Unknown \<and> list_all (\<lambda>(ks, k). user_key ks k) (action_keys (a_Payload a))"

definition txn_ok :: "txn \<Rightarrow> bool" where
  "txn_ok t \<longleftrightarrow> list_all action_ok (t_Actions t)"

lemma Action_Validate_iff: "Action_Validate (Some a) = None \<longleftrightarrow> action_ok a"
  by (auto simp: Action_Validate_def action_ok_def KeyLock_Validate_def RangeLock_Validate_def user_key_def
      not_less split: action_payload.splits if_splits)

lemma validate_actions_iff: "validate_actions as = None \<longleftrightarrow> list_all action_ok as"
proof (induction as)
  case (Cons a as)
  then show ?case using Action_Validate_iff [of a] by (cases "Action_Validate (Some a)") auto
qed simp

lemma Txn_Validate_ok: "Txn_Validate (Some t) = None \<Longrightarrow> txn_ok t"
  by (auto simp: Txn_Validate_def txn_ok_def validate_actions_iff split: option.splits if_splits)

end
