(* ===== verification/Txn_Reader.thy ===== *)
theory Txn_Reader
  imports Txn_Validate
begin

text \<open>
  The reader of a partition (\<^verbatim>\<open>src/internal/data/server/txn/reader.go\<close>). It executes the read
  actions of a transaction on the multi-version store that the manager writes to, and keeps the
  read-only transactions between their two phases. The reader uses the store without a breaker, so
  errors reach the caller. Its store is the manager's, \<open>m_store\<close>. Decoding a value is
  \<^verbatim>\<open>proto.Unmarshal\<close>, a parameter. Raising the highest timestamp goes through the replicated log:
  a function on the manager that the leader has and a follower does not. Times are nanoseconds.
\<close>

section \<open>State\<close>

record reader =
  rr_MaxIteratorResults :: nat
  rr_SkipCorruptedData :: bool
  rr_CleanAfterReadOnly :: int
  rr_decode :: "bytes \<Rightarrow> err + go_value"
  rr_prepared :: "(txn_id, txn) gomap"
  rr_preparedTime :: "(txn_id, int) gomap"
  rr_Prepared :: int

type_synonym 'db bump = "u64 \<Rightarrow> 'db manager \<Rightarrow> (err option \<times> 'db manager) option"

definition newReader :: "nat \<Rightarrow> bool \<Rightarrow> int \<Rightarrow> (bytes \<Rightarrow> err + go_value) \<Rightarrow> reader" where
  "newReader maxResults skip cleanAfter decode =
     \<lparr>rr_MaxIteratorResults = maxResults, rr_SkipCorruptedData = skip, rr_CleanAfterReadOnly = cleanAfter,
      rr_decode = decode, rr_prepared = [], rr_preparedTime = [], rr_Prepared = 0\<rparr>"

section \<open>Cleaning\<close>

text \<open>What one tick of \<^verbatim>\<open>reader.mainLoop\<close> does at time \<open>now\<close>.\<close>

definition reader_tick :: "int \<Rightarrow> reader \<Rightarrow> reader" where
  "reader_tick now s =
     (let oldest = now - rr_CleanAfterReadOnly s;
          toRemove = map fst (filter (\<lambda>(_, t). t < oldest) (rr_preparedTime s))
      in s\<lparr>rr_prepared := filter (\<lambda>(i, _). i \<notin> set toRemove) (rr_prepared s),
           rr_preparedTime := filter (\<lambda>(i, _). i \<notin> set toRemove) (rr_preparedTime s),
           rr_Prepared := rr_Prepared s - int (length toRemove)\<rparr>)"

section \<open>Reading\<close>

definition raw_Get ::
    "'db manager \<Rightarrow> u64 \<Rightarrow> mv_address list \<Rightarrow> ((err + mv_record option list) \<times> 'db manager) option" where
  "raw_Get m timestamp addrs = do {
     (r, store) \<leftarrow> mv_Get (mb_db (m_db m)) (m_store m) (m_pid m) timestamp addrs;
     Some (r, m\<lparr>m_store := store\<rparr>)
   }"

definition raw_GetRange ::
    "'db manager \<Rightarrow> u64 \<Rightarrow> mv_address \<Rightarrow> mv_address \<Rightarrow> ((err + mv_iter) \<times> 'db manager) option" where
  "raw_GetRange m timestamp start end = do {
     (r, store) \<leftarrow> mv_GetRange (mb_db (m_db m)) (m_store m) (m_pid m) timestamp start end;
     Some (r, m\<lparr>m_store := store\<rparr>)
   }"

fun getPointReadAddrs :: "action list \<Rightarrow> (u32 \<times> mv_address) list" where
  "getPointReadAddrs [] = []"
| "getPointReadAddrs (a # as) = (case a_Payload a of
       Action_Read ks k \<Rightarrow> (a_Id a, mv_NewAddress ks k) # getPointReadAddrs as
     | _ \<Rightarrow> getPointReadAddrs as)"

text \<open>Assigning to a nil map panics.\<close>

definition put_action_status :: "u32 \<Rightarrow> action_status \<Rightarrow> txn_status \<Rightarrow> txn_status option" where
  "put_action_status i a s = (case ts_ActionStatus s of
       None \<Rightarrow> None
     | Some as \<Rightarrow> Some (s\<lparr>ts_ActionStatus := Some (mput i a as)\<rparr>))"

definition point_status :: "(bytes \<Rightarrow> err + go_value) \<Rightarrow> u32 \<Rightarrow> mv_record option \<Rightarrow> action_status" where
  "point_status decode i record = (case record of
       None \<Rightarrow> newActionStatus i KeyNotFound []
     | Some r \<Rightarrow> (case decode (mr_Value r) of
           Inl _ \<Rightarrow> newActionStatus i CorruptedDataCode []
         | Inr v \<Rightarrow> newActionStatus i Success [v]))"

fun point_results ::
    "(bytes \<Rightarrow> err + go_value) \<Rightarrow> u32 list \<Rightarrow> mv_record option list \<Rightarrow> txn_status \<Rightarrow> txn_status option" where
  "point_results decode [] records s = Some s"
| "point_results decode (i # is) [] s = None"
| "point_results decode (i # is) (r # rs) s = do {
     s' \<leftarrow> put_action_status i (point_status decode i r) s;
     point_results decode is rs s'
   }"

fun range_results ::
    "(bytes \<Rightarrow> err + go_value) \<Rightarrow> bool \<Rightarrow> nat \<Rightarrow> go_value list \<Rightarrow> mv_iter \<Rightarrow>
     (err + (action_code \<times> go_value list)) option" where
  "range_results decode skip maxResults acc [] = Some (Inr (Success, acc))"
| "range_results decode skip maxResults acc (ItemErr e # it) = Some (Inl e)"
| "range_results decode skip maxResults acc (ItemPanic # it) = None"
| "range_results decode skip maxResults acc (Item r # it) = (case decode (mr_Value r) of
       Inl _ \<Rightarrow>
         if \<not> skip then Some (Inr (CorruptedDataCode, []))
         else range_results decode skip maxResults acc it
     | Inr v \<Rightarrow>
         if length (acc @ [v]) = maxResults then Some (Inr (Success, acc @ [v]))
         else range_results decode skip maxResults (acc @ [v]) it)"

definition readRange ::
    "reader \<Rightarrow> u64 \<Rightarrow> u32 \<Rightarrow> bytes \<Rightarrow> bytes \<Rightarrow> u32 \<Rightarrow> 'db manager \<Rightarrow>
     ((err + (action_code \<times> go_value list)) \<times> 'db manager) option" where
  "readRange p timestamp ks startKey endKey MaxResults m = do {
     (r, m') \<leftarrow> raw_GetRange m timestamp (mv_NewAddress ks startKey) (mv_NewAddress ks endKey);
     (case r of
        Inl e \<Rightarrow> Some (Inl e, m')
      | Inr it \<Rightarrow> do {
          x \<leftarrow> range_results (rr_decode p) (rr_SkipCorruptedData p)
                 (min (unat MaxResults) (rr_MaxIteratorResults p)) [] it;
          Some (x, m')
        })
   }"

fun range_reads ::
    "reader \<Rightarrow> action list \<Rightarrow> txn_status \<Rightarrow> 'db manager \<Rightarrow> ((err + txn_status) \<times> 'db manager) option" where
  "range_reads p [] s m = Some (Inr s, m)"
| "range_reads p (a # as) s m = (case a_Payload a of
       Action_ReadRange ks startKey endKey n \<Rightarrow> do {
         (r, m') \<leftarrow> readRange p (ts_Timestamp s) ks startKey endKey n m;
         (case r of
            Inl e \<Rightarrow> Some (Inl e, m')
          | Inr (code, results) \<Rightarrow> do {
              s' \<leftarrow> put_action_status (a_Id a) (newActionStatus (a_Id a) code results) s;
              range_reads p as s' m'
            })
       }
     | _ \<Rightarrow> range_reads p as s m)"

definition fetchResults ::
    "reader \<Rightarrow> txn \<Rightarrow> txn_status \<Rightarrow> 'db manager \<Rightarrow> ((err + txn_status) \<times> 'db manager) option" where
  "fetchResults p t s m = (let points = getPointReadAddrs (t_Actions t) in do {
     (r, m') \<leftarrow> raw_Get m (ts_Timestamp s) (map snd points);
     (case r of
        Inl e \<Rightarrow> Some (Inl e, m')
      | Inr records \<Rightarrow> do {
          s' \<leftarrow> point_results (rr_decode p) (map fst points) records s;
          range_reads p (t_Actions t) s' m'
        })
   })"

section \<open>The safe timestamp\<close>

definition checkSafeTimestamp ::
    "'db bump option \<Rightarrow> txn \<Rightarrow> u64 \<Rightarrow> 'db manager \<Rightarrow> (err option \<times> 'db manager) option" where
  "checkSafeTimestamp writer t timestamp m = do {
     (safeTimestamp, conflicting) \<leftarrow> getSafeTimestamp m t;
     (if timestamp \<le> safeTimestamp then Some (None, m)
      else if conflicting \<or> writer = None then Some (Some TimeOutOfRange, m)
      else do {
        (e, m') \<leftarrow> the writer timestamp m;
        (case e of
           Some e \<Rightarrow> Some (Some e, m')
         | None \<Rightarrow> do {
             (safeTimestamp, _) \<leftarrow> getSafeTimestamp m' t;
             Some (if timestamp \<le> safeTimestamp then None else Some TimeOutOfRange, m')
           })
      })
   }"

section \<open>Requests\<close>

definition AutocommitSnapshotRead ::
    "reader \<Rightarrow> 'db bump option \<Rightarrow> txn \<Rightarrow> u64 \<Rightarrow> 'db manager \<Rightarrow> ((err + txn_status) \<times> 'db manager) option" where
  "AutocommitSnapshotRead p writer t timestamp m = do {
     (e, m') \<leftarrow> checkSafeTimestamp writer t timestamp m;
     (case e of
        Some e \<Rightarrow> Some (Inl e, m')
      | None \<Rightarrow> fetchResults p t (newEmptyStatus t timestamp Committed) m')
   }"

definition AutocommitReadOnly ::
    "reader \<Rightarrow> txn \<Rightarrow> 'db manager \<Rightarrow> ((err + txn_status) \<times> 'db manager) option" where
  "AutocommitReadOnly p t m = do {
     (safeTimestamp, _) \<leftarrow> getSafeTimestamp m t;
     fetchResults p t (newEmptyStatus t safeTimestamp Committed) m
   }"

definition AutocommitReadWrite ::
    "reader \<Rightarrow> txn \<Rightarrow> txn_status \<Rightarrow> 'db manager \<Rightarrow> ((err + txn_status) \<times> 'db manager) option" where
  "AutocommitReadWrite p t s m = fetchResults p t s m"

definition PrepareReadOnly :: "int \<Rightarrow> txn \<Rightarrow> 'db manager \<Rightarrow> reader \<Rightarrow> (txn_status \<times> reader) option" where
  "PrepareReadOnly now t m p = do {
     (safeTimestamp, _) \<leftarrow> getSafeTimestamp m t;
     Some (newStatus (t_Id t) safeTimestamp Prepared,
           p\<lparr>rr_prepared := mput (t_Id t) t (rr_prepared p),
             rr_preparedTime := mput (t_Id t) now (rr_preparedTime p),
             rr_Prepared := rr_Prepared p + 1\<rparr>)
   }"

definition CommitReadOnly ::
    "reader \<Rightarrow> 'db bump option \<Rightarrow> txn_id \<Rightarrow> u64 \<Rightarrow> 'db manager \<Rightarrow> ((err + txn_status) \<times> 'db manager) option" where
  "CommitReadOnly p writer i timestamp m = (case mget (rr_prepared p) i of
       None \<Rightarrow> Some (Inl NotFound, m)
     | Some t \<Rightarrow> do {
         (e, m') \<leftarrow> checkSafeTimestamp writer t timestamp m;
         (case e of
            Some e \<Rightarrow> Some (Inl e, m')
          | None \<Rightarrow> fetchResults p t (newEmptyStatus t timestamp Committed) m')
       })"

definition CommitReadWrite ::
    "reader \<Rightarrow> txn_status \<Rightarrow> 'db manager \<Rightarrow> ((err + txn_status) \<times> 'db manager) option" where
  "CommitReadWrite p s m = (case getPreparedTxn m (ts_Id s) of
       None \<Rightarrow> Some (Inl NotFound, m)
     | Some t \<Rightarrow> fetchResults p t s m)"

end
