(* ===== verification/Txn_Writer.thy ===== *)
theory Txn_Writer
  imports Txn_Manager "HOL-Library.Multiset"
begin

text \<open>
  The writer of a partition (\<^verbatim>\<open>src/internal/data/server/txn/writer.go\<close>): it collects commands into
  batches, stamps them with the hybrid logical clock, hands them to the replicated log and passes
  each result to the caller that waits for it. A result channel is a number; sending on it is an
  entry of the list of answers. Each call of the clock reads the wall clock anew: \<open>clks\<close> gives the
  readings of the calls in order.
\<close>

section \<open>Stamping a batch\<close>

type_synonym clock = "nat \<times> hlc"

definition hlcNow :: "(nat \<Rightarrow> nat \<Rightarrow> u64) \<Rightarrow> u64 \<times> clock \<Rightarrow> (u64 \<times> u64 \<times> clock) option" where
  "hlcNow clks s = (case s of (maxTS, n, h) \<Rightarrow> do {
     (ts, h') \<leftarrow> hlc_now (clks n) h;
     Some (ts, ts, Suc n, h')
   })"

fun stamp ::
    "(nat \<Rightarrow> nat \<Rightarrow> u64) \<Rightarrow> (u64 \<Rightarrow> 'c \<Rightarrow> 'c) \<Rightarrow> 'c list \<Rightarrow> u64 \<times> clock \<Rightarrow> ('c list \<times> u64 \<times> clock) option" where
  "stamp clks f [] s = Some ([], s)"
| "stamp clks f (x # xs) s = do {
     (ts, s') \<leftarrow> hlcNow clks s;
     (ys, s'') \<leftarrow> stamp clks f xs s';
     Some (f ts x # ys, s'')
   }"

definition prepareBatch ::
    "(nat \<Rightarrow> nat \<Rightarrow> u64) \<Rightarrow> txn_batch \<Rightarrow> clock \<Rightarrow> (txn_batch \<times> clock) option" where
  "prepareBatch clks batch c = do {
     (au, s1) \<leftarrow> stamp clks (\<lambda>ts x. x\<lparr>ac_Timestamp := ts\<rparr>) (b_Autocommit batch) (0, c);
     (pp, s2) \<leftarrow> stamp clks (\<lambda>ts x. x\<lparr>pp_Timestamp := ts\<rparr>) (b_Prepare batch) s1;
     (ab, s3) \<leftarrow> stamp clks (\<lambda>ts x. x\<lparr>ab_Timestamp := ts\<rparr>) (b_Abort batch) s2;
     (sd, s4) \<leftarrow> stamp clks (\<lambda>ts x. x\<lparr>sd_Timestamp := ts\<rparr>) (b_StoreDecision batch) s3;
     (mt, s5) \<leftarrow> stamp clks (\<lambda>ts x. x\<lparr>mt_Timestamp := ts\<rparr>) (b_MarkTimedout batch) s4;
     let maxTS = fold (\<lambda>x m. max m (c_Timestamp x)) (b_Commit batch) (fst s5);
     Some (batch\<lparr>b_Autocommit := au, b_Prepare := pp, b_Abort := ab, b_StoreDecision := sd,
                 b_MarkTimedout := mt, b_MaxTimestamp := max (b_MaxTimestamp batch) maxTS\<rparr>, snd s5)
   }"

section \<open>Collecting commands\<close>

datatype payload =
    P_Autocommit autocommit
  | P_Prepare prepare
  | P_Commit commit
  | P_Abort abort
  | P_StoreDecision store_decision
  | P_MarkTimedout mark_timedout
  | P_UpdateTimestamp u64
  | P_Unknown

record batch_waiting =
  w_Autocommit :: "nat list"
  w_Prepare :: "nat list"
  w_Commit :: "nat list"
  w_Abort :: "nat list"
  w_StoreDecision :: "nat list"
  w_MarkTimedout :: "nat list"
  w_UpdateTimestamp :: "nat list"

record writer =
  wr_batch :: txn_batch
  wr_waiting :: batch_waiting
  wr_batchSize :: nat
  wr_timer :: bool
  wr_clock :: clock

definition no_batch :: txn_batch where
  "no_batch = \<lparr>b_Autocommit = [], b_Prepare = [], b_Commit = [], b_Abort = [], b_StoreDecision = [],
               b_MarkTimedout = [], b_MaxTimestamp = 0\<rparr>"

definition no_waiting :: batch_waiting where
  "no_waiting = \<lparr>w_Autocommit = [], w_Prepare = [], w_Commit = [], w_Abort = [], w_StoreDecision = [],
                 w_MarkTimedout = [], w_UpdateTimestamp = []\<rparr>"

definition newWriter :: "clock \<Rightarrow> writer" where
  "newWriter c = \<lparr>wr_batch = no_batch, wr_waiting = no_waiting, wr_batchSize = 0, wr_timer = False, wr_clock = c\<rparr>"

text \<open>The type switch of \<^verbatim>\<open>writer.mainLoop\<close>.\<close>

definition add_command ::
    "payload \<Rightarrow> nat \<Rightarrow> txn_batch \<times> batch_waiting \<Rightarrow> (txn_batch \<times> batch_waiting) option" where
  "add_command x ch s = (case s of (b, w) \<Rightarrow> (case x of
       P_Autocommit c \<Rightarrow> Some (b\<lparr>b_Autocommit := b_Autocommit b @ [c]\<rparr>, w\<lparr>w_Autocommit := w_Autocommit w @ [ch]\<rparr>)
     | P_Prepare c \<Rightarrow> Some (b\<lparr>b_Prepare := b_Prepare b @ [c]\<rparr>, w\<lparr>w_Prepare := w_Prepare w @ [ch]\<rparr>)
     | P_Commit c \<Rightarrow> Some (b\<lparr>b_Commit := b_Commit b @ [c]\<rparr>, w\<lparr>w_Commit := w_Commit w @ [ch]\<rparr>)
     | P_Abort c \<Rightarrow> Some (b\<lparr>b_Abort := b_Abort b @ [c]\<rparr>, w\<lparr>w_Abort := w_Abort w @ [ch]\<rparr>)
     | P_StoreDecision c \<Rightarrow>
         Some (b\<lparr>b_StoreDecision := b_StoreDecision b @ [c]\<rparr>, w\<lparr>w_StoreDecision := w_StoreDecision w @ [ch]\<rparr>)
     | P_MarkTimedout c \<Rightarrow>
         Some (b\<lparr>b_MarkTimedout := b_MarkTimedout b @ [c]\<rparr>, w\<lparr>w_MarkTimedout := w_MarkTimedout w @ [ch]\<rparr>)
     | P_UpdateTimestamp ts \<Rightarrow>
         Some (b\<lparr>b_MaxTimestamp := max (b_MaxTimestamp b) ts\<rparr>, w\<lparr>w_UpdateTimestamp := w_UpdateTimestamp w @ [ch]\<rparr>)
     | P_Unknown \<Rightarrow> None))"

text \<open>A batch that leaves for the replicated log, with the callers that wait for its results.\<close>

definition nextBatch ::
    "(nat \<Rightarrow> nat \<Rightarrow> u64) \<Rightarrow> writer \<Rightarrow> ((txn_batch \<times> batch_waiting) \<times> writer) option" where
  "nextBatch clks s = do {
     (batch, c) \<leftarrow> prepareBatch clks (wr_batch s) (wr_clock s);
     Some ((batch, wr_waiting s),
           s\<lparr>wr_batch := no_batch, wr_waiting := no_waiting, wr_batchSize := 0, wr_timer := False, wr_clock := c\<rparr>)
   }"

datatype writer_event = Ev_Timer | Ev_Command payload nat

definition writer_step ::
    "(nat \<Rightarrow> nat \<Rightarrow> u64) \<Rightarrow> nat \<Rightarrow> writer_event \<Rightarrow> writer \<Rightarrow>
     ((txn_batch \<times> batch_waiting) option \<times> writer) option" where
  "writer_step clks MaxBatchSize ev s = (case ev of
       Ev_Timer \<Rightarrow> do { (out, s') \<leftarrow> nextBatch clks s; Some (Some out, s') }
     | Ev_Command x ch \<Rightarrow> do {
         (b, w) \<leftarrow> add_command x ch (wr_batch s, wr_waiting s);
         let s1 = s\<lparr>wr_batch := b, wr_waiting := w, wr_batchSize := wr_batchSize s + 1\<rparr>;
         (if wr_batchSize s1 = 1 then Some (None, s1\<lparr>wr_timer := True\<rparr>)
          else if wr_batchSize s1 = MaxBatchSize then do { (out, s2) \<leftarrow> nextBatch clks s1; Some (Some out, s2) }
          else Some (None, s1))
       })"

section \<open>Handing out results\<close>

definition waiting_channels :: "batch_waiting \<Rightarrow> nat list" where
  "waiting_channels w = w_UpdateTimestamp w @ w_Autocommit w @ w_Prepare w @ w_Commit w @ w_Abort w @
     w_StoreDecision w @ w_MarkTimedout w"

text \<open>The caller of \<^verbatim>\<open>UpdateTimestamp\<close> only looks at the error; it gets no status.\<close>

type_synonym answer = "nat \<times> (err + txn_status option)"

definition sendBatchErr :: "batch_waiting \<Rightarrow> err \<Rightarrow> answer list" where
  "sendBatchErr w e = map (\<lambda>ch. (ch, Inl e)) (waiting_channels w)"

fun hand_out :: "nat list \<Rightarrow> batch_result list \<Rightarrow> answer list option" where
  "hand_out chs [] = Some []"
| "hand_out [] (r # rs) = None"
| "hand_out (ch # chs) (r # rs) = do {
     as \<leftarrow> hand_out chs rs;
     Some ((ch, case r of Inl e \<Rightarrow> Inl e | Inr s \<Rightarrow> Inr (Some s)) # as)
   }"

definition waitBatchResult :: "batch_waiting \<Rightarrow> err + batch_results \<Rightarrow> answer list option" where
  "waitBatchResult w r = (case r of
       Inl e \<Rightarrow> Some (sendBatchErr w e)
     | Inr rs \<Rightarrow> do {
         a \<leftarrow> hand_out (w_Autocommit w) (br_Autocommit rs);
         p \<leftarrow> hand_out (w_Prepare w) (br_Prepare rs);
         c \<leftarrow> hand_out (w_Commit w) (br_Commit rs);
         b \<leftarrow> hand_out (w_Abort w) (br_Abort rs);
         d \<leftarrow> hand_out (w_StoreDecision w) (br_StoreDecision rs);
         t \<leftarrow> hand_out (w_MarkTimedout w) (br_MarkTimedout rs);
         Some (map (\<lambda>ch. (ch, Inr None)) (w_UpdateTimestamp w) @ a @ p @ c @ b @ d @ t)
       })"

text \<open>When the writer stops, the callers of the unfinished batch get an error.\<close>

definition writer_done :: "writer \<Rightarrow> answer list" where
  "writer_done s = (if wr_batchSize s \<noteq> 0 then sendBatchErr (wr_waiting s) Unavailable else [])"

section \<open>Lemmas\<close>

text \<open>The commands and their callers are added in step.\<close>

definition in_step :: "txn_batch \<Rightarrow> batch_waiting \<Rightarrow> bool" where
  "in_step b w \<longleftrightarrow> length (b_Autocommit b) = length (w_Autocommit w) \<and> length (b_Prepare b) = length (w_Prepare w) \<and>
     length (b_Commit b) = length (w_Commit w) \<and> length (b_Abort b) = length (w_Abort w) \<and>
     length (b_StoreDecision b) = length (w_StoreDecision w) \<and> length (b_MarkTimedout b) = length (w_MarkTimedout w)"

lemma add_command_in_step: "add_command x ch (b, w) = Some (b', w') \<Longrightarrow> in_step b w \<Longrightarrow> in_step b' w'"
  by (cases x) (auto simp: add_command_def in_step_def)

lemma add_command_channels:
  "add_command x ch (b, w) = Some (b', w') \<Longrightarrow> mset (waiting_channels w') = add_mset ch (mset (waiting_channels w))"
  by (cases x) (auto simp: add_command_def waiting_channels_def)

lemma length_stamp: "stamp clks f xs s = Some (ys, s') \<Longrightarrow> length ys = length xs"
  by (induction xs arbitrary: ys s) (auto split: bind_splits)

lemma prepareBatch_lengths:
  "prepareBatch clks b c = Some (b', c') \<Longrightarrow> in_step b' w = in_step b w"
  by (auto simp: prepareBatch_def in_step_def split: bind_splits dest!: length_stamp)

lemma length_each: "each f cs m = Some (rs, m') \<Longrightarrow> length rs = length cs"
  by (induction cs arbitrary: m rs) (auto split: bind_splits)

lemma hand_out_map:
  "length chs = length rs \<Longrightarrow> \<exists>as. hand_out chs rs = Some as \<and> map fst as = chs"
  by (induction chs rs rule: list_induct2) auto

lemma ApplyBatch_lengths:
  assumes "ApplyBatch now index b m = Some (rs, m')"
  shows "length (br_Autocommit rs) = length (b_Autocommit b)" "length (br_Prepare rs) = length (b_Prepare b)"
    "length (br_Commit rs) = length (b_Commit b)" "length (br_Abort rs) = length (b_Abort b)"
    "length (br_StoreDecision rs) = length (b_StoreDecision b)" "length (br_MarkTimedout rs) = length (b_MarkTimedout b)"
  using assms by (auto simp: ApplyBatch_def Let_def split: bind_splits dest!: length_each)


section \<open>Runs of the writer\<close>

text \<open>
  What can happen to a writer: it takes a command, its timer fires, or another part of the server
  updates the shared clock with a timestamp it received. Callers update the clock before they submit
  a timestamp of their own (\<^verbatim>\<open>Service.Commit\<close>, \<^verbatim>\<open>Service.Autocommit\<close>), so such a timestamp is not
  ahead of the clock. The trace keeps the channels of the submitted commands and the batches sent.
\<close>

fun payload_time :: "payload \<Rightarrow> u64" where
  "payload_time (P_Commit c) = c_Timestamp c"
| "payload_time (P_UpdateTimestamp ts) = ts"
| "payload_time _ = 0"

definition opt_list :: "'a option \<Rightarrow> 'a list" where
  "opt_list x = (case x of None \<Rightarrow> [] | Some y \<Rightarrow> [y])"

inductive writer_trace ::
    "(nat \<Rightarrow> nat \<Rightarrow> u64) \<Rightarrow> nat \<Rightarrow> nat list \<Rightarrow> (txn_batch \<times> batch_waiting) list \<Rightarrow> writer \<Rightarrow> bool"
  for clks n where
  Start: "hlc_wf h \<Longrightarrow> writer_trace clks n [] [] (newWriter (i, h))"
| Command: "writer_trace clks n chs outs s \<Longrightarrow> payload_time x \<le> hlc_val (snd (wr_clock s)) \<Longrightarrow>
    writer_step clks n (Ev_Command x ch) s = Some (out, s') \<Longrightarrow>
    writer_trace clks n (chs @ [ch]) (outs @ opt_list out) s'"
| Timer: "writer_trace clks n chs outs s \<Longrightarrow> wr_timer s \<Longrightarrow>
    writer_step clks n Ev_Timer s = Some (out, s') \<Longrightarrow> writer_trace clks n chs (outs @ opt_list out) s'"
| Observe: "writer_trace clks n chs outs s \<Longrightarrow> hlc_update clk ts (snd (wr_clock s)) = Some (r, h) \<Longrightarrow>
    writer_trace clks n chs outs (s\<lparr>wr_clock := (fst (wr_clock s), h)\<rparr>)"

definition stamps :: "txn_batch \<Rightarrow> u64 list" where
  "stamps b = map ac_Timestamp (b_Autocommit b) @ map pp_Timestamp (b_Prepare b) @ map ab_Timestamp (b_Abort b) @
     map sd_Timestamp (b_StoreDecision b) @ map mt_Timestamp (b_MarkTimedout b)"

text \<open>Stamping a list of commands, as a stage that later stages can follow.\<close>

definition stage :: "hlc \<Rightarrow> u64 \<Rightarrow> u64 list \<Rightarrow> hlc \<Rightarrow> u64 \<Rightarrow> bool" where
  "stage h mx ts h' mx' \<longleftrightarrow> hlc_wf h' \<and> hlc_val h \<le> hlc_val h' \<and> sorted_wrt (<) ts \<and>
     (\<forall>t \<in> set ts. hlc_val h < t \<and> t \<le> mx') \<and> mx \<le> mx' \<and> mx' \<le> hlc_val h'"

lemma stage_append:
  assumes "stage h mx ts h1 mx1" "stage h1 mx1 us h2 mx2"
  shows "stage h mx (ts @ us) h2 mx2"
  using assms unfolding stage_def by (auto simp: sorted_wrt_append) (meson le_less_trans order_trans)+

lemma stamp_stage:
  assumes "stamp clks f xs (mx, i, h) = Some (ys, mx', i', h')" "hlc_wf h" "\<And>ts x. g (f ts x) = ts"
    and "mx \<le> hlc_val h"
  shows "stage h mx (map g ys) h' mx'"
  using assms
proof (induction xs arbitrary: mx i h ys)
  case (Cons x xs)
  obtain ts h1 zs where a: "hlc_now (clks i) h = Some (ts, h1)" "stamp clks f xs (ts, Suc i, h1) = Some (zs, mx', i', h')"
    "ys = f ts x # zs"
    using Cons.prems(1) by (auto simp: hlcNow_def split: bind_splits)
  have c: "hlc_wf h1" "ts = hlc_val h1" "hlc_val h < ts" using hlc_now_correct [OF Cons.prems(2) a(1)] by auto
  then have "stage h mx [ts] h1 ts" using Cons.prems(4) by (auto simp: stage_def)
  moreover have "stage h1 ts (map g zs) h' mx'"
    using Cons.IH [OF a(2) c(1) Cons.prems(3)] c(2) by simp
  ultimately have "stage h mx ([ts] @ map g zs) h' mx'" by (rule stage_append)
  with a(3) Cons.prems(3) show ?case by simp
qed (simp add: stage_def)

lemma stage_wf: "stage h mx ts h' mx' \<Longrightarrow> hlc_wf h'" "stage h mx ts h' mx' \<Longrightarrow> mx' \<le> hlc_val h'"
  by (simp_all add: stage_def)

lemma fold_max_bounds:
  fixes m :: "'a::linorder"
  shows "fold (\<lambda>x m. max m (f x)) xs m \<le> u \<longleftrightarrow> m \<le> u \<and> (\<forall>x \<in> set xs. f x \<le> u)"
  by (induction xs arbitrary: m) auto

lemma fold_max_ge:
  fixes m :: "'a::linorder"
  shows "m \<le> fold (\<lambda>x m. max m (f x)) xs m" "x \<in> set xs \<Longrightarrow> f x \<le> fold (\<lambda>x m. max m (f x)) xs m"
  using fold_max_bounds [of f xs m "fold (\<lambda>x m. max m (f x)) xs m"] by auto

lemma prepareBatch_spec:
  assumes "prepareBatch clks b (i, h) = Some (b', i', h')" "hlc_wf h"
    and "b_MaxTimestamp b \<le> hlc_val h" "\<forall>c \<in> set (b_Commit b). c_Timestamp c \<le> hlc_val h"
  shows "hlc_wf h'" "hlc_val h \<le> hlc_val h'" "sorted_wrt (<) (stamps b')"
    "\<forall>t \<in> set (stamps b'). hlc_val h < t \<and> t \<le> b_MaxTimestamp b'" "b_MaxTimestamp b' \<le> hlc_val h'"
    "\<forall>c \<in> set (b_Commit b'). c_Timestamp c \<le> b_MaxTimestamp b'" "b_MaxTimestamp b \<le> b_MaxTimestamp b'"
proof -
  obtain au m1 i1 h1 pp m2 i2 h2 ab m3 i3 h3 sd m4 i4 h4 mt m5 where st:
    "stamp clks (\<lambda>ts x. x\<lparr>ac_Timestamp := ts\<rparr>) (b_Autocommit b) (0, i, h) = Some (au, m1, i1, h1)"
    "stamp clks (\<lambda>ts x. x\<lparr>pp_Timestamp := ts\<rparr>) (b_Prepare b) (m1, i1, h1) = Some (pp, m2, i2, h2)"
    "stamp clks (\<lambda>ts x. x\<lparr>ab_Timestamp := ts\<rparr>) (b_Abort b) (m2, i2, h2) = Some (ab, m3, i3, h3)"
    "stamp clks (\<lambda>ts x. x\<lparr>sd_Timestamp := ts\<rparr>) (b_StoreDecision b) (m3, i3, h3) = Some (sd, m4, i4, h4)"
    "stamp clks (\<lambda>ts x. x\<lparr>mt_Timestamp := ts\<rparr>) (b_MarkTimedout b) (m4, i4, h4) = Some (mt, m5, i', h')"
    and b': "b' = b\<lparr>b_Autocommit := au, b_Prepare := pp, b_Abort := ab, b_StoreDecision := sd, b_MarkTimedout := mt,
      b_MaxTimestamp := max (b_MaxTimestamp b) (fold (\<lambda>x m. max m (c_Timestamp x)) (b_Commit b) m5)\<rparr>"
    using assms(1) by (auto simp: prepareBatch_def Let_def split: bind_splits)
  have s1: "stage h 0 (map ac_Timestamp au) h1 m1"
    by (rule stamp_stage [OF st(1) assms(2)]) simp_all
  have s2: "stage h1 m1 (map pp_Timestamp pp) h2 m2"
    by (rule stamp_stage [OF st(2) stage_wf(1) [OF s1]]) (simp_all add: stage_wf(2) [OF s1])
  have s3: "stage h2 m2 (map ab_Timestamp ab) h3 m3"
    by (rule stamp_stage [OF st(3) stage_wf(1) [OF s2]]) (simp_all add: stage_wf(2) [OF s2])
  have s4: "stage h3 m3 (map sd_Timestamp sd) h4 m4"
    by (rule stamp_stage [OF st(4) stage_wf(1) [OF s3]]) (simp_all add: stage_wf(2) [OF s3])
  have s5: "stage h4 m4 (map mt_Timestamp mt) h' m5"
    by (rule stamp_stage [OF st(5) stage_wf(1) [OF s4]]) (simp_all add: stage_wf(2) [OF s4])
  have "stage h 0 (stamps b') h' m5"
    using stage_append [OF s1 stage_append [OF s2 stage_append [OF s3 stage_append [OF s4 s5]]]]
    by (simp add: stamps_def b')
  then have all: "hlc_wf h'" "hlc_val h \<le> hlc_val h'" "sorted_wrt (<) (stamps b')"
    "\<forall>t \<in> set (stamps b'). hlc_val h < t \<and> t \<le> m5" "m5 \<le> hlc_val h'" by (simp_all add: stage_def)
  show "hlc_wf h'" "hlc_val h \<le> hlc_val h'" "sorted_wrt (<) (stamps b')" using all(1-3) .
  have mx: "b_MaxTimestamp b' = max (b_MaxTimestamp b) (fold (\<lambda>x m. max m (c_Timestamp x)) (b_Commit b) m5)"
    and cm: "b_Commit b' = b_Commit b" by (simp_all add: b')
  have "m5 \<le> b_MaxTimestamp b'" using fold_max_ge(1) [of m5 c_Timestamp "b_Commit b"] by (simp add: mx le_max_iff_disj)
  with all(4) show "\<forall>t \<in> set (stamps b'). hlc_val h < t \<and> t \<le> b_MaxTimestamp b'" by auto
  show "b_MaxTimestamp b' \<le> hlc_val h'"
    using all(2,5) assms(3,4) by (auto simp: mx fold_max_bounds intro: order_trans)
  show "\<forall>c \<in> set (b_Commit b'). c_Timestamp c \<le> b_MaxTimestamp b'"
    using fold_max_ge(2) [of _ "b_Commit b" c_Timestamp m5] by (auto simp: mx cm le_max_iff_disj)
  show "b_MaxTimestamp b \<le> b_MaxTimestamp b'" by (simp add: mx)
qed

text \<open>What the writer keeps true along a run.\<close>

definition writer_inv :: "nat list \<Rightarrow> (txn_batch \<times> batch_waiting) list \<Rightarrow> writer \<Rightarrow> bool" where
  "writer_inv chs outs s \<longleftrightarrow> hlc_wf (snd (wr_clock s)) \<and>
     b_MaxTimestamp (wr_batch s) \<le> hlc_val (snd (wr_clock s)) \<and>
     (\<forall>c \<in> set (b_Commit (wr_batch s)). c_Timestamp c \<le> hlc_val (snd (wr_clock s))) \<and>
     in_step (wr_batch s) (wr_waiting s) \<and>
     mset chs = mset (concat (map (waiting_channels \<circ> snd) outs)) + mset (waiting_channels (wr_waiting s)) \<and>
     (wr_batchSize s = 0 \<longrightarrow> waiting_channels (wr_waiting s) = []) \<and>
     sorted_wrt (\<lambda>(b, _) (b', _). \<forall>t \<in> set (stamps b'). b_MaxTimestamp b < t) outs \<and>
     (\<forall>(b, w) \<in> set outs. in_step b w \<and> sorted_wrt (<) (stamps b) \<and> b_MaxTimestamp b \<le> hlc_val (snd (wr_clock s)) \<and>
        (\<forall>t \<in> set (stamps b). 0 < t \<and> t \<le> b_MaxTimestamp b))"

lemma nextBatch_inv:
  assumes "writer_inv chs outs s" "nextBatch clks s = Some (out, s')"
  shows "writer_inv chs (outs @ [out]) s'"
proof -
  obtain i h where c: "wr_clock s = (i, h)" by fastforce
  obtain b' i' h' where p: "prepareBatch clks (wr_batch s) (i, h) = Some (b', i', h')"
    "out = (b', wr_waiting s)" "s' = s\<lparr>wr_batch := no_batch, wr_waiting := no_waiting, wr_batchSize := 0, wr_timer := False, wr_clock := (i', h')\<rparr>"
    using assms(2) c by (auto simp: nextBatch_def split: bind_splits)
  have inv: "hlc_wf h" "b_MaxTimestamp (wr_batch s) \<le> hlc_val h" "\<forall>c \<in> set (b_Commit (wr_batch s)). c_Timestamp c \<le> hlc_val h"
    using assms(1) c by (simp_all add: writer_inv_def)
  note sp = prepareBatch_spec [OF p(1) inv]
  have step: "in_step b' (wr_waiting s)" using prepareBatch_lengths [OF p(1)] assms(1) by (simp add: writer_inv_def)
  have old: "b_MaxTimestamp b \<le> hlc_val h" if "(b, w) \<in> set outs" for b w
    using assms(1) that c by (auto simp: writer_inv_def)
  have "sorted_wrt (\<lambda>(b, _) (b', _). \<forall>t \<in> set (stamps b'). b_MaxTimestamp b < t) (outs @ [out])"
    using assms(1) old sp(4) p(2) by (fastforce simp: writer_inv_def sorted_wrt_append)
  moreover have "\<forall>t \<in> set (stamps b'). 0 < t \<and> t \<le> b_MaxTimestamp b'"
    using sp(4) by (metis word_gt_0 word_not_simps(1))
  then have "\<forall>(b, w) \<in> set (outs @ [out]). in_step b w \<and> sorted_wrt (<) (stamps b) \<and> b_MaxTimestamp b \<le> hlc_val h' \<and>
        (\<forall>t \<in> set (stamps b). 0 < t \<and> t \<le> b_MaxTimestamp b)"
    using assms(1) old sp(2,3,5) p(2) step by (fastforce simp: writer_inv_def intro: order_trans)
  ultimately show ?thesis
    using assms(1) sp(1) by (simp add: writer_inv_def p(2,3) no_batch_def no_waiting_def in_step_def waiting_channels_def)
qed

lemma add_command_inv:
  assumes "writer_inv chs outs s" "payload_time x \<le> hlc_val (snd (wr_clock s))"
    and "add_command x ch (wr_batch s, wr_waiting s) = Some (b, w)"
  shows "writer_inv (chs @ [ch]) outs (s\<lparr>wr_batch := b, wr_waiting := w, wr_batchSize := Suc (wr_batchSize s)\<rparr>)"
proof -
  let ?v = "hlc_val (snd (wr_clock s))"
  have "b_MaxTimestamp b \<le> ?v \<and> (\<forall>c \<in> set (b_Commit b). c_Timestamp c \<le> ?v)"
    using assms by (cases x) (auto simp: add_command_def writer_inv_def)
  then show ?thesis
    using assms(1) add_command_in_step [OF assms(3)] add_command_channels [OF assms(3)]
    by (simp add: writer_inv_def)
qed

lemma writer_inv_timer [simp]: "writer_inv chs outs (s\<lparr>wr_timer := t\<rparr>) = writer_inv chs outs s"
  by (simp add: writer_inv_def)

lemma writer_trace_inv: "writer_trace clks n chs outs s \<Longrightarrow> writer_inv chs outs s"
proof (induction rule: writer_trace.induct)
  case (Start h i)
  then show ?case
    by (simp add: writer_inv_def newWriter_def no_batch_def no_waiting_def in_step_def waiting_channels_def)
next
  case (Command chs outs s x ch out s')
  obtain b w where bw: "add_command x ch (wr_batch s, wr_waiting s) = Some (b, w)"
    using Command.hyps(3) by (auto simp: writer_step_def split: bind_splits)
  note inv = add_command_inv [OF Command.IH Command.hyps(2) bw]
  let ?s = "s\<lparr>wr_batch := b, wr_waiting := w, wr_batchSize := Suc (wr_batchSize s)\<rparr>"
  consider "out = None" "s' = ?s\<lparr>wr_timer := True\<rparr>" | "out = None" "s' = ?s" |
    y where "out = Some y" "nextBatch clks ?s = Some (y, s')"
    using Command.hyps(3) bw by (auto simp: writer_step_def Let_def split: bind_splits if_splits)
  then show ?case
    using inv nextBatch_inv [OF inv] by cases (simp_all add: opt_list_def)
next
  case (Timer chs outs s out s')
  then show ?case
    using nextBatch_inv [OF Timer.IH] by (auto simp: writer_step_def opt_list_def split: bind_splits)
next
  case (Observe chs outs s clk ts r h)
  have "hlc_wf h \<and> hlc_val (snd (wr_clock s)) \<le> hlc_val h"
    using hlc_update_correct [OF _ Observe.hyps(2)] Observe.IH by (auto simp: writer_inv_def)
  then show ?case using Observe.IH by (fastforce simp: writer_inv_def intro: order_trans)
qed


lemma waitBatchResult_answers:
  assumes "in_step b w" "ApplyBatch now index b m = Some (rs, m')"
  shows "\<exists>as. waitBatchResult w (Inr rs) = Some as \<and> map fst as = waiting_channels w"
proof -
  note len = ApplyBatch_lengths [OF assms(2)]
  obtain a p c x d t where "hand_out (w_Autocommit w) (br_Autocommit rs) = Some a" "map fst a = w_Autocommit w"
    "hand_out (w_Prepare w) (br_Prepare rs) = Some p" "map fst p = w_Prepare w"
    "hand_out (w_Commit w) (br_Commit rs) = Some c" "map fst c = w_Commit w"
    "hand_out (w_Abort w) (br_Abort rs) = Some x" "map fst x = w_Abort w"
    "hand_out (w_StoreDecision w) (br_StoreDecision rs) = Some d" "map fst d = w_StoreDecision w"
    "hand_out (w_MarkTimedout w) (br_MarkTimedout rs) = Some t" "map fst t = w_MarkTimedout w"
    using assms(1) len hand_out_map unfolding in_step_def by metis
  then show ?thesis by (simp add: waitBatchResult_def waiting_channels_def o_def)
qed

section \<open>Properties\<close>

text \<open>
  C10: batches leave the writer in timestamp order. Along every run, the timestamps given out in a
  batch are strictly increasing, autocommits before prepares, none is above the highest timestamp
  the batch declares, and all are above the highest timestamp declared by every earlier batch.
\<close>

theorem batches_ordered:
  assumes "writer_trace clks n chs outs s"
  shows "sorted_wrt (\<lambda>(b, _) (b', _). \<forall>t \<in> set (stamps b'). b_MaxTimestamp b < t) outs \<and>
    (\<forall>(b, w) \<in> set outs. sorted_wrt (<) (stamps b) \<and> (\<forall>t \<in> set (stamps b). t \<le> b_MaxTimestamp b))"
  using writer_trace_inv [OF assms] by (auto simp: writer_inv_def)

definition demo_clks :: "nat \<Rightarrow> nat \<Rightarrow> u64" where
  "demo_clks n i = 65536 * of_nat (n + i + 2)"

definition demo_abort :: payload where
  "demo_abort = P_Abort \<lparr>ab_Id = \<lparr>PrincipalPid = 1, ServerId = 1, IdTimestamp = 1\<rparr>, ab_Timestamp = 0\<rparr>"

definition demo_w0 :: writer where
  "demo_w0 = newWriter (0, hlc_new 0 65536)"

definition demo_w1 :: writer where
  "demo_w1 = snd (the (writer_step demo_clks 2 (Ev_Command (P_UpdateTimestamp 65536) 5) demo_w0))"

definition demo_w2 :: "(txn_batch \<times> batch_waiting) option \<times> writer" where
  "demo_w2 = the (writer_step demo_clks 2 (Ev_Command demo_abort 6) demo_w1)"

definition demo_sent :: "txn_batch \<times> batch_waiting" where
  "demo_sent = the (fst demo_w2)"

lemma demo_writer:
  "writer_trace demo_clks 2 [5, 6] [demo_sent] (snd demo_w2)" "length (stamps (fst demo_sent)) = 1"
  "waiting_channels (snd demo_sent) = [5, 6]"
proof -
  have w0: "writer_trace demo_clks 2 [] [] demo_w0" unfolding demo_w0_def by (rule Start) simp
  have "writer_step demo_clks 2 (Ev_Command (P_UpdateTimestamp 65536) 5) demo_w0 \<noteq> None"
    "fst (the (writer_step demo_clks 2 (Ev_Command (P_UpdateTimestamp 65536) 5) demo_w0)) = None"
    "65536 \<le> hlc_val (snd (wr_clock demo_w0))" by code_simp+
  then have "writer_step demo_clks 2 (Ev_Command (P_UpdateTimestamp 65536) 5) demo_w0 = Some (None, demo_w1)"
    and "payload_time (P_UpdateTimestamp 65536) \<le> hlc_val (snd (wr_clock demo_w0))"
    by (auto simp: demo_w1_def)
  from Command [OF w0 this(2,1)] have w1: "writer_trace demo_clks 2 [5] [] demo_w1" by (simp add: opt_list_def)
  have "writer_step demo_clks 2 (Ev_Command demo_abort 6) demo_w1 \<noteq> None" "fst demo_w2 \<noteq> None" by code_simp+
  then have "writer_step demo_clks 2 (Ev_Command demo_abort 6) demo_w1 = Some (Some demo_sent, snd demo_w2)"
    by (auto simp: demo_w2_def demo_sent_def)
  from Command [OF w1 _ this] show "writer_trace demo_clks 2 [5, 6] [demo_sent] (snd demo_w2)"
    by (simp add: opt_list_def demo_abort_def)
  show "length (stamps (fst demo_sent)) = 1" "waiting_channels (snd demo_sent) = [5, 6]" by code_simp+
qed

theorem batches_ordered_witness:
  "writer_trace demo_clks 2 [5, 6] [demo_sent] (snd demo_w2) \<and> length (stamps (fst demo_sent)) = 1 \<and>
    list_all (\<lambda>t. t \<le> b_MaxTimestamp (fst demo_sent)) (stamps (fst demo_sent))"
  using batches_ordered [OF demo_writer(1)] demo_writer by (simp add: case_prod_beta list_all_iff)

text \<open>
  C11: no command is lost and none is answered twice. Along every run, the channels of the
  submitted commands are exactly those waiting for a batch that was sent or for the current one; and
  when a batch that was sent has been applied, or has failed, every channel that waits for it gets
  exactly one answer. Nothing waits when the writer holds no command.
\<close>

theorem every_command_answered:
  assumes "writer_trace clks n chs outs s" "(b, w) \<in> set outs" "ApplyBatch now index b m = Some (rs, m')"
  shows "mset chs = mset (concat (map (waiting_channels \<circ> snd) outs)) + mset (waiting_channels (wr_waiting s)) \<and>
    (\<exists>as. waitBatchResult w (Inr rs) = Some as \<and> map fst as = waiting_channels w) \<and>
    (\<exists>as. waitBatchResult w (Inl e) = Some as \<and> map fst as = waiting_channels w) \<and>
    map fst (writer_done s) = waiting_channels (wr_waiting s)"
proof -
  note inv = writer_trace_inv [OF assms(1)]
  have "in_step b w" using inv assms(2) by (auto simp: writer_inv_def)
  from waitBatchResult_answers [OF this assms(3)] inv show ?thesis
    by (auto simp: writer_inv_def waitBatchResult_def sendBatchErr_def writer_done_def o_def)
qed

theorem every_command_answered_witness:
  "\<exists>rs as. waitBatchResult (snd demo_sent) (Inr rs) = Some as \<and> map fst as = [5, 6]"
proof -
  let ?m = "NewManager 1 (Emulated_ops inmem_ops) 1 [(1, \<lparr>p_index = 0, p_records = []\<rparr>)] (\<lambda>_. None) 1000"
  have "ApplyBatch (0, 1000) 1 (fst demo_sent) ?m \<noteq> None" by code_simp
  then obtain rs m' where "ApplyBatch (0, 1000) 1 (fst demo_sent) ?m = Some (rs, m')" by auto
  from every_command_answered [OF demo_writer(1), of "fst demo_sent" "snd demo_sent", OF _ this, of NotFound] demo_writer(3)
  show ?thesis by (intro exI [of _ rs]) simp
qed

end
