(* ===== verification/Queue.thy ===== *)
theory Queue
  imports Prelude
begin

text \<open>
  The double-ended queue of \<^verbatim>\<open>src/internal/utils/queue.go\<close>: a doubly linked list whose nodes live in
  an explicit heap, because the operations change nodes through pointers. The locale \<open>deque\<close> is the
  contract its clients rely on; the linked list satisfies it with the list of its values from head to
  tail as the abstraction.
\<close>

section \<open>The linked list\<close>

record 'a queue_node =
  qn_value :: 'a
  qn_next :: "nat option"
  qn_prev :: "nat option"

text \<open>Allocation takes the address \<open>q_fresh\<close>; a node that is unlinked is left to the collector.\<close>

record 'a queue =
  q_heap :: "nat \<Rightarrow> 'a queue_node option"
  q_fresh :: nat
  q_head :: "nat option"
  q_tail :: "nat option"

definition new_node :: "'a queue_node \<Rightarrow> 'a queue \<Rightarrow> nat \<times> 'a queue" where
  "new_node n q = (q_fresh q, q\<lparr>q_heap := (q_heap q)(q_fresh q \<mapsto> n), q_fresh := Suc (q_fresh q)\<rparr>)"

definition set_next :: "nat \<Rightarrow> nat option \<Rightarrow> 'a queue \<Rightarrow> 'a queue" where
  "set_next a x q = q\<lparr>q_heap := (q_heap q)(a := map_option (\<lambda>n. n\<lparr>qn_next := x\<rparr>) (q_heap q a))\<rparr>"

definition set_prev :: "nat \<Rightarrow> nat option \<Rightarrow> 'a queue \<Rightarrow> 'a queue" where
  "set_prev a x q = q\<lparr>q_heap := (q_heap q)(a := map_option (\<lambda>n. n\<lparr>qn_prev := x\<rparr>) (q_heap q a))\<rparr>"

definition PushFront :: "'a \<Rightarrow> 'a queue \<Rightarrow> 'a queue" where
  "PushFront t q = (case new_node \<lparr>qn_value = t, qn_next = None, qn_prev = None\<rparr> q of (node, q) \<Rightarrow>
     (case q_head q of
        None \<Rightarrow> q\<lparr>q_head := Some node, q_tail := Some node\<rparr>
      | Some h \<Rightarrow> (set_prev h (Some node) (set_next node (q_head q) q))\<lparr>q_head := Some node\<rparr>))"

definition PushBack :: "'a \<Rightarrow> 'a queue \<Rightarrow> 'a queue option" where
  "PushBack t q = (case new_node \<lparr>qn_value = t, qn_next = None, qn_prev = None\<rparr> q of (node, q) \<Rightarrow>
     (if q_head q = None then Some (q\<lparr>q_head := Some node, q_tail := Some node\<rparr>)
      else do {
        tl \<leftarrow> q_tail q;
        Some ((set_next tl (Some node) (set_prev node (q_tail q) q))\<lparr>q_tail := Some node\<rparr>)
      }))"

definition IsEmpty :: "'a queue \<Rightarrow> bool" where
  "IsEmpty q = (q_head q = None)"

definition emptyQueue :: "'a queue" where
  "emptyQueue = \<lparr>q_heap = (\<lambda>_. None), q_fresh = 0, q_head = None, q_tail = None\<rparr>"

fun push_all :: "'a list \<Rightarrow> 'a queue \<Rightarrow> 'a queue option" where
  "push_all [] q = Some q"
| "push_all (t # ts) q = do { q' \<leftarrow> PushBack t q; push_all ts q' }"

definition NewQueue :: "'a list \<Rightarrow> 'a queue option" where
  "NewQueue items = push_all items emptyQueue"

text \<open>The result of a pop or a peek is the value, if there is one; following a nil pointer panics.\<close>

definition PopFront :: "'a queue \<Rightarrow> ('a option \<times> 'a queue) option" where
  "PopFront q = (if IsEmpty q then Some (None, q)
     else do {
       h \<leftarrow> q_head q;
       n \<leftarrow> q_heap q h;
       (case qn_next n of
          None \<Rightarrow> Some (Some (qn_value n), q\<lparr>q_head := None, q_tail := None\<rparr>)
        | Some x \<Rightarrow> Some (Some (qn_value n), set_prev x None (q\<lparr>q_head := Some x\<rparr>)))
     })"

definition PopBack :: "'a queue \<Rightarrow> ('a option \<times> 'a queue) option" where
  "PopBack q = (if IsEmpty q then Some (None, q)
     else do {
       t \<leftarrow> q_tail q;
       n \<leftarrow> q_heap q t;
       (case qn_prev n of
          None \<Rightarrow> Some (Some (qn_value n), q\<lparr>q_head := None, q_tail := None\<rparr>)
        | Some x \<Rightarrow> Some (Some (qn_value n), set_next x None (q\<lparr>q_tail := Some x\<rparr>)))
     })"

definition PeekFront :: "'a queue \<Rightarrow> 'a option option" where
  "PeekFront q = (if IsEmpty q then Some None
     else do { h \<leftarrow> q_head q; n \<leftarrow> q_heap q h; Some (Some (qn_value n)) })"

definition PeekBack :: "'a queue \<Rightarrow> 'a option option" where
  "PeekBack q = (if IsEmpty q then Some None
     else do { t \<leftarrow> q_tail q; n \<leftarrow> q_heap q t; Some (Some (qn_value n)) })"

section \<open>The contract\<close>

locale deque =
  fixes rel :: "'q \<Rightarrow> 'a list \<Rightarrow> bool" and empty :: 'q
    and pushf :: "'a \<Rightarrow> 'q \<Rightarrow> 'q" and pushb :: "'a \<Rightarrow> 'q \<Rightarrow> 'q option"
    and popf popb :: "'q \<Rightarrow> ('a option \<times> 'q) option"
    and peekf peekb :: "'q \<Rightarrow> 'a option option"
  assumes rel_empty: "rel empty []"
    and rel_pushf: "rel q xs \<Longrightarrow> rel (pushf x q) (x # xs)"
    and rel_pushb: "rel q xs \<Longrightarrow> \<exists>q'. pushb x q = Some q' \<and> rel q' (xs @ [x])"
    and rel_popf: "rel q xs \<Longrightarrow> \<exists>q'. popf q = Some (if xs = [] then None else Some (hd xs), q') \<and> rel q' (tl xs)"
    and rel_popb: "rel q xs \<Longrightarrow> \<exists>q'. popb q = Some (if xs = [] then None else Some (last xs), q') \<and> rel q' (butlast xs)"
    and rel_peekf: "rel q xs \<Longrightarrow> peekf q = Some (if xs = [] then None else Some (hd xs))"
    and rel_peekb: "rel q xs \<Longrightarrow> peekb q = Some (if xs = [] then None else Some (last xs))"
begin

lemma popf_Cons: "rel q (x # xs) \<Longrightarrow> \<exists>q'. popf q = Some (Some x, q') \<and> rel q' xs"
  using rel_popf [of q "x # xs"] by auto

lemma popf_Nil: "rel q [] \<Longrightarrow> \<exists>q'. popf q = Some (None, q') \<and> rel q' []"
  using rel_popf [of q "[]"] by auto

end

section \<open>The linked list keeps the contract\<close>

fun linked :: "(nat \<Rightarrow> 'a queue_node option) \<Rightarrow> nat option \<Rightarrow> nat list \<Rightarrow> 'a list \<Rightarrow> nat option \<Rightarrow> bool" where
  "linked h p [] [] nx = True"
| "linked h p (a # as) (x # xs) nx \<longleftrightarrow>
     h a = Some \<lparr>qn_value = x, qn_next = (case as of [] \<Rightarrow> nx | b # _ \<Rightarrow> Some b), qn_prev = p\<rparr> \<and>
     linked h (Some a) as xs nx"
| "linked h p _ _ nx = False"

definition queue_rel :: "'a queue \<Rightarrow> 'a list \<Rightarrow> bool" where
  "queue_rel q xs \<longleftrightarrow> (\<exists>as. linked (q_heap q) None as xs None \<and> distinct as \<and> (\<forall>a \<in> set as. a < q_fresh q) \<and>
     q_head q = (if as = [] then None else Some (hd as)) \<and> q_tail q = (if as = [] then None else Some (last as)))"

lemma linked_length: "linked h p as xs nx \<Longrightarrow> length as = length xs"
  by (induction h p as xs nx rule: linked.induct) auto

lemma linked_cong: "(\<And>a. a \<in> set as \<Longrightarrow> h a = h' a) \<Longrightarrow> linked h p as xs nx = linked h' p as xs nx"
  by (induction h p as xs nx rule: linked.induct) auto

lemma linked_frame [simp]: "a \<notin> set as \<Longrightarrow> linked (h(a := v)) p as xs nx = linked h p as xs nx"
  by (rule linked_cong) auto

lemma linked_append:
  "linked h p (as @ [b]) (xs @ [y]) nx \<longleftrightarrow> length as = length xs \<and>
     linked h p as xs (Some b) \<and>
     h b = Some \<lparr>qn_value = y, qn_next = nx, qn_prev = (if as = [] then p else Some (last as))\<rparr>"
proof (induction as arbitrary: p xs)
  case Nil
  then show ?case by (cases xs) (auto dest: linked_length)
next
  case (Cons a as)
  show ?case
  proof (cases xs)
    case Nil
    then show ?thesis by (cases as) auto
  next
    case (Cons z zs)
    then show ?thesis using Cons.IH [of "Some a" zs] by (cases as) auto
  qed
qed

lemma queue_relE:
  assumes "queue_rel q xs"
  obtains as where "linked (q_heap q) None as xs None" "distinct as" "\<forall>a \<in> set as. a < q_fresh q"
    "q_head q = (if as = [] then None else Some (hd as))" "q_tail q = (if as = [] then None else Some (last as))"
    "length as = length xs"
  using assms linked_length unfolding queue_rel_def by blast

lemma queue_rel_PushFront: "queue_rel q xs \<Longrightarrow> queue_rel (PushFront x q) (x # xs)"
proof -
  assume "queue_rel q xs"
  then obtain as where as: "linked (q_heap q) None as xs None" "distinct as" "\<forall>a \<in> set as. a < q_fresh q"
    "q_head q = (if as = [] then None else Some (hd as))" "q_tail q = (if as = [] then None else Some (last as))"
    "length as = length xs" by (rule queue_relE)
  let ?f = "q_fresh q"
  have fresh: "?f \<notin> set as" using as(3) by auto
  show ?thesis
  proof (cases as)
    case Nil
    then show ?thesis using as
      by (auto simp: queue_rel_def PushFront_def new_node_def intro!: exI [of _ "[?f]"])
  next
    case (Cons b bs)
    then obtain y ys where xs: "xs = y # ys" using as(6) by (cases xs) auto
    have "linked (q_heap (PushFront x q)) (Some b) bs ys None"
      using as(1,2) fresh Cons xs
      by (auto simp: PushFront_def new_node_def set_prev_def set_next_def as(4))
    then show ?thesis unfolding queue_rel_def using as fresh Cons xs
      by (intro exI [of _ "?f # as"])
        (auto simp: PushFront_def new_node_def set_prev_def set_next_def less_SucI)
  qed
qed

lemma queue_rel_PushBack: "queue_rel q xs \<Longrightarrow> \<exists>q'. PushBack x q = Some q' \<and> queue_rel q' (xs @ [x])"
proof -
  assume "queue_rel q xs"
  then obtain as where as: "linked (q_heap q) None as xs None" "distinct as" "\<forall>a \<in> set as. a < q_fresh q"
    "q_head q = (if as = [] then None else Some (hd as))" "q_tail q = (if as = [] then None else Some (last as))"
    "length as = length xs" by (rule queue_relE)
  let ?f = "q_fresh q"
  have fresh: "?f \<notin> set as" using as(3) by auto
  show ?thesis
  proof (cases as rule: rev_cases)
    case Nil
    then show ?thesis using as
      by (auto simp: queue_rel_def PushBack_def new_node_def intro!: exI [of _ "[?f]"])
  next
    case (snoc bs b)
    then obtain ys y where xs: "xs = ys @ [y]" using as(6) by (cases xs rule: rev_cases) auto
    obtain q' where q': "PushBack x q = Some q'" and heap: "q_heap q' = (q_heap q)(?f \<mapsto> \<lparr>qn_value = x, qn_next = None, qn_prev = Some b\<rparr>,
        b := map_option (\<lambda>n. n\<lparr>qn_next := Some ?f\<rparr>) (q_heap q b))"
      and ht: "q_head q' = q_head q" "q_tail q' = Some ?f" "q_fresh q' = Suc ?f"
      using as(4,5) snoc fresh
      by (auto simp: PushBack_def new_node_def set_prev_def set_next_def fun_upd_twist)
    have "linked (q_heap q) None bs ys (Some b)" using as(1) snoc xs by (simp add: linked_append)
    then have "linked (q_heap q') None bs ys (Some b)"
      using as(2) fresh snoc by (simp add: heap)
    then have "linked (q_heap q') None (bs @ [b]) (ys @ [y]) (Some ?f)"
      using as(1,6) snoc xs by (simp add: linked_append heap)
    then have "linked (q_heap q') None as xs (Some ?f)" using snoc xs by simp
    moreover have "as \<noteq> []" "last as = b" "b \<noteq> ?f" using snoc fresh by auto
    ultimately have "linked (q_heap q') None (as @ [?f]) (xs @ [x]) None"
      using as(6) by (simp add: linked_append heap)
    then show ?thesis using q' ht as fresh snoc unfolding queue_rel_def
      by (intro exI [of _ q'] conjI exI [of _ "as @ [?f]"]) (auto simp: less_SucI hd_append)
  qed
qed


lemma queue_rel_PopFront:
  assumes "queue_rel q xs"
  shows "\<exists>q'. PopFront q = Some (if xs = [] then None else Some (hd xs), q') \<and> queue_rel q' (tl xs)"
proof -
  obtain as where as: "linked (q_heap q) None as xs None" "distinct as" "\<forall>a \<in> set as. a < q_fresh q"
    "q_head q = (if as = [] then None else Some (hd as))" "q_tail q = (if as = [] then None else Some (last as))"
    "length as = length xs" using assms by (rule queue_relE)
  show ?thesis
  proof (cases as)
    case Nil
    then show ?thesis using as assms by (simp add: PopFront_def IsEmpty_def)
  next
    case (Cons a bs)
    then obtain y ys where xs: "xs = y # ys" using as(6) by (cases xs) auto
    show ?thesis
    proof (cases bs)
      case Nil
      then show ?thesis using as Cons xs by (auto simp: PopFront_def IsEmpty_def queue_rel_def)
    next
      case (Cons c cs)
      then obtain z zs where ys: "ys = z # zs" using as(6) xs \<open>as = a # bs\<close> by (cases ys) auto
      have "queue_rel (set_prev c None (q\<lparr>q_head := Some c\<rparr>)) ys"
        unfolding queue_rel_def using as ys xs Cons \<open>as = a # bs\<close>
        by (intro exI [of _ bs]) (auto simp: set_prev_def)
      then show ?thesis using as xs Cons \<open>as = a # bs\<close> by (simp add: PopFront_def IsEmpty_def)
    qed
  qed
qed

lemma queue_rel_PopBack:
  assumes "queue_rel q xs"
  shows "\<exists>q'. PopBack q = Some (if xs = [] then None else Some (last xs), q') \<and> queue_rel q' (butlast xs)"
proof -
  obtain as where as: "linked (q_heap q) None as xs None" "distinct as" "\<forall>a \<in> set as. a < q_fresh q"
    "q_head q = (if as = [] then None else Some (hd as))" "q_tail q = (if as = [] then None else Some (last as))"
    "length as = length xs" using assms by (rule queue_relE)
  show ?thesis
  proof (cases as rule: rev_cases)
    case Nil
    then show ?thesis using as assms by (simp add: PopBack_def IsEmpty_def)
  next
    case (snoc bs a)
    then obtain ys y where xs: "xs = ys @ [y]" using as(6) by (cases xs rule: rev_cases) auto
    have l: "linked (q_heap q) None bs ys (Some a)"
      "q_heap q a = Some \<lparr>qn_value = y, qn_next = None, qn_prev = (if bs = [] then None else Some (last bs))\<rparr>"
      using as(1) snoc xs by (simp_all add: linked_append)
    show ?thesis
    proof (cases bs rule: rev_cases)
      case Nil
      then show ?thesis using as snoc xs l linked_length [OF l(1)]
        by (auto simp: PopBack_def IsEmpty_def queue_rel_def)
    next
      case (snoc cs c)
      then obtain zs z where ys: "ys = zs @ [z]" using as(6) xs \<open>as = bs @ [a]\<close> by (cases ys rule: rev_cases) auto
      have m: "linked (q_heap q) None cs zs (Some c)"
        "q_heap q c = Some \<lparr>qn_value = z, qn_next = Some a, qn_prev = (if cs = [] then None else Some (last cs))\<rparr>"
        using l(1) snoc ys by (simp_all add: linked_append)
      have "linked (q_heap (set_next c None q)) None bs ys None"
        using m as(2,6) snoc ys xs \<open>as = bs @ [a]\<close> by (simp add: linked_append set_next_def)
      then have "queue_rel (set_next c None (q\<lparr>q_tail := Some c\<rparr>)) ys"
        unfolding queue_rel_def using as snoc \<open>as = bs @ [a]\<close>
        by (intro exI [of _ bs]) (auto simp: set_next_def hd_append)
      then show ?thesis using as xs l snoc \<open>as = bs @ [a]\<close> by (simp add: PopBack_def IsEmpty_def)
    qed
  qed
qed

lemma queue_rel_PeekFront: "queue_rel q xs \<Longrightarrow> PeekFront q = Some (if xs = [] then None else Some (hd xs))"
proof (erule queue_relE)
  fix as
  assume as: "linked (q_heap q) None as xs None" "q_head q = (if as = [] then None else Some (hd as))"
    "length as = length xs"
  show ?thesis using as by (cases as; cases xs) (auto simp: PeekFront_def IsEmpty_def)
qed

lemma queue_rel_PeekBack: "queue_rel q xs \<Longrightarrow> PeekBack q = Some (if xs = [] then None else Some (last xs))"
proof (erule queue_relE)
  fix as
  assume as: "linked (q_heap q) None as xs None" "q_head q = (if as = [] then None else Some (hd as))"
    "q_tail q = (if as = [] then None else Some (last as))" "length as = length xs"
  show ?thesis using as
    by (cases as rule: rev_cases; cases xs rule: rev_cases) (auto simp: PeekBack_def IsEmpty_def linked_append)
qed

lemma queue_rel_empty: "queue_rel emptyQueue []"
  by (simp add: queue_rel_def emptyQueue_def)

interpretation dq: deque queue_rel emptyQueue PushFront PushBack PopFront PopBack PeekFront PeekBack
  by unfold_locales
    (simp_all add: queue_rel_empty queue_rel_PushFront queue_rel_PushBack queue_rel_PopFront queue_rel_PopBack
      queue_rel_PeekFront queue_rel_PeekBack)

lemma push_all_rel: "queue_rel q xs \<Longrightarrow> \<exists>q'. push_all ys q = Some q' \<and> queue_rel q' (xs @ ys)"
proof (induction ys arbitrary: q xs)
  case (Cons y ys)
  obtain q1 where "PushBack y q = Some q1" "queue_rel q1 (xs @ [y])" using dq.rel_pushb [OF Cons.prems] by blast
  with Cons.IH [of q1 "xs @ [y]"] show ?case by auto
qed simp

lemma NewQueue_rel: "\<exists>q. NewQueue xs = Some q \<and> queue_rel q xs"
  using push_all_rel [OF dq.rel_empty, of xs] by (simp add: NewQueue_def)

section \<open>Property\<close>

text \<open>
  C12: the linked queue is a double-ended queue. Whatever its nodes look like in memory, if it stands
  for a list of values then pushing and popping at either end change that list as expected, peeking
  reads its ends, no operation follows a nil pointer, and a queue made from items stands for them in
  order.
\<close>

theorem queue_refines_list:
  assumes "queue_rel q xs"
  shows "queue_rel (PushFront x q) (x # xs) \<and>
    (\<exists>q'. PushBack x q = Some q' \<and> queue_rel q' (xs @ [x])) \<and>
    (\<exists>q'. PopFront q = Some (if xs = [] then None else Some (hd xs), q') \<and> queue_rel q' (tl xs)) \<and>
    (\<exists>q'. PopBack q = Some (if xs = [] then None else Some (last xs), q') \<and> queue_rel q' (butlast xs)) \<and>
    PeekFront q = Some (if xs = [] then None else Some (hd xs)) \<and>
    PeekBack q = Some (if xs = [] then None else Some (last xs)) \<and>
    (\<exists>q'. NewQueue ys = Some q' \<and> queue_rel q' ys)"
  using dq.rel_pushf [OF assms] dq.rel_pushb [OF assms] dq.rel_popf [OF assms] dq.rel_popb [OF assms]
    dq.rel_peekf [OF assms] dq.rel_peekb [OF assms] NewQueue_rel by blast

theorem queue_refines_list_witness:
  "\<exists>q q' :: nat queue. NewQueue [1, 2, 3] = Some q \<and> queue_rel q [1, 2, 3] \<and> PopBack q = Some (Some 3, q') \<and> queue_rel q' [1, 2]"
proof -
  obtain q :: "nat queue" where q: "NewQueue [1, 2, 3] = Some q" "queue_rel q [1, 2, 3]" using NewQueue_rel by blast
  from queue_refines_list [OF q(2)] q show ?thesis by auto
qed

end
