(* ===== verification/Watchdog.thy ===== *)
theory Watchdog
  imports Txn_Writer Txn_Validate Queue
begin

text \<open>
  The two-phase commit watchdog of a principal partition
  (\<^verbatim>\<open>src/internal/data/server/txn/watchdog_2pc.go\<close>): its queues of running transactions, what each
  event of \<^verbatim>\<open>mainLoop\<close> does to them, and the procedures that finish a transaction which was left
  behind. The rest of the system is a state \<open>'s\<close> on which the writer, the data client and the rate
  limiter act; these calls are parameters. The code contacts the participants concurrently and only
  joins their results; the model contacts them one after another.
\<close>

section \<open>State\<close>

record watchdog =
  wd_all :: "(txn_id, txn_state) gomap"
  wd_prepared :: "running queue"
  wd_decided :: "running queue"
  wd_inFlight :: int

definition UpdateStatus ::
    "u32 \<Rightarrow> txn_status option \<Rightarrow> txn option \<Rightarrow> decision option \<Rightarrow> running option" where
  "UpdateStatus pid status prepared decision = (case status of
       None \<Rightarrow> None
     | Some s \<Rightarrow>
         if PrincipalPid (ts_Id s) \<noteq> pid then None
         else Some \<lparr>ru_Id = ts_Id s, ru_Timestamp = ts_Timestamp s, ru_State = ts_State s,
                    ru_ParticipantPids = (case prepared of None \<Rightarrow> [] | Some t \<Rightarrow> t_ParticipantPids t),
                    ru_Decision = decision\<rparr>)"

section \<open>Starting\<close>

fun load_loop ::
    "running list \<Rightarrow> (txn_id, txn_state) gomap \<times> running list \<times> running list \<Rightarrow>
     (txn_id, txn_state) gomap \<times> running list \<times> running list" where
  "load_loop [] acc = acc"
| "load_loop (p # ps) (all, prepared, decided) = (case ru_State p of
       Prepared \<Rightarrow> load_loop ps (mput (ru_Id p) (ru_State p) all, prepared @ [p], decided)
     | Decided \<Rightarrow> load_loop ps (mput (ru_Id p) (ru_State p) all, prepared, decided @ [p])
     | Timedout \<Rightarrow> load_loop ps (mput (ru_Id p) (ru_State p) all, prepared @ [p], decided)
     | _ \<Rightarrow> load_loop ps (all, prepared, decided))"

definition older :: "running \<Rightarrow> running \<Rightarrow> bool" where
  "older a b = (sint (ru_Timestamp a - ru_Timestamp b) < 0)"

definition loadRunning :: "'db manager \<Rightarrow> watchdog option" where
  "loadRunning m = do {
     trunning \<leftarrow> getRunning m;
     (case load_loop trunning ([], [], []) of (all, prepared, decided) \<Rightarrow> do {
        pq \<leftarrow> NewQueue (sort_sort older prepared);
        dq \<leftarrow> NewQueue (sort_sort older decided);
        Some \<lparr>wd_all = all, wd_prepared = pq, wd_decided = dq, wd_inFlight = 0\<rparr>
      })
   }"

section \<open>The events of the main loop\<close>

text \<open>
  The loop of \<^verbatim>\<open>checkTimedout\<close> ends because every round takes a node from the queue; the number of
  nodes ever made bounds the rounds. Its result are the transactions handed to a resolver.
\<close>

fun check_loop ::
    "nat \<Rightarrow> u64 \<Rightarrow> txn_state \<Rightarrow> running queue \<Rightarrow> (txn_id, txn_state) gomap \<Rightarrow>
     (running list \<times> running queue \<times> (txn_id, txn_state) gomap) option" where
  "check_loop fuel oldest expected q all = do {
     peek \<leftarrow> PeekFront q;
     (case peek of
        None \<Rightarrow> Some ([], q, all)
      | Some x \<Rightarrow>
          if ru_Timestamp x > oldest then Some ([], q, all)
          else (case fuel of
              0 \<Rightarrow> None
            | Suc fuel' \<Rightarrow> do {
                (t, q') \<leftarrow> PopFront q;
                t' \<leftarrow> t;
                (if mget all (ru_Id t') \<noteq> Some expected then check_loop fuel' oldest expected q' all
                 else do {
                   (rs, q'', all') \<leftarrow> check_loop fuel' oldest expected q' (mdel (ru_Id t') all);
                   Some (t' # rs, q'', all')
                 })
              }))
   }"

definition checkTimedout ::
    "int \<times> int \<Rightarrow> int \<Rightarrow> txn_state \<Rightarrow> running queue \<Rightarrow> (txn_id, txn_state) gomap \<Rightarrow>
     (running list \<times> running queue \<times> (txn_id, txn_state) gomap) option" where
  "checkTimedout now timeout expected q all =
     check_loop (q_fresh q) (FromTime (time_Unix (fst now) (snd now - timeout))) expected q all"

datatype wd_event = Wd_Status running | Wd_Tick1 "int \<times> int" | Wd_Tick2 "int \<times> int" | Wd_Done

datatype wd_work = Wd_Abort running | Wd_Commit running

definition watchdog_step ::
    "int \<Rightarrow> int \<Rightarrow> wd_event \<Rightarrow> watchdog \<Rightarrow> (wd_work list \<times> watchdog) option" where
  "watchdog_step Phase1Timeout Phase2Timeout ev w = (case ev of
       Wd_Status status \<Rightarrow>
         (if mget (wd_all w) (ru_Id status) = None then Some ([], w)
          else (case ru_State status of
              Prepared \<Rightarrow> do {
                q \<leftarrow> PushBack status (wd_prepared w);
                Some ([], w\<lparr>wd_all := mput (ru_Id status) (ru_State status) (wd_all w), wd_prepared := q\<rparr>)
              }
            | Decided \<Rightarrow> do {
                q \<leftarrow> PushBack status (wd_decided w);
                Some ([], w\<lparr>wd_all := mput (ru_Id status) (ru_State status) (wd_all w), wd_decided := q\<rparr>)
              }
            | Committed \<Rightarrow> Some ([], w\<lparr>wd_all := mdel (ru_Id status) (wd_all w)\<rparr>)
            | Aborted \<Rightarrow> Some ([], w\<lparr>wd_all := mdel (ru_Id status) (wd_all w)\<rparr>)
            | _ \<Rightarrow> Some ([], w)))
     | Wd_Tick1 now \<Rightarrow> do {
         (rs, q, all) \<leftarrow> checkTimedout now Phase1Timeout Prepared (wd_prepared w) (wd_all w);
         Some (map Wd_Abort rs, w\<lparr>wd_all := all, wd_prepared := q, wd_inFlight := wd_inFlight w + int (length rs)\<rparr>)
       }
     | Wd_Tick2 now \<Rightarrow> do {
         (rs, q, all) \<leftarrow> checkTimedout now Phase2Timeout Decided (wd_decided w) (wd_all w);
         Some (map Wd_Commit rs, w\<lparr>wd_all := all, wd_decided := q, wd_inFlight := wd_inFlight w + int (length rs)\<rparr>)
       }
     | Wd_Done \<Rightarrow> Some ([], w\<lparr>wd_inFlight := wd_inFlight w - 1\<rparr>))"

section \<open>Finishing a transaction\<close>

record 's wd_env =
  e_Apply :: "mark_timedout \<Rightarrow> 's \<Rightarrow> ((err + txn_status) \<times> 's) option"
  e_Abort :: "abort_request \<Rightarrow> 's \<Rightarrow> ((err + txn_status) \<times> 's) option"
  e_Commit :: "commit_request \<Rightarrow> 's \<Rightarrow> ((err + txn_status) \<times> 's) option"
  e_Allow :: "'s \<Rightarrow> bool \<times> 's"
  e_GracefulShutdown :: "'s \<Rightarrow> 's"

definition withBreaker ::
    "'s wd_env \<Rightarrow> ('s \<Rightarrow> (err option \<times> 's) option) \<Rightarrow> 's \<Rightarrow> (err option \<times> 's) option" where
  "withBreaker env work s = do {
     (e, s') \<leftarrow> work s;
     (case e of
        None \<Rightarrow> Some (None, s')
      | Some er \<Rightarrow> (case e_Allow env s' of (ok, s'') \<Rightarrow>
          Some (Some er, if ok then s'' else e_GracefulShutdown env s'')))
   }"

definition markTimedout_work ::
    "'s wd_env \<Rightarrow> mark_timedout \<Rightarrow> bool \<times> 's \<Rightarrow> (err option \<times> bool \<times> 's) option" where
  "markTimedout_work env cmd st = (case st of (success, s) \<Rightarrow> do {
     (r, s') \<leftarrow> e_Apply env cmd s;
     (case r of
        Inl e \<Rightarrow>
          if e = NotFound \<or> e = FailedPrecondition then Some (None, (False, s'))
          else Some (Some e, (success, s'))
      | Inr _ \<Rightarrow> Some (None, (True, s')))
   })"

definition lift_env :: "'s wd_env \<Rightarrow> (bool \<times> 's) wd_env" where
  "lift_env env =
     \<lparr>e_Apply = (\<lambda>c (b, s). map_option (\<lambda>(r, s'). (r, (b, s'))) (e_Apply env c s)),
      e_Abort = (\<lambda>c (b, s). map_option (\<lambda>(r, s'). (r, (b, s'))) (e_Abort env c s)),
      e_Commit = (\<lambda>c (b, s). map_option (\<lambda>(r, s'). (r, (b, s'))) (e_Commit env c s)),
      e_Allow = (\<lambda>(b, s). case e_Allow env s of (ok, s') \<Rightarrow> (ok, (b, s'))),
      e_GracefulShutdown = (\<lambda>(b, s). (b, e_GracefulShutdown env s))\<rparr>"

text \<open>The variable \<^verbatim>\<open>success\<close> that the work captures is part of the state it runs on.\<close>

definition markTimedout ::
    "'s wd_env \<Rightarrow> ctx \<Rightarrow> running \<Rightarrow> bool \<Rightarrow> 's \<Rightarrow> ((bool \<times> err option) \<times> 's) option" where
  "markTimedout env ctx txn release s = do {
     (e, (success, s')) \<leftarrow> RetryForeverE ctx (withBreaker (lift_env env)
        (markTimedout_work env \<lparr>mt_Id = ru_Id txn, mt_Timestamp = 0, mt_ReleaseLocks = release\<rparr>)) (False, s);
     Some ((success, e), s')
   }"

definition abort_work :: "'s wd_env \<Rightarrow> abort_request \<Rightarrow> 's \<Rightarrow> (err option \<times> 's) option" where
  "abort_work env req s = do {
     (r, s') \<leftarrow> e_Abort env req s;
     (case r of
        Inl e \<Rightarrow> if e = NotFound then Some (None, s') else Some (Some e, s')
      | Inr status \<Rightarrow>
          if \<not> IsFinal (ts_State status) then Some (Some (OtherError ''participant failed''), s')
          else Some (None, s'))
   }"

definition commit_work :: "'s wd_env \<Rightarrow> commit_request \<Rightarrow> 's \<Rightarrow> (err option \<times> 's) option" where
  "commit_work env req s = do {
     (r, s') \<leftarrow> e_Commit env req s;
     (case r of
        Inl e \<Rightarrow> if e = NotFound then Some (None, s') else Some (Some e, s')
      | Inr status \<Rightarrow>
          if ts_State status \<noteq> Committed then Some (Some (OtherError ''participant failed''), s')
          else Some (None, s'))
   }"

definition invokeAbort :: "'s wd_env \<Rightarrow> ctx \<Rightarrow> running \<Rightarrow> u32 \<Rightarrow> 's \<Rightarrow> (err option \<times> 's) option" where
  "invokeAbort env ctx txn pid s =
     RetryForeverE ctx (withBreaker env (abort_work env \<lparr>abr_ParticipantPid = pid, abr_Id = ru_Id txn\<rparr>)) s"

definition invokeCommit :: "'s wd_env \<Rightarrow> ctx \<Rightarrow> running \<Rightarrow> u64 \<Rightarrow> u32 \<Rightarrow> 's \<Rightarrow> (err option \<times> 's) option" where
  "invokeCommit env ctx txn timestamp pid s =
     RetryForeverE ctx (withBreaker env (commit_work env
       \<lparr>cr_ParticipantPid = pid, cr_Id = ru_Id txn, cr_CommitTimestamp = timestamp,
        cr_FetchResults = False, cr_ReadOnly = False\<rparr>)) s"

text \<open>Contacts every participant except the principal and collects the errors.\<close>

fun participants ::
    "('c \<Rightarrow> 's \<Rightarrow> (err option \<times> 's) option) \<Rightarrow> 'c list \<Rightarrow> 's \<Rightarrow> (err option list \<times> 's) option" where
  "participants invoke [] s = Some ([], s)"
| "participants invoke (p # ps) s = do {
     (e, s') \<leftarrow> invoke p s;
     (es, s'') \<leftarrow> participants invoke ps s';
     Some (e # es, s'')
   }"

definition wd_abort :: "'s wd_env \<Rightarrow> ctx \<Rightarrow> running \<Rightarrow> 's \<Rightarrow> 's option" where
  "wd_abort env ctx txn s = do {
     ((success, e), s1) \<leftarrow> markTimedout env ctx txn False s;
     (if e \<noteq> None \<or> \<not> success then Some s1
      else do {
        (es, s2) \<leftarrow> participants (invokeAbort env ctx txn)
                     (filter (\<lambda>pid. pid \<noteq> PrincipalPid (ru_Id txn)) (ru_ParticipantPids txn)) s1;
        (if length es < length (ru_ParticipantPids txn) - 1 then None
         else if list_ex (\<lambda>e. e \<noteq> None) (take (length (ru_ParticipantPids txn) - 1) es) then Some s2
         else do { (_, s3) \<leftarrow> markTimedout env ctx txn True s2; Some s3 })
      })
   }"

definition wd_commit :: "'s wd_env \<Rightarrow> ctx \<Rightarrow> running \<Rightarrow> 's \<Rightarrow> 's option" where
  "wd_commit env ctx txn s = do {
     d \<leftarrow> ru_Decision txn;
     (if \<not> d_Commit d then None
      else do {
        (es, s1) \<leftarrow> participants (invokeCommit env ctx txn (d_CommitTimestamp d))
                     (filter (\<lambda>pid. pid \<noteq> PrincipalPid (ru_Id txn)) (ru_ParticipantPids txn)) s;
        (if length es < length (ru_ParticipantPids txn) - 1 then None
         else if list_ex (\<lambda>e. e \<noteq> None) (take (length (ru_ParticipantPids txn) - 1) es) then Some s1
         else do {
           (_, s2) \<leftarrow> invokeCommit env ctx txn (d_CommitTimestamp d) (PrincipalPid (ru_Id txn)) s1;
           Some s2
         })
      })
   }"

end
