(* ===== verification/Txn_Service.thy ===== *)
theory Txn_Service
  imports Txn_Reader Watchdog
begin

text \<open>
  The transaction service of a partition (\<^verbatim>\<open>src/internal/data/server/txn/service.go\<close>), which answers
  the requests of the data service by passing them to the reader, the writer and the watchdog. The
  replicated log between the writer and the manager is a parameter: \<open>x_Apply\<close> hands a command to the
  writer and waits for its result, \<open>x_Bump\<close> raises the highest timestamp. The service updates the
  hybrid logical clock with every timestamp it receives before it uses it. Messages for the watchdog
  are collected in \<open>sv_requests\<close>.
\<close>

record 'db service =
  sv_pid :: u32
  sv_isLeader :: bool
  sv_reader :: reader
  sv_manager :: "'db manager"
  sv_hlc :: hlc
  sv_watchdog :: bool
  sv_requests :: "running list"

record 'db log_env =
  x_Apply :: "payload \<Rightarrow> 'db manager \<Rightarrow> ((err + txn_status) \<times> 'db manager) option"
  x_Bump :: "'db bump"

definition NewServiceLeader :: "u32 \<Rightarrow> 'db manager \<Rightarrow> reader \<Rightarrow> hlc \<Rightarrow> 'db service" where
  "NewServiceLeader pid m p h =
     \<lparr>sv_pid = pid, sv_isLeader = True, sv_reader = p, sv_manager = m, sv_hlc = h, sv_watchdog = True,
      sv_requests = []\<rparr>"

definition NewServiceFollower :: "u32 \<Rightarrow> 'db manager \<Rightarrow> reader \<Rightarrow> hlc \<Rightarrow> 'db service" where
  "NewServiceFollower pid m p h =
     \<lparr>sv_pid = pid, sv_isLeader = False, sv_reader = p, sv_manager = m, sv_hlc = h, sv_watchdog = False,
      sv_requests = []\<rparr>"

type_synonym 'db reply = "((err + txn_status) \<times> 'db service) option"

definition service_writer :: "'db log_env \<Rightarrow> 'db service \<Rightarrow> 'db bump option" where
  "service_writer x n = (if sv_isLeader n then Some (x_Bump x) else None)"

text \<open>Runs a computation on the manager inside the service.\<close>

definition on_manager ::
    "((err + txn_status) \<times> 'db manager) option \<Rightarrow> 'db service \<Rightarrow> 'db reply" where
  "on_manager r n = do { (s, m) \<leftarrow> r; Some (s, n\<lparr>sv_manager := m\<rparr>) }"

definition svc_hlc_Update :: "(nat \<Rightarrow> u64) \<Rightarrow> u64 \<Rightarrow> 'db service \<Rightarrow> (err option \<times> 'db service) option" where
  "svc_hlc_Update clk timestamp n = do {
     (e, h) \<leftarrow> hlc_update clk timestamp (sv_hlc n);
     Some (e, n\<lparr>sv_hlc := h\<rparr>)
   }"

definition notify :: "txn_status \<Rightarrow> txn option \<Rightarrow> decision option \<Rightarrow> 'db service \<Rightarrow> 'db service" where
  "notify status t d n =
     (if \<not> sv_watchdog n then n
      else (case UpdateStatus (sv_pid n) (Some status) t d of
          None \<Rightarrow> n
        | Some r \<Rightarrow> n\<lparr>sv_requests := sv_requests n @ [r]\<rparr>))"

definition Service_Autocommit ::
    "'db log_env \<Rightarrow> (nat \<Rightarrow> u64) \<Rightarrow> autocommit_request \<Rightarrow> 'db service \<Rightarrow> 'db reply" where
  "Service_Autocommit x clk req n =
     (if ar_PartitionId req \<noteq> sv_pid n then Some (Inl InvalidRequest, n)
      else if IsSnapshotRead req then do {
        (e, n1) \<leftarrow> svc_hlc_Update clk (ar_ReadTimestamp req) n;
        (case e of
           Some er \<Rightarrow> Some (Inl er, n1)
         | None \<Rightarrow> on_manager (AutocommitSnapshotRead (sv_reader n1) (service_writer x n1) (ar_Txn req)
                                (ar_ReadTimestamp req) (sv_manager n1)) n1)
      }
      else if \<not> sv_isLeader n then Some (Inl NotLeader, n)
      else if Txn_IsReadOnly (ar_Txn req) then on_manager (AutocommitReadOnly (sv_reader n) (ar_Txn req) (sv_manager n)) n
      else do {
        (r, n1) \<leftarrow> on_manager (x_Apply x (P_Autocommit \<lparr>ac_Txn = ar_Txn req, ac_Timestamp = 0\<rparr>) (sv_manager n)) n;
        (case r of
           Inl e \<Rightarrow> Some (Inl e, n1)
         | Inr status \<Rightarrow> on_manager (AutocommitReadWrite (sv_reader n1) (ar_Txn req) status (sv_manager n1)) n1)
      })"

definition Service_Prepare ::
    "'db log_env \<Rightarrow> int \<Rightarrow> prepare_request \<Rightarrow> 'db service \<Rightarrow> 'db reply" where
  "Service_Prepare x now req n =
     (if \<not> sv_isLeader n then Some (Inl NotLeader, n)
      else if prq_ParticipantPid req \<noteq> sv_pid n then Some (Inl InvalidRequest, n)
      else if prq_ReadOnly req then do {
        (status, p) \<leftarrow> PrepareReadOnly now (prq_Txn req) (sv_manager n) (sv_reader n);
        Some (Inr status, n\<lparr>sv_reader := p\<rparr>)
      }
      else do {
        (r, n1) \<leftarrow> on_manager (x_Apply x (P_Prepare \<lparr>pp_Txn = prq_Txn req, pp_Timestamp = 0\<rparr>) (sv_manager n)) n;
        (case r of
           Inl e \<Rightarrow> Some (Inl e, n1)
         | Inr status \<Rightarrow> Some (Inr status, notify status (Some (prq_Txn req)) None n1))
      })"

definition Service_Commit ::
    "'db log_env \<Rightarrow> (nat \<Rightarrow> u64) \<Rightarrow> commit_request \<Rightarrow> 'db service \<Rightarrow> 'db reply" where
  "Service_Commit x clk req n =
     (if \<not> sv_isLeader n then Some (Inl NotLeader, n)
      else if cr_ParticipantPid req \<noteq> sv_pid n then Some (Inl InvalidRequest, n)
      else do {
        (e, n1) \<leftarrow> svc_hlc_Update clk (cr_CommitTimestamp req) n;
        (case e of
           Some er \<Rightarrow> Some (Inl er, n1)
         | None \<Rightarrow>
             if cr_ReadOnly req then
               on_manager (CommitReadOnly (sv_reader n1) (service_writer x n1) (cr_Id req) (cr_CommitTimestamp req)
                             (sv_manager n1)) n1
             else do {
               (r, n2) \<leftarrow> on_manager (x_Apply x (P_Commit \<lparr>c_Id = cr_Id req, c_Timestamp = cr_CommitTimestamp req\<rparr>)
                            (sv_manager n1)) n1;
               (case r of
                  Inl er \<Rightarrow> Some (Inl er, n2)
                | Inr status \<Rightarrow>
                    (let n3 = notify status None None n2 in
                     if \<not> cr_FetchResults req then Some (Inr status, n3)
                     else on_manager (CommitReadWrite (sv_reader n3) status (sv_manager n3)) n3))
             })
      })"

definition Service_Abort :: "'db log_env \<Rightarrow> abort_request \<Rightarrow> 'db service \<Rightarrow> 'db reply" where
  "Service_Abort x req n =
     (if \<not> sv_isLeader n then Some (Inl NotLeader, n)
      else if abr_ParticipantPid req \<noteq> sv_pid n then Some (Inl InvalidRequest, n)
      else do {
        (r, n1) \<leftarrow> on_manager (x_Apply x (P_Abort \<lparr>ab_Id = abr_Id req, ab_Timestamp = 0\<rparr>) (sv_manager n)) n;
        (case r of
           Inl e \<Rightarrow> Some (Inl e, n1)
         | Inr status \<Rightarrow> Some (Inr status, notify status None None n1))
      })"

definition Service_StoreDecision ::
    "'db log_env \<Rightarrow> (nat \<Rightarrow> u64) \<Rightarrow> decision \<Rightarrow> 'db service \<Rightarrow> 'db reply" where
  "Service_StoreDecision x clk dec n =
     (if \<not> sv_isLeader n then Some (Inl NotLeader, n)
      else if PrincipalPid (d_Id dec) \<noteq> sv_pid n then Some (Inl PermissionDenied, n)
      else if \<not> d_Commit dec then Some (Inl InvalidRequest, n)
      else do {
        (e, n1) \<leftarrow> svc_hlc_Update clk (d_CommitTimestamp dec) n;
        (case e of
           Some er \<Rightarrow> Some (Inl er, n1)
         | None \<Rightarrow> do {
             (r, n2) \<leftarrow> on_manager (x_Apply x (P_StoreDecision \<lparr>sd_Decision = dec, sd_Timestamp = 0\<rparr>) (sv_manager n1)) n1;
             (case r of
                Inl er \<Rightarrow> Some (Inl er, n2)
              | Inr status \<Rightarrow> Some (Inr status, notify status None (Some dec) n2))
           })
      })"

text \<open>
  Starting a leader. \<^verbatim>\<open>hlc.Sleep\<close> waits until the wall clock has passed the timestamp; it fails only
  when its context ends, which is the parameter \<open>slept\<close>.
\<close>

definition updateHlc :: "(nat \<Rightarrow> u64) \<Rightarrow> err option \<Rightarrow> u64 \<Rightarrow> 'db service \<Rightarrow> (err option \<times> 'db service) option" where
  "updateHlc clk slept timestamp n = do {
     (e, n1) \<leftarrow> svc_hlc_Update clk timestamp n;
     (case e of None \<Rightarrow> Some (None, n1) | Some _ \<Rightarrow> Some (slept, n1))
   }"

definition startLeader ::
    "'db log_env \<Rightarrow> (nat \<Rightarrow> u64) \<Rightarrow> (nat \<Rightarrow> u64) \<Rightarrow> err option \<Rightarrow> 'db service \<Rightarrow> (err option \<times> 'db service) option" where
  "startLeader x clk clk' slept n =
     (let maxTimestamp = getMaxTimestamp (sv_manager n) in
      if maxTimestamp = 0 then do {
        (ts, h) \<leftarrow> hlc_now clk (sv_hlc n);
        (e, m) \<leftarrow> x_Bump x ts (sv_manager n);
        (case e of
           Some er \<Rightarrow> Some (Some er, n\<lparr>sv_hlc := h, sv_manager := m\<rparr>)
         | None \<Rightarrow> updateHlc clk' slept maxTimestamp (n\<lparr>sv_hlc := h, sv_manager := m\<rparr>))
      }
      else updateHlc clk' slept maxTimestamp n)"

definition Service_Start ::
    "'db log_env \<Rightarrow> (nat \<Rightarrow> u64) \<Rightarrow> (nat \<Rightarrow> u64) \<Rightarrow> err option \<Rightarrow> 'db service \<Rightarrow> (err option \<times> 'db service) option" where
  "Service_Start x clk clk' slept n =
     (if \<not> sv_isLeader n then Some (None, n) else startLeader x clk clk' slept n)"

end
