(* ===== verification/Txn_Reads.thy ===== *)
theory Txn_Reads
  imports Txn_Refine Txn_Service Rocks_Reference
begin

text \<open>
  What a read of the transaction service sees. A transaction is shielded at a timestamp if no
  transaction that can still commit can write, at or below the timestamp, a key it reads. The safe
  timestamp of the manager shields; applying batches with later timestamps keeps the shield and
  changes no version the transaction reads. So a read at a safe timestamp can be repeated at any
  later time, on the leader or on a follower, with the same result.
\<close>

section \<open>Versions that cannot be seen\<close>

lemma filter_put_records_key:
  assumes "recs_sorted recs" "\<And>r. P r \<Longrightarrow> K r \<and> ka_Timestamp (kr_Address r) \<le> ts"
    and "\<And>q r. K r \<Longrightarrow> kr_Address q = kr_Address r \<Longrightarrow> K q"
    and "\<forall>q \<in> set rs. K q \<longrightarrow> ts < ka_Timestamp (kr_Address q)"
  shows "filter P (put_records recs rs) = filter P recs"
proof (rule ac.sorted_by_unique)
  show "recs_sorted (filter P (put_records recs rs))"
    using put_records_sorted [OF assms(1)] by (rule sorted_wrt_filter)
  show "recs_sorted (filter P recs)" using assms(1) by (rule sorted_wrt_filter)
  have "r \<in> set (put_records recs rs) \<longleftrightarrow> r \<in> set recs" if "P r" for r
  proof -
    have k: "K r" "ka_Timestamp (kr_Address r) \<le> ts" using assms(2) that by blast+
    then have "kr_Address r \<notin> kr_Address ` set rs" using assms(3,4) by fastforce
    moreover from this have "r \<notin> set (keep_last rs)" using keep_last_subset by blast
    ultimately show ?thesis by (auto simp: set_put_records)
  qed
  then show "set (filter P (put_records recs rs)) = set (filter P recs)" by auto
qed

lemma latest_put_records_key:
  assumes "\<And>q. same_key q r \<Longrightarrow> K q" "\<forall>q \<in> set rs. K q \<longrightarrow> ts < ka_Timestamp (kr_Address q)"
  shows "latest (put_records recs rs) ts r = latest recs ts r"
proof -
  have "q \<in> set (put_records recs rs) \<longleftrightarrow> q \<in> set recs" if "ka_Timestamp (kr_Address q) \<le> ts" "same_key q r" for q
  proof -
    have "kr_Address q \<notin> kr_Address ` set rs"
    proof
      assume "kr_Address q \<in> kr_Address ` set rs"
      then obtain x where x: "x \<in> set rs" "kr_Address x = kr_Address q" by auto
      then have "same_key x r" using that(2) by (simp add: same_key_def)
      with assms x that(1) show False by auto
    qed
    moreover from this have "q \<notin> set (keep_last rs)" using keep_last_subset by blast
    ultimately show ?thesis by (auto simp: set_put_records)
  qed
  then show ?thesis unfolding latest_def by blast
qed

lemma view_get_stable_key:
  assumes "recs_sorted recs"
    and "\<forall>q \<in> set rs. ka_Keyspace (kr_Address q) = ma_Keyspace a \<and> ka_Key (kr_Address q) = ma_Key a \<longrightarrow>
      eff_ts ts < ka_Timestamp (kr_Address q)"
  shows "view_get (put_records recs rs) ts a = view_get recs ts a"
proof -
  let ?K = "\<lambda>r. ka_Keyspace (kr_Address r) = ma_Keyspace a \<and> ka_Key (kr_Address r) = ma_Key a"
  have "latest (put_records recs rs) (eff_ts ts) r = latest recs (eff_ts ts) r" if "?K r" for r
    using latest_put_records_key [of r ?K rs "eff_ts ts" recs] assms(2) that by (auto simp: same_key_def)
  then have l: "(\<lambda>r. ka_Keyspace (kr_Address r) = ma_Keyspace a \<and> ka_Key (kr_Address r) = ma_Key a \<and>
      latest (put_records recs rs) (eff_ts ts) r \<and> live r) = (\<lambda>r. ?K r \<and> latest recs (eff_ts ts) r \<and> live r)"
    by (intro ext) auto
  have "filter (\<lambda>r. ?K r \<and> latest recs (eff_ts ts) r \<and> live r) (put_records recs rs) =
      filter (\<lambda>r. ?K r \<and> latest recs (eff_ts ts) r \<and> live r) recs"
    by (rule filter_put_records_key [OF assms(1), where K = ?K]) (use assms(2) in \<open>auto simp: latest_def\<close>)
  then show ?thesis unfolding view_get_def find_eq_hd_filter l by simp
qed

lemma view_range_stable_key:
  assumes "recs_sorted recs"
    and "\<forall>q \<in> set rs. key_in_range s e q \<longrightarrow> eff_ts ts < ka_Timestamp (kr_Address q)"
  shows "view_range (put_records recs rs) ts s e = view_range recs ts s e"
proof -
  let ?K = "key_in_range s e"
  have l: "?K r \<and> latest (put_records recs rs) (eff_ts ts) r \<and> live r \<longleftrightarrow> ?K r \<and> latest recs (eff_ts ts) r \<and> live r" for r
    using latest_put_records_key [of r ?K rs "eff_ts ts" recs] assms(2) key_in_range_cong by blast
  have "filter (\<lambda>r. ?K r \<and> latest recs (eff_ts ts) r \<and> live r) (put_records recs rs) =
      filter (\<lambda>r. ?K r \<and> latest recs (eff_ts ts) r \<and> live r) recs"
    by (rule filter_put_records_key [OF assms(1), where K = ?K])
      (use assms(2) in \<open>auto simp: latest_def key_in_range_def\<close>)
  then show ?thesis unfolding view_range_def by (simp add: l)
qed

section \<open>The shield\<close>

definition compatible_txns :: "txn \<Rightarrow> txn \<Rightarrow> bool" where
  "compatible_txns t u \<longleftrightarrow> (\<forall>l \<in> set (BuildLocks t). \<forall>k \<in> set (BuildLocks u). CompatibleWith l k)"

definition entry_safe :: "u64 \<Rightarrow> txn \<Rightarrow> txn_status \<Rightarrow> prepared \<Rightarrow> bool" where
  "entry_safe S t s p \<longleftrightarrow> compatible_txns t (pr_Txn p) \<or>
     (case ts_State s of
        Prepared \<Rightarrow> S < ts_Timestamp s
      | Decided \<Rightarrow> \<forall>d. pr_Decision p = Some d \<longrightarrow> S < d_CommitTimestamp d
      | _ \<Rightarrow> True)"

definition shielded :: "u64 \<Rightarrow> txn \<Rightarrow> 'db manager \<Rightarrow> bool" where
  "shielded S t m \<longleftrightarrow> gomap_wf (m_status m) \<and> gomap_wf (m_prepared m) \<and> (\<forall>i p. mget (m_prepared m) i = Some p \<longrightarrow> txn_ok (pr_Txn p) \<and>
     (\<forall>s. mget (m_status m) i = Some s \<longrightarrow> entry_safe S t s p))"

lemma shieldedD:
  "shielded S t m \<Longrightarrow> mget (m_prepared m) i = Some p \<Longrightarrow> txn_ok (pr_Txn p)"
  "shielded S t m \<Longrightarrow> mget (m_prepared m) i = Some p \<Longrightarrow> mget (m_status m) i = Some s \<Longrightarrow> entry_safe S t s p"
  by (simp_all add: shielded_def)

lemma shielded_same: "same_txns m m' \<Longrightarrow> shielded S t m' = shielded S t m"
  by (simp add: same_txns_def shielded_def)

lemma shielded_status:
  assumes "shielded S t m" "m_status m' = mput i s (m_status m)" "m_prepared m' = m_prepared m"
    and "\<And>p. mget (m_prepared m) i = Some p \<Longrightarrow> entry_safe S t s p"
  shows "shielded S t m'"
  using assms by (auto simp: shielded_def)

lemma shielded_both:
  assumes "shielded S t m" "m_status m' = mput i s (m_status m)" "m_prepared m' = mput i p (m_prepared m)"
    and "entry_safe S t s p" "txn_ok (pr_Txn p)"
  shows "shielded S t m'"
  using assms by (auto simp: shielded_def)

lemma shielded_prepared:
  assumes "shielded S t m" "m_status m' = m_status m" "m_prepared m' = mput i p (m_prepared m)"
    and "\<And>s. mget (m_status m) i = Some s \<Longrightarrow> entry_safe S t s p" "txn_ok (pr_Txn p)"
  shows "shielded S t m'"
  using assms by (auto simp: shielded_def)

lemma entry_safe_released [simp]: "entry_safe S t s (released p) = entry_safe S t s p"
  by (simp add: entry_safe_def split: txn_state.splits)

lemma entry_safe_other: "ts_State s \<noteq> Prepared \<Longrightarrow> ts_State s \<noteq> Decided \<Longrightarrow> entry_safe S t s p"
  by (auto simp: entry_safe_def split: txn_state.splits)

lemma releaseLocks_shielded: "shielded S t m \<Longrightarrow> shielded S t (releaseLocks i m)"
  by (cases "mget (m_prepared m) i")
    (simp_all add: releaseLocks_def, auto simp: shielded_def simp flip: released_def)

lemma set_status_shielded:
  "shielded S t m \<Longrightarrow> (\<And>p. mget (m_prepared m) i = Some p \<Longrightarrow> entry_safe S t s p) \<Longrightarrow> shielded S t (set_status i s m)"
  by (rule shielded_status [of S t m _ i s]) (simp_all add: set_status_def)

lemma shielded_meters [simp]:
  "shielded S t (add_tracked n m) = shielded S t m" "shielded S t (add_running n m) = shielded S t m"
  "shielded S t (add_timedout n m) = shielded S t m" "shielded S t (add_locks_held n m) = shielded S t m"
  "shielded S t (m\<lparr>m_store := st\<rparr>) = shielded S t m" "shielded S t (m\<lparr>m_maxTimestamp := mx\<rparr>) = shielded S t m"
  by (simp_all add: shielded_def add_tracked_def add_running_def add_timedout_def add_locks_held_def)

lemma applyAbort_shielded: "shielded S t m \<Longrightarrow> applyAbort c m = (r, m') \<Longrightarrow> shielded S t m'"
  by (auto simp: applyAbort_def Let_def intro!: set_status_shielded releaseLocks_shielded entry_safe_other
      split: option.splits txn_state.splits)

lemma applyMarkTimedout_shielded: "shielded S t m \<Longrightarrow> applyMarkTimedout c m = (r, m') \<Longrightarrow> shielded S t m'"
  by (auto simp: applyMarkTimedout_def Let_def intro!: set_status_shielded releaseLocks_shielded entry_safe_other
      split: option.splits txn_state.splits if_splits)

lemma applyCommit_shielded: "shielded S t m \<Longrightarrow> applyCommit c m = Some (r, m') \<Longrightarrow> shielded S t m'"
  by (auto simp: applyCommit_def commit_prepared_def Let_def intro!: set_status_shielded entry_safe_other
      split: option.splits txn_state.splits if_splits bind_splits)

lemma applyStoreDecision_shielded:
  assumes "shielded S t m" "applyStoreDecision c m = Some (r, m')"
  shows "shielded S t m'"
proof -
  let ?i = "d_Id (sd_Decision c)" and ?d = "sd_Decision c"
  consider "m' = m" | s p where "mget (m_status m) ?i = Some s" "mget (m_prepared m) ?i = Some p" "ts_State s = Prepared"
    "ts_Timestamp s \<le> d_CommitTimestamp ?d"
    "m' = set_status ?i (newStatus ?i (sd_Timestamp c) Decided) (set_prepared ?i (p\<lparr>pr_Decision := Some ?d\<rparr>) m)"
    using assms(2) by (auto simp: applyStoreDecision_def Let_def not_less
        split: option.splits txn_state.splits if_splits bind_splits)
  then show ?thesis
  proof cases
    case 2
    have "entry_safe S t s p" "txn_ok (pr_Txn p)" using shieldedD [OF assms(1)] 2 by blast+
    then show ?thesis using 2
      by (intro shielded_both [OF assms(1), of _ ?i "newStatus ?i (sd_Timestamp c) Decided" "p\<lparr>pr_Decision := Some ?d\<rparr>"])
        (auto simp: set_status_def set_prepared_def entry_safe_def intro: less_le_trans)
  qed (use assms in simp)
qed

lemma applyPrepare_effect:
  assumes "applyPrepare c m = Some (r, m')"
  shows "same_txns m m' \<or> m_status m' = mput (t_Id (pp_Txn c)) (newStatus (t_Id (pp_Txn c)) (pp_Timestamp c) Prepared) (m_status m) \<and>
    m_prepared m' = mput (t_Id (pp_Txn c)) (new_prepared (pp_Txn c) (pp_Timestamp c)) (m_prepared m)"
proof (cases "mget (m_status m) (t_Id (pp_Txn c))")
  case (Some s)
  then show ?thesis
    using assms by (auto simp: applyPrepare_def Let_def split: txn_state.splits)
next
  case None
  obtain cl m1 where cl: "checkLocks (t_Id (pp_Txn c)) (pp_Timestamp c) (BuildLocks (pp_Txn c)) m = (cl, m1)"
    by fastforce
  have s1: "same_txns m m1" using checkLocks_same [OF cl] by simp
  show ?thesis
  proof (cases cl)
    case (Some s)
    then show ?thesis using assms None cl s1 by (auto simp: applyPrepare_def Let_def)
  next
    case cn: None
    then obtain v m2 where v: "validate_loop (t_Id (pp_Txn c)) (pp_Timestamp c) (t_Actions (pp_Txn c)) m1 = Some (v, m2)"
      using assms None cl by (auto simp: applyPrepare_def Let_def validate_def split: bind_splits)
    have s2: "same_txns m m2" using s1 validate_same [OF v] by (rule same_txns_trans)
    show ?thesis
      using assms None cl cn v s2
      by (auto simp: applyPrepare_def Let_def validate_def same_txns_def new_prepared_def split: option.splits bind_splits)
  qed
qed

lemma applyAutocommit_effect:
  assumes "applyAutocommit c m = Some (r, m')"
  shows "same_txns m m' \<or> m_status m' = mput (t_Id (ac_Txn c)) (newStatus (t_Id (ac_Txn c)) (ac_Timestamp c) Committed) (m_status m) \<and>
    m_prepared m' = m_prepared m"
proof (cases "mget (m_status m) (t_Id (ac_Txn c))")
  case (Some s)
  then show ?thesis
    using assms by (auto simp: applyAutocommit_def Let_def split: txn_state.splits)
next
  case None
  obtain cl m1 where cl: "checkLocks (t_Id (ac_Txn c)) (ac_Timestamp c) (BuildLocks (ac_Txn c)) m = (cl, m1)"
    by fastforce
  have s1: "same_txns m m1" using checkLocks_same [OF cl] by simp
  show ?thesis
  proof (cases cl)
    case (Some s)
    then show ?thesis using assms None cl s1 by (auto simp: applyAutocommit_def Let_def)
  next
    case cn: None
    then obtain v m2 where v: "validate_loop (t_Id (ac_Txn c)) (ac_Timestamp c) (t_Actions (ac_Txn c)) m1 = Some (v, m2)"
      using assms None cl by (auto simp: applyAutocommit_def Let_def validate_def split: bind_splits)
    have s2: "same_txns m m2" using s1 validate_same [OF v] by (rule same_txns_trans)
    show ?thesis
      using assms None cl cn v s2
      by (auto simp: applyAutocommit_def Let_def validate_def same_txns_def split: option.splits bind_splits)
  qed
qed

lemma applyPrepare_shielded:
  assumes "shielded S t m" "applyPrepare c m = Some (r, m')" "S < pp_Timestamp c" "txn_ok (pp_Txn c)"
  shows "shielded S t m'"
  using applyPrepare_effect [OF assms(2)]
proof (elim disjE conjE)
  assume "same_txns m m'"
  then show ?thesis using assms(1) by (simp add: shielded_same)
next
  assume a: "m_status m' = mput (t_Id (pp_Txn c)) (newStatus (t_Id (pp_Txn c)) (pp_Timestamp c) Prepared) (m_status m)"
    and b: "m_prepared m' = mput (t_Id (pp_Txn c)) (new_prepared (pp_Txn c) (pp_Timestamp c)) (m_prepared m)"
  show ?thesis by (rule shielded_both [OF assms(1) a b]) (use assms(3,4) in \<open>simp_all add: entry_safe_def\<close>)
qed

lemma applyAutocommit_shielded:
  assumes "shielded S t m" "applyAutocommit c m = Some (r, m')"
  shows "shielded S t m'"
  using applyAutocommit_effect [OF assms(2)]
proof (elim disjE conjE)
  assume "same_txns m m'"
  then show ?thesis using assms(1) by (simp add: shielded_same)
next
  assume a: "m_status m' = mput (t_Id (ac_Txn c)) (newStatus (t_Id (ac_Txn c)) (ac_Timestamp c) Committed) (m_status m)"
    and b: "m_prepared m' = m_prepared m"
  show ?thesis by (rule shielded_status [OF assms(1) a b]) (simp add: entry_safe_other)
qed


section \<open>What a batch writes\<close>

text \<open>A write that a shielded transaction does not see: it is later, or to a key it does not touch.\<close>

definition unseen :: "u64 \<Rightarrow> txn \<Rightarrow> mv_record \<Rightarrow> bool" where
  "unseen S t w \<longleftrightarrow> S < mr_Timestamp w \<or>
     (\<forall>a \<in> set (t_Actions t). \<not> action_touches a (ma_Keyspace (mr_Address w)) (ma_Key (mr_Address w)))"

lemma buildWriteRecords_writes:
  assumes "buildWriteRecords marshal ts as = Some ws" "w \<in> set ws"
  shows "mr_Timestamp w = ts \<and> (\<exists>a \<in> set as. action_writes a (ma_Keyspace (mr_Address w)) (ma_Key (mr_Address w)))"
  using assms
proof (induction as arbitrary: ws)
  case (Cons a as)
  show ?case
  proof (cases "a_Payload a")
    case (Action_Delete ks k)
    with Cons show ?thesis
      by (auto simp: mk_write_def mv_NewAddress_def action_writes_def split: bind_splits)
  qed (use Cons in \<open>auto simp: value_write_def mk_write_def mv_NewAddress_def action_writes_def split: bind_splits\<close>)
qed simp

lemma action_writes_user: "action_ok a \<Longrightarrow> action_writes a ks k \<Longrightarrow> user_key ks k"
  by (auto simp: action_ok_def action_writes_def split: action_payload.splits)

lemma compatible_txns_disjoint:
  assumes "compatible_txns t u" "a \<in> set (t_Actions t)" "action_touches a ks k" "b \<in> set (t_Actions u)"
  shows "\<not> action_writes b ks k"
proof
  assume w: "action_writes b ks k"
  obtain l where l: "BuildLock b = Some l" "lock_exclusive l" "lock_covers l ks k" using BuildLock_writes [OF w] by blast
  obtain n where n: "BuildLock a = Some n" "lock_covers n ks k" using BuildLock_touches [OF assms(3)] by blast
  have "\<not> CompatibleWith n l" using l n by (intro conflict_imp_incompatible) (auto simp: locks_conflict_def)
  moreover have "n \<in> set (BuildLocks t)" "l \<in> set (BuildLocks u)"
    using l(1) n(1) assms(2,4) by (auto simp: BuildLocks_def build_locks_mem)
  ultimately show False using assms(1) by (auto simp: compatible_txns_def)
qed

lemma applyCommit_unseen:
  assumes "shielded S t m" "applyCommit c m = Some (r, m')" "w \<in> set (res_writes r)"
  shows "unseen S t w \<and> user_address (mr_Address w)"
proof -
  obtain s p ws where p: "mget (m_status m) (c_Id c) = Some s" "mget (m_prepared m) (c_Id c) = Some p"
    "ts_State s = Prepared \<and> ts_Timestamp s \<le> c_Timestamp c \<or>
     ts_State s = Decided \<and> (\<exists>d. pr_Decision p = Some d \<and> c_Timestamp c = d_CommitTimestamp d)"
    "buildWriteRecords (m_marshal m) (c_Timestamp c) (t_Actions (pr_Txn p)) = Some ws" "w \<in> set ws"
    using assms(2,3)
    by (auto simp: applyCommit_def commit_prepared_def res_writes_def Let_def not_less
        split: option.splits txn_state.splits if_splits bind_splits)
  obtain a where a: "a \<in> set (t_Actions (pr_Txn p))" "mr_Timestamp w = c_Timestamp c"
    "action_writes a (ma_Keyspace (mr_Address w)) (ma_Key (mr_Address w))"
    using buildWriteRecords_writes [OF p(4,5)] by blast
  have ok: "txn_ok (pr_Txn p)" "entry_safe S t s p" using shieldedD [OF assms(1) p(2)] p(1) by blast+
  have "user_address (mr_Address w)"
    using action_writes_user [OF _ a(3)] a(1) ok(1) by (auto simp: txn_ok_def list_all_iff user_key_def user_address_def)
  moreover have "unseen S t w"
    using ok(2) p(3) a compatible_txns_disjoint [of t "pr_Txn p"] by (auto simp: entry_safe_def unseen_def)
  ultimately show ?thesis by blast
qed

lemma applyAutocommit_unseen:
  assumes "applyAutocommit c m = Some (r, m')" "w \<in> set (res_writes r)" "S < ac_Timestamp c" "txn_ok (ac_Txn c)"
  shows "unseen S t w \<and> user_address (mr_Address w)"
proof -
  obtain mar ws where "buildWriteRecords mar (ac_Timestamp c) (t_Actions (ac_Txn c)) = Some ws" "w \<in> set ws"
    using assms(1,2)
    by (auto simp: applyAutocommit_def res_writes_def Let_def split: option.splits txn_state.splits bind_splits prod.splits)
  from buildWriteRecords_writes [OF this] obtain a where a: "a \<in> set (t_Actions (ac_Txn c))"
    "mr_Timestamp w = ac_Timestamp c" "action_writes a (ma_Keyspace (mr_Address w)) (ma_Key (mr_Address w))" by blast
  then show ?thesis
    using action_writes_user [OF _ a(3)] assms(3,4) by (auto simp: txn_ok_def list_all_iff user_key_def user_address_def unseen_def)
qed

section \<open>Batches on a store\<close>

definition store_is ::
    "'db mv_ops \<Rightarrow> ('db \<Rightarrow> u32 \<Rightarrow> kv_record list option) \<Rightarrow> ('db \<Rightarrow> bool) \<Rightarrow> 'db manager \<Rightarrow> kv_record list \<Rightarrow> bool" where
  "store_is ops contents I m recs \<longleftrightarrow> mb_db (m_db m) = ops \<and> I (m_store m) \<and> contents (m_store m) (m_pid m) = Some recs"

lemma store_is_cong:
  "frame m m' \<Longrightarrow> m_store m' = m_store m \<Longrightarrow> store_is ops contents I m' recs = store_is ops contents I m recs"
  by (simp add: store_is_def frame_def)

lemma store_is_upd [simp]:
  "store_is ops contents I (add_tracked n m) recs = store_is ops contents I m recs"
  "store_is ops contents I (add_running n m) recs = store_is ops contents I m recs"
  "store_is ops contents I (add_locks_held n m) recs = store_is ops contents I m recs"
  "store_is ops contents I (set_status i s m) recs = store_is ops contents I m recs"
  "store_is ops contents I (set_prepared i p m) recs = store_is ops contents I m recs"
  by (simp_all add: store_is_def add_tracked_def add_running_def add_locks_held_def set_status_def set_prepared_def)

lemma store_is_db:
  "store_is ops contents I m recs \<Longrightarrow> \<exists>k. m_db m = \<lparr>mb_db = ops, mb_maxAttempts = k\<rparr>"
  by (cases "m_db m") (simp add: store_is_def)

lemma each_inv:
  assumes "each f cs m = Some (rs, m')" "P m"
    and "\<And>c m r m'. c \<in> set cs \<Longrightarrow> P m \<Longrightarrow> f c m = Some (r, m') \<Longrightarrow> P m' \<and> Q r"
  shows "P m' \<and> (\<forall>r \<in> set rs. Q r)"
  using assms
proof (induction cs arbitrary: m rs)
  case (Cons c cs)
  then obtain r m1 rs' where c: "f c m = Some (r, m1)" "each f cs m1 = Some (rs', m')" "rs = r # rs'"
    by (auto split: bind_splits)
  have "P m1 \<and> Q r" using Cons.prems(3) [OF _ Cons.prems(2) c(1)] by simp
  moreover have "P m' \<and> (\<forall>r \<in> set rs'. Q r)"
    by (rule Cons.IH [OF c(2)]) (use calculation Cons.prems(3) in auto)
  ultimately show ?case using c(3) by simp
qed simp

definition batch_ok :: "u64 \<Rightarrow> txn_batch \<Rightarrow> bool" where
  "batch_ok S b \<longleftrightarrow> (\<forall>c \<in> set (b_Autocommit b). S < ac_Timestamp c \<and> txn_ok (ac_Txn c)) \<and>
     (\<forall>c \<in> set (b_Prepare b). S < pp_Timestamp c \<and> txn_ok (pp_Txn c))"

lemma run_completion_shielded:
  "shielded S t m \<Longrightarrow> shielded S t (run_completion c m)"
  by (cases c) (simp_all add: run_completion_def releaseLocks_shielded)

lemma fold_completion_shielded: "shielded S t m \<Longrightarrow> shielded S t (fold run_completion cs m)"
  by (induction cs arbitrary: m) (simp_all add: run_completion_shielded)

lemma store_is_completion [simp]:
  "store_is ops contents I (fold run_completion cs m) recs = store_is ops contents I m recs"
proof (induction cs arbitrary: m)
  case (Cons c cs)
  have "store_is ops contents I (run_completion c m) recs = store_is ops contents I m recs"
    by (cases c) (simp_all add: run_completion_def store_is_cong)
  with Cons show ?case by simp
qed simp

lemma cleanup_shielded: "shielded S t m \<Longrightarrow> shielded S t (cleanup now m)"
  by (auto simp: shielded_def cleanup_def Let_def mget_filter_Some)

lemma store_is_maxTimestamp [simp]:
  "store_is ops contents I (m\<lparr>m_maxTimestamp := x\<rparr>) recs = store_is ops contents I m recs"
  by (simp add: store_is_def)

lemma store_is_cleanup [simp]: "store_is ops contents I (cleanup now m) recs = store_is ops contents I m recs"
  by (simp add: store_is_def cleanup_def Let_def add_tracked_def)

context mvcc_db
begin

lemma db_Exists_store:
  assumes "store_is ops contents inv m recs" "db_Exists ts a m = Some (b, m')" "user_address a"
  shows "store_is ops contents inv m' recs"
proof -
  obtain st where st: "Breaker_Exists (m_db m) (m_store m) (m_pid m) ts a = Some (b, st)" "m' = m\<lparr>m_store := st\<rparr>"
    using assms(2) by (auto simp: db_Exists_def split: bind_splits)
  obtain k where "m_db m = \<lparr>mb_db = ops, mb_maxAttempts = k\<rparr>" using store_is_db [OF assms(1)] by blast
  then have "inv st \<and> contents st = contents (m_store m)"
    using Breaker_Exists_view [of "m_store m" "m_pid m" recs a k ts b st] st(1) assms(1,3) by (simp add: store_is_def)
  then show ?thesis using assms(1) st(2) by (simp add: store_is_def)
qed

lemma db_ExistsInRange_store:
  assumes "store_is ops contents inv m recs" "db_ExistsInRange ts s e m = Some (b, m')"
    and "user_address s" "ma_Keyspace e = ma_Keyspace s" "ma_Key s \<noteq> []"
  shows "store_is ops contents inv m' recs"
proof -
  obtain st where st: "Breaker_ExistsInRange (m_db m) (m_store m) (m_pid m) ts s e = Some (b, st)" "m' = m\<lparr>m_store := st\<rparr>"
    using assms(2) by (auto simp: db_ExistsInRange_def split: bind_splits)
  obtain k where "m_db m = \<lparr>mb_db = ops, mb_maxAttempts = k\<rparr>" using store_is_db [OF assms(1)] by blast
  then have "inv st \<and> contents st = contents (m_store m)"
    using Breaker_ExistsInRange_view [of "m_store m" "m_pid m" recs s e k ts b st] st(1) assms(1,3-)
    by (simp add: store_is_def)
  then show ?thesis using assms(1) st(2) by (simp add: store_is_def)
qed

lemma validate_action_store:
  assumes "store_is ops contents inv m recs" "validate_action ts a m = Some (r, m')" "action_ok a"
  shows "store_is ops contents inv m' recs"
proof -
  note E = db_Exists_store [OF assms(1), of "ts - 1"] and R = db_ExistsInRange_store [OF assms(1), of "ts - 1"]
  have u: "user_address (mv_NewAddress ks k)" "k \<noteq> []" if "(ks, k) \<in> set (action_keys (a_Payload a))" for ks k
    using assms(3) that by (auto simp: action_ok_def user_key_def user_address_def mv_NewAddress_def list_all_iff)
  show ?thesis
  proof (cases "a_Payload a")
    case (Action_LockKey l check)
    then show ?thesis using assms(1,2) E u [of "kl_Keyspace l" "kl_Key l"]
      by (auto simp: validate_action_def split: bind_splits if_splits)
  next
    case (Action_LockRange l check)
    then show ?thesis
      using assms(1,2) u [of "rl_Keyspace l" "rl_StartKey l"]
        R [of "mv_NewAddress (rl_Keyspace l) (rl_StartKey l)" "mv_NewAddress (rl_Keyspace l) (rl_EndKey l)"]
      by (auto simp: validate_action_def mv_NewAddress_def split: bind_splits if_splits)
  qed (use assms(1,2) E u in \<open>auto simp: validate_action_def split: bind_splits\<close>)
qed

lemma validate_loop_store:
  "store_is ops contents inv m recs \<Longrightarrow> validate_loop i ts as m = Some (r, m') \<Longrightarrow> list_all action_ok as \<Longrightarrow>
    store_is ops contents inv m' recs"
proof (induction as arbitrary: m)
  case (Cons a as)
  obtain c m1 where v: "validate_action ts a m = Some (c, m1)" using Cons.prems(2) by (auto split: bind_splits)
  have s: "store_is ops contents inv m1 recs" using validate_action_store [OF Cons.prems(1) v] Cons.prems(3) by simp
  show ?case
  proof (cases c)
    case None
    then show ?thesis using Cons.IH [OF s] Cons.prems v by simp
  next
    case (Some x)
    then show ?thesis using Cons.prems v s store_is_cong [of m1 "validation_failed m1"] by auto
  qed
qed simp

lemma applyAutocommit_store:
  assumes "store_is ops contents inv m recs" "applyAutocommit c m = Some (r, m')" "txn_ok (ac_Txn c)"
  shows "store_is ops contents inv m' recs"
proof (cases "mget (m_status m) (t_Id (ac_Txn c))")
  case (Some s)
  then show ?thesis using assms by (auto simp: applyAutocommit_def Let_def split: txn_state.splits)
next
  case None
  obtain cl m1 where cl: "checkLocks (t_Id (ac_Txn c)) (ac_Timestamp c) (BuildLocks (ac_Txn c)) m = (cl, m1)"
    by fastforce
  have s1: "store_is ops contents inv m1 recs"
    using checkLocks_same [OF cl] assms(1) store_is_cong [of m m1] by (auto simp: same_txns_def)
  show ?thesis
  proof (cases cl)
    case (Some s)
    then show ?thesis using assms(2) None cl s1 by (auto simp: applyAutocommit_def Let_def)
  next
    case cn: None
    then obtain v m2 where v: "validate_loop (t_Id (ac_Txn c)) (ac_Timestamp c) (t_Actions (ac_Txn c)) m1 = Some (v, m2)"
      using assms(2) None cl by (auto simp: applyAutocommit_def Let_def validate_def split: bind_splits)
    have s2: "store_is ops contents inv m2 recs"
      using validate_loop_store [OF s1 v] assms(3) by (simp add: txn_ok_def)
    have "m' = m2 \<or> (\<exists>st. m' = add_tracked 1 (set_status (t_Id (ac_Txn c)) st m2))"
      using assms(2) None cl cn v
      by (auto simp: applyAutocommit_def Let_def validate_def split: option.splits bind_splits)
    then show ?thesis using s2 by auto
  qed
qed

lemma applyPrepare_store:
  assumes "store_is ops contents inv m recs" "applyPrepare c m = Some (r, m')" "txn_ok (pp_Txn c)"
  shows "store_is ops contents inv m' recs"
proof (cases "mget (m_status m) (t_Id (pp_Txn c))")
  case (Some s)
  then show ?thesis using assms by (auto simp: applyPrepare_def Let_def split: txn_state.splits)
next
  case None
  obtain cl m1 where cl: "checkLocks (t_Id (pp_Txn c)) (pp_Timestamp c) (BuildLocks (pp_Txn c)) m = (cl, m1)"
    by fastforce
  have s1: "store_is ops contents inv m1 recs"
    using checkLocks_same [OF cl] assms(1) store_is_cong [of m m1] by (auto simp: same_txns_def)
  show ?thesis
  proof (cases cl)
    case (Some s)
    then show ?thesis using assms(2) None cl s1 by (auto simp: applyPrepare_def Let_def)
  next
    case cn: None
    then obtain v m2 where v: "validate_loop (t_Id (pp_Txn c)) (pp_Timestamp c) (t_Actions (pp_Txn c)) m1 = Some (v, m2)"
      using assms(2) None cl by (auto simp: applyPrepare_def Let_def validate_def split: bind_splits)
    have s2: "store_is ops contents inv m2 recs"
      using validate_loop_store [OF s1 v] assms(3) by (simp add: txn_ok_def)
    have "m' = m2 \<or> (\<exists>st p n. m' = add_locks_held n (add_tracked 1 (add_running 1 (set_status (t_Id (pp_Txn c)) st (set_prepared (t_Id (pp_Txn c)) p m2)))))"
      using assms(2) None cl cn v
      by (auto simp: applyPrepare_def Let_def validate_def split: option.splits bind_splits)
    then show ?thesis using s2 by auto
  qed
qed

lemma db_Put_store:
  assumes "store_is ops contents inv m recs" "db_Put index ws m = Some m'"
    and "\<forall>w \<in> set ws. user_address (mr_Address w)"
  shows "store_is ops contents inv m' (put_records recs (map ToKVRecord ws))"
proof -
  obtain st where st: "Breaker_Put (m_db m) (m_store m) (m_pid m) index ws = Some st" "m' = m\<lparr>m_store := st\<rparr>"
    using assms(2) by (auto simp: db_Put_def split: bind_splits)
  obtain k where "m_db m = \<lparr>mb_db = ops, mb_maxAttempts = k\<rparr>" using store_is_db [OF assms(1)] by blast
  then have "inv st \<and> contents st = (contents (m_store m))(m_pid m \<mapsto> put_records recs (map ToKVRecord ws))"
    using Breaker_Put_view [of "m_store m" "m_pid m" recs ws k index st] st(1) assms(1,3)
    by (simp add: store_is_def list_all_iff)
  then show ?thesis using assms(1) st(2) by (simp add: store_is_def)
qed

lemma ApplyBatch_shielded:
  assumes "store_is ops contents inv m recs" "shielded S t m" "batch_ok S b"
    and "ApplyBatch now index b m = Some (res, m')"
  shows "\<exists>ws. store_is ops contents inv m' (put_records recs (map ToKVRecord ws)) \<and> shielded S t m' \<and>
    (\<forall>w \<in> set ws. unseen S t w)"
proof -
  obtain ra m1 rt m2 rc m3 ru m4 rp m5 rd m6 m7 where st:
    "each (\<lambda>c m. Some (applyAbort c m)) (b_Abort b) m = Some (ra, m1)"
    "each (\<lambda>c m. Some (applyMarkTimedout c m)) (b_MarkTimedout b) m1 = Some (rt, m2)"
    "each applyCommit (b_Commit b) m2 = Some (rc, m3)"
    "each applyAutocommit (b_Autocommit b) m3 = Some (ru, m4)"
    "each applyPrepare (b_Prepare b) m4 = Some (rp, m5)"
    "each applyStoreDecision (b_StoreDecision b) m5 = Some (rd, m6)"
    "db_Put index (concat (map res_writes rc) @ concat (map res_writes ru)) m6 = Some m7"
    "m' = cleanup now ((fold run_completion (concat (map res_completion rc) @ concat (map res_completion ru)) m7)
            \<lparr>m_maxTimestamp := b_MaxTimestamp b\<rparr>)"
    by (rule ApplyBatch_stages [OF assms(4)]) blast
  let ?P = "\<lambda>m. shielded S t m \<and> store_is ops contents inv m recs"
  let ?W = "\<lambda>r. \<forall>w \<in> set (res_writes r). unseen S t w \<and> user_address (mr_Address w)"
  have p1: "?P m1 \<and> (\<forall>r \<in> set ra. True)"
  proof (rule each_inv [OF st(1)])
    fix c m r m' assume a: "?P m" "Some (applyAbort c m) = Some (r, m')"
    then have "applyAbort c m = (r, m')" by simp
    from applyAbort_shielded [OF _ this] applyAbort_refines [OF this, of "{}"] a(1) show "?P m' \<and> True"
      using store_is_cong [of m m'] by blast
  qed (use assms in simp)
  have p2: "?P m2 \<and> (\<forall>r \<in> set rt. True)"
  proof (rule each_inv [OF st(2)])
    fix c m r m' assume a: "?P m" "Some (applyMarkTimedout c m) = Some (r, m')"
    then have "applyMarkTimedout c m = (r, m')" by simp
    from applyMarkTimedout_shielded [OF _ this] applyMarkTimedout_refines [OF this, of "{}"] a(1) show "?P m' \<and> True"
      using store_is_cong [of m m'] by blast
  qed (use p1 in simp)
  have p3: "?P m3 \<and> (\<forall>r \<in> set rc. ?W r)"
  proof (rule each_inv [OF st(3)])
    fix c m r m' assume a: "?P m" "applyCommit c m = Some (r, m')"
    then show "?P m' \<and> ?W r"
      using applyCommit_shielded [OF _ a(2)] applyCommit_refines [OF a(2), of "{}"] applyCommit_unseen [OF _ a(2)]
        store_is_cong [of m m'] by blast
  qed (use p2 in simp)
  have p4: "?P m4 \<and> (\<forall>r \<in> set ru. ?W r)"
  proof (rule each_inv [OF st(4)])
    fix c m r m' assume a: "c \<in> set (b_Autocommit b)" "?P m" "applyAutocommit c m = Some (r, m')"
    have c: "S < ac_Timestamp c" "txn_ok (ac_Txn c)" using a(1) assms(3) by (auto simp: batch_ok_def)
    show "?P m' \<and> ?W r"
      using a(2) applyAutocommit_shielded [OF _ a(3)] applyAutocommit_store [OF _ a(3) c(2)]
        applyAutocommit_unseen [OF a(3) _ c] by blast
  qed (use p3 in simp)
  have p5: "?P m5 \<and> (\<forall>r \<in> set rp. True)"
  proof (rule each_inv [OF st(5)])
    fix c m r m' assume a: "c \<in> set (b_Prepare b)" "?P m" "applyPrepare c m = Some (r, m')"
    have c: "S < pp_Timestamp c" "txn_ok (pp_Txn c)" using a(1) assms(3) by (auto simp: batch_ok_def)
    show "?P m' \<and> True" using a(2) applyPrepare_shielded [OF _ a(3) c] applyPrepare_store [OF _ a(3) c(2)] by blast
  qed (use p4 in simp)
  have p6: "?P m6 \<and> (\<forall>r \<in> set rd. True)"
  proof (rule each_inv [OF st(6)])
    fix c m r m' assume a: "?P m" "applyStoreDecision c m = Some (r, m')"
    then show "?P m' \<and> True"
      using applyStoreDecision_shielded [OF _ a(2)] applyStoreDecision_refines [OF a(2), of "{}"]
        store_is_cong [of m m'] by blast
  qed (use p5 in simp)
  let ?ws = "concat (map res_writes rc) @ concat (map res_writes ru)"
  have ws: "\<forall>w \<in> set ?ws. unseen S t w \<and> user_address (mr_Address w)" using p3 p4 by auto
  have "store_is ops contents inv m7 (put_records recs (map ToKVRecord ?ws))"
    using db_Put_store [OF _ st(7)] p6 ws by blast
  moreover have "shielded S t m7" using p6 db_Put_same [OF st(7)] shielded_same by blast
  ultimately show ?thesis
    using ws by (intro exI [of _ ?ws])
      (auto simp: st(8) store_is_cong intro!: cleanup_shielded fold_completion_shielded)
qed

end

end
