(* ===== verification/Txn_Snapshot.thy ===== *)
theory Txn_Snapshot
  imports Txn_Reads
begin

text \<open>
  Snapshot reads. The results of a read depend on the store only through the versions it may see;
  the safe timestamp of the manager is a shield; so a read at a safe timestamp gives the same results
  whenever it succeeds, whatever batches are applied in between.
\<close>

section \<open>Results depend on the view\<close>

lemma range_results_prefix:
  "range_results decode skip n acc (map Item us @ [ItemErr e]) = Some (Inr x) \<Longrightarrow>
    range_results decode skip n acc (map Item us @ rest) = Some (Inr x)"
  by (induction us arbitrary: acc) (auto split: sum.splits if_splits)

lemma range_results_yields:
  assumes "yields it vs" "range_results decode skip n acc it = Some (Inr x)"
  shows "range_results decode skip n acc (map Item vs) = Some (Inr x)"
proof -
  have "range_results decode skip n acc (map Item vs) = Some (Inr x)" if "it = map Item (take k vs) @ [ItemErr e]" for k e
  proof -
    have "map Item vs = map Item (take k vs) @ map Item (drop k vs)" by (simp flip: map_append)
    then show ?thesis using range_results_prefix assms(2) that by metis
  qed
  then show ?thesis using assms by (auto simp: yields_def)
qed

lemma put_action_status_timestamp: "put_action_status i a s = Some s' \<Longrightarrow> ts_Timestamp s' = ts_Timestamp s"
  by (auto simp: put_action_status_def split: option.splits)

lemma point_results_timestamp: "point_results decode is rs s = Some s' \<Longrightarrow> ts_Timestamp s' = ts_Timestamp s"
  by (induction decode "is" rs s rule: point_results.induct)
    (auto simp: put_action_status_timestamp split: bind_splits)

lemma point_addrs_mem:
  "x \<in> set (getPointReadAddrs as) \<longleftrightarrow>
    (\<exists>a \<in> set as. \<exists>ks k. a_Payload a = Action_Read ks k \<and> x = (a_Id a, mv_NewAddress ks k))"
  by (induction as) (auto split: action_payload.splits)

text \<open>Two stores look the same to a list of actions at a timestamp.\<close>

definition same_view :: "u64 \<Rightarrow> action list \<Rightarrow> kv_record list \<Rightarrow> kv_record list \<Rightarrow> bool" where
  "same_view ts as recs recs' \<longleftrightarrow> (\<forall>a \<in> set as. case a_Payload a of
       Action_Read ks k \<Rightarrow> view_get recs' ts (mv_NewAddress ks k) = view_get recs ts (mv_NewAddress ks k)
     | Action_ReadRange ks s e _ \<Rightarrow>
         view_range recs' ts (mv_NewAddress ks s) (mv_NewAddress ks e) =
         view_range recs ts (mv_NewAddress ks s) (mv_NewAddress ks e)
     | _ \<Rightarrow> True)"

lemma same_view_refl [simp]: "same_view ts as recs recs"
  by (simp add: same_view_def split: action_payload.splits)

lemma same_view_trans: "same_view ts as x y \<Longrightarrow> same_view ts as y z \<Longrightarrow> same_view ts as x z"
  by (fastforce simp: same_view_def split: action_payload.splits)

lemma point_addrs_user: "txn_ok t \<Longrightarrow> list_all user_address (map snd (getPointReadAddrs (t_Actions t)))"
proof -
  assume t: "txn_ok t"
  have "user_address (snd x)" if x: "x \<in> set (getPointReadAddrs (t_Actions t))" for x
  proof -
    obtain a ks k where a: "a \<in> set (t_Actions t)" "a_Payload a = Action_Read ks k" "x = (a_Id a, mv_NewAddress ks k)"
      using x unfolding point_addrs_mem by blast
    have "action_ok a" using t a(1) by (simp add: txn_ok_def list_all_iff)
    then show ?thesis using a(2,3) by (simp add: action_ok_def user_key_def user_address_def mv_NewAddress_def)
  qed
  then show ?thesis by (simp add: list_all_iff)
qed

lemma same_view_points:
  "same_view ts as recs recs' \<Longrightarrow> x \<in> set (getPointReadAddrs as) \<Longrightarrow> view_get recs' ts (snd x) = view_get recs ts (snd x)"
  unfolding same_view_def point_addrs_mem by fastforce

context mvcc_db
begin

lemma readRange_view:
  assumes "store_is ops contents inv m recs" "user_key ks s" "readRange p ts ks s e n m = Some (r, m')"
  shows "store_is ops contents inv m' recs \<and>
    (\<forall>x. r = Inr x \<longrightarrow> range_results (rr_decode p) (rr_SkipCorruptedData p) (min (unat n) (rr_MaxIteratorResults p)) []
       (map Item (view_range recs ts (mv_NewAddress ks s) (mv_NewAddress ks e))) = Some (Inr x))"
proof -
  obtain y db where g: "mv_GetRange ops (m_store m) (m_pid m) ts (mv_NewAddress ks s) (mv_NewAddress ks e) = Some (y, db)"
    "inv db" "contents db = contents (m_store m)"
    "\<forall>it. y = Inr it \<longrightarrow> yields it (view_range recs ts (mv_NewAddress ks s) (mv_NewAddress ks e))"
    using scan_law [of "m_store m" "m_pid m" recs "mv_NewAddress ks s" "mv_NewAddress ks e" ts] assms(1,2)
    by (auto simp: store_is_def user_key_def user_address_def mv_NewAddress_def)
  have ops: "mb_db (m_db m) = ops" using assms(1) by (simp add: store_is_def)
  have "store_is ops contents inv (m\<lparr>m_store := db\<rparr>) recs" using assms(1) g(2,3) by (simp add: store_is_def)
  then show ?thesis
    using assms(3) g(1,4) range_results_yields
    by (auto simp: readRange_def raw_GetRange_def ops split: sum.splits bind_splits)
qed

lemma range_reads_view:
  assumes "store_is ops contents inv m recs" "store_is ops contents inv n recs'" "list_all action_ok as"
    and "same_view (ts_Timestamp s) as recs recs'"
    and "range_reads p as s m = Some (Inr x, m')" "range_reads p as s n = Some (Inr y, n')"
  shows "y = x"
  using assms
proof (induction as arbitrary: s m n)
  case (Cons a as)
  note v = Cons.prems(4)
  have sv: "same_view (ts_Timestamp s) as recs recs'" and ok: "list_all action_ok as" "action_ok a"
    using v Cons.prems(3) by (simp_all add: same_view_def)
  show ?case
  proof (cases "a_Payload a")
    case (Action_ReadRange ks b e k)
    obtain c u m1 where m1: "readRange p (ts_Timestamp s) ks b e k m = Some (Inr (c, u), m1)"
      using Cons.prems(5) Action_ReadRange by (auto split: bind_splits sum.splits)
    obtain d w n1 where n1: "readRange p (ts_Timestamp s) ks b e k n = Some (Inr (d, w), n1)"
      using Cons.prems(6) Action_ReadRange by (auto split: bind_splits sum.splits)
    have uk: "user_key ks b" using ok(2) Action_ReadRange by (simp add: action_ok_def)
    note rm = readRange_view [OF Cons.prems(1) uk m1] and rn = readRange_view [OF Cons.prems(2) uk n1]
    have e: "(d, w) = (c, u)" using rm rn v Action_ReadRange by (simp add: same_view_def)
    obtain s' where s': "put_action_status (a_Id a) (newActionStatus (a_Id a) c u) s = Some s'"
      using Cons.prems(5) Action_ReadRange m1 by (auto split: bind_splits)
    show ?thesis
      by (rule Cons.IH [of m1 n1 s'])
        (use rm rn sv ok e s' Cons.prems(5,6) Action_ReadRange m1 n1 put_action_status_timestamp [OF s'] in auto)
  qed (use Cons.IH [OF Cons.prems(1,2) ok(1) sv] Cons.prems(5,6) in simp_all)
qed simp

lemma fetchResults_split:
  assumes "store_is ops contents inv m recs" "txn_ok t" "fetchResults p t s m = Some (Inr x, m')"
  shows "\<exists>s' n. point_results (rr_decode p) (map fst (getPointReadAddrs (t_Actions t)))
      (map (view_get recs (ts_Timestamp s)) (map snd (getPointReadAddrs (t_Actions t)))) s = Some s' \<and>
    range_reads p (t_Actions t) s' n = Some (Inr x, m') \<and> store_is ops contents inv n recs"
proof -
  let ?as = "map snd (getPointReadAddrs (t_Actions t))" and ?ts = "ts_Timestamp s"
  have st: "mb_db (m_db m) = ops" "inv (m_store m)" "contents (m_store m) (m_pid m) = Some recs"
    using assms(1) by (simp_all add: store_is_def)
  from get_law [OF st(2,3) point_addrs_user [OF assms(2)], of ?ts] obtain y db where
    g: "mv_Get ops (m_store m) (m_pid m) ?ts ?as = Some (y, db)" "inv db" "contents db = contents (m_store m)"
    "\<forall>rs. y = Inr rs \<longrightarrow> rs = map (view_get recs ?ts) ?as" by blast
  have r: "raw_Get m ?ts ?as = Some (y, m\<lparr>m_store := db\<rparr>)" by (simp add: raw_Get_def st(1) g(1))
  obtain rs where y: "y = Inr rs" using assms(3) r by (cases y) (simp_all add: fetchResults_def Let_def)
  have "store_is ops contents inv (m\<lparr>m_store := db\<rparr>) recs" using st g(2,3) by (simp add: store_is_def)
  moreover have "rs = map (view_get recs ?ts) ?as" using g(4) y by simp
  ultimately show ?thesis
    using assms(3) r y
    by (cases "point_results (rr_decode p) (map fst (getPointReadAddrs (t_Actions t))) rs s")
      (auto simp: fetchResults_def Let_def)
qed

lemma fetchResults_view:
  assumes "store_is ops contents inv m recs" "store_is ops contents inv n recs'" "txn_ok t"
    and "same_view (ts_Timestamp s) (t_Actions t) recs recs'"
    and "fetchResults p t s m = Some (Inr x, m')" "fetchResults p t s n = Some (Inr y, n')"
  shows "y = x"
proof -
  let ?ps = "getPointReadAddrs (t_Actions t)" and ?ts = "ts_Timestamp s"
  have v: "map (view_get recs' ?ts) (map snd ?ps) = map (view_get recs ?ts) (map snd ?ps)"
    using same_view_points [OF assms(4)] by simp
  obtain s1 m1 where m1: "point_results (rr_decode p) (map fst ?ps) (map (view_get recs ?ts) (map snd ?ps)) s = Some s1"
    "range_reads p (t_Actions t) s1 m1 = Some (Inr x, m')" "store_is ops contents inv m1 recs"
    using fetchResults_split [OF assms(1,3,5)] by blast
  obtain s2 n1 where n1: "point_results (rr_decode p) (map fst ?ps) (map (view_get recs' ?ts) (map snd ?ps)) s = Some s2"
    "range_reads p (t_Actions t) s2 n1 = Some (Inr y, n')" "store_is ops contents inv n1 recs'"
    using fetchResults_split [OF assms(2,3,6)] by blast
  have e: "s2 = s1" using m1(1) n1(1) unfolding v by simp
  have t: "ts_Timestamp s1 = ?ts" using point_results_timestamp [OF m1(1)] .
  show ?thesis
    by (rule range_reads_view [OF m1(3) n1(3) _ _ m1(2) n1(2) [unfolded e]])
      (use assms(3,4) t in \<open>simp_all add: txn_ok_def\<close>)
qed

end

section \<open>Batches change no view\<close>

lemma unseen_same_view:
  assumes "recs_sorted recs" "\<forall>w \<in> set ws. unseen S t w" "ts \<noteq> 0" "ts \<le> S"
  shows "same_view ts (t_Actions t) recs (put_records recs (map ToKVRecord ws))"
proof -
  have e: "eff_ts ts = ts" using assms(3) by (simp add: eff_ts_def)
  have k: "ts < mr_Timestamp w" if "w \<in> set ws" "a \<in> set (t_Actions t)"
    "action_touches a (ma_Keyspace (mr_Address w)) (ma_Key (mr_Address w))" for w a
    using assms(2,4) that by (auto simp: unseen_def intro: le_less_trans)
  have "view_get (put_records recs (map ToKVRecord ws)) ts (mv_NewAddress ks x) = view_get recs ts (mv_NewAddress ks x)"
    if "a \<in> set (t_Actions t)" "a_Payload a = Action_Read ks x" for a ks x
    by (rule view_get_stable_key [OF assms(1)])
      (use k [OF _ that(1)] that(2) in \<open>auto simp: action_touches_def mv_NewAddress_def ToKVRecord_def kv_NewAddress_def e\<close>)
  moreover have "view_range (put_records recs (map ToKVRecord ws)) ts (mv_NewAddress ks x) (mv_NewAddress ks y) =
      view_range recs ts (mv_NewAddress ks x) (mv_NewAddress ks y)"
    if "a \<in> set (t_Actions t)" "a_Payload a = Action_ReadRange ks x y n" for a ks x y n
    by (rule view_range_stable_key [OF assms(1)])
      (use k [OF _ that(1)] that(2) in \<open>auto simp: action_touches_def key_in_range_def mv_NewAddress_def ToKVRecord_def kv_NewAddress_def e\<close>)
  ultimately show ?thesis by (auto simp: same_view_def split: action_payload.splits)
qed

text \<open>Batches as the log delivers them, each with the time and the index it is applied at.\<close>

fun run_batches :: "((int \<times> int) \<times> u64 \<times> txn_batch) list \<Rightarrow> 'db manager \<Rightarrow> 'db manager option" where
  "run_batches [] m = Some m"
| "run_batches ((now, index, b) # bs) m = do {
     (_, m') \<leftarrow> ApplyBatch now index b m;
     run_batches bs m'
   }"

context mvcc_db
begin

lemma run_batches_shielded:
  assumes "store_is ops contents inv m recs" "shielded S t m" "\<forall>(_, _, b) \<in> set bs. batch_ok S b"
    and "run_batches bs m = Some m'"
  shows "\<exists>recs'. store_is ops contents inv m' recs' \<and> shielded S t m' \<and>
    (\<forall>ts. ts \<noteq> 0 \<longrightarrow> ts \<le> S \<longrightarrow> same_view ts (t_Actions t) recs recs')"
  using assms
proof (induction bs arbitrary: m recs)
  case (Cons x bs)
  obtain now index b where x: "x = (now, index, b)" by (cases x)
  obtain r m1 where m1: "ApplyBatch now index b m = Some (r, m1)" "run_batches bs m1 = Some m'"
    using Cons.prems(4) x by (auto split: bind_splits)
  have "batch_ok S b" using Cons.prems(3) x by simp
  from ApplyBatch_shielded [OF Cons.prems(1,2) this m1(1)] obtain ws where
    ws: "store_is ops contents inv m1 (put_records recs (map ToKVRecord ws))" "shielded S t m1" "\<forall>w \<in> set ws. unseen S t w"
    by blast
  have "recs_sorted recs" using contents_ok Cons.prems(1) by (auto simp: store_is_def)
  note v = unseen_same_view [OF this ws(3)]
  have "\<forall>(_, _, b) \<in> set bs. batch_ok S b" using Cons.prems(3) by simp
  from Cons.IH [OF ws(1,2) this m1(2)] v show ?case using same_view_trans by blast
qed auto

end

section \<open>The safe timestamp shields\<close>

lemma max_u64_pos [simp]: "0 < max_u64"
  by (simp add: word_gt_0)

text \<open>
  The manager's clock readings are positive and below the largest value, which
  \<^verbatim>\<open>safeTimestampForLocks\<close> uses for "no conflict".
\<close>

definition stamp_ok :: "u64 \<Rightarrow> bool" where
  "stamp_ok ts \<longleftrightarrow> 0 < ts \<and> ts < max_u64"

definition stamped :: "'db manager \<Rightarrow> bool" where
  "stamped m \<longleftrightarrow> gomap_wf (m_prepared m) \<and> (\<forall>i p. mget (m_prepared m) i = Some p \<longrightarrow> txn_ok (pr_Txn p) \<and> stamp_ok (pr_Timestamp p))"

lemma safeTimestampForLock_bound:
  assumes "safeTimestampForLock status ps l r = Some x"
  shows "x \<le> r \<and> (\<forall>(i, p) \<in> set ps. \<not> pr_LocksReleased p \<longrightarrow> (\<exists>s. mget status i = Some s \<and>
    (IsFinal (ts_State s) \<or> (\<forall>k \<in> set (pr_Locks p). CompatibleWith l k) \<or> x \<le> pr_Timestamp p)))"
  using assms
  by (induction status ps l r rule: safeTimestampForLock.induct)
    (force split: if_splits bind_splits simp: list_ex_iff)+

lemma safeTimestampForLock_pos:
  assumes "safeTimestampForLock status ps l r = Some x" "0 < r" "\<forall>(i, p) \<in> set ps. 0 < pr_Timestamp p"
  shows "0 < x"
  using assms
  by (induction status ps l r rule: safeTimestampForLock.induct) (auto split: if_splits bind_splits)

lemma conflictingTimestamp_bound:
  assumes "conflictingTimestamp m ls c = Some x"
  shows "x \<le> c \<and> (\<forall>l \<in> set ls. \<forall>(i, p) \<in> set (m_prepared m). \<not> pr_LocksReleased p \<longrightarrow> (\<exists>s. mget (m_status m) i = Some s \<and>
    (IsFinal (ts_State s) \<or> (\<forall>k \<in> set (pr_Locks p). CompatibleWith l k) \<or> x \<le> pr_Timestamp p)))"
  using assms
proof (induction ls arbitrary: c)
  case (Cons l ls)
  obtain y where y: "safeTimestampForLock (m_status m) (m_prepared m) l max_u64 = Some y"
    "conflictingTimestamp m ls (min c y) = Some x"
    using Cons.prems by (auto split: bind_splits)
  have "x \<le> min c y" using Cons.IH [OF y(2)] by blast
  then have "x \<le> c" "x \<le> y" by simp_all
  then show ?case using Cons.IH [OF y(2)] safeTimestampForLock_bound [OF y(1)] by (fastforce intro: order_trans)
qed simp

lemma conflictingTimestamp_pos:
  assumes "conflictingTimestamp m ls c = Some x" "0 < c" "\<forall>(i, p) \<in> set (m_prepared m). 0 < pr_Timestamp p"
  shows "0 < x"
  using assms
proof (induction ls arbitrary: c)
  case (Cons l ls)
  then obtain y where y: "safeTimestampForLock (m_status m) (m_prepared m) l max_u64 = Some y"
    "conflictingTimestamp m ls (min c y) = Some x" by (auto split: bind_splits)
  have "0 < y" by (rule safeTimestampForLock_pos [OF y(1)]) (use Cons.prems(3) in auto)
  then show ?case using Cons.IH [OF y(2)] Cons.prems by simp
qed simp

lemma getSafeTimestamp_le: "getSafeTimestamp m t = Some (S, c) \<Longrightarrow> S \<le> m_maxTimestamp m"
  by (auto simp: getSafeTimestamp_def safeTimestampForLocks_def split: bind_splits if_splits)

lemma getSafeTimestamp_below:
  assumes "getSafeTimestamp m t = Some (S, c)" "\<forall>(i, p) \<in> set (m_prepared m). 0 < pr_Timestamp p"
    and "(i, p) \<in> set (m_prepared m)" "\<not> pr_LocksReleased p" "mget (m_status m) i = Some s" "\<not> IsFinal (ts_State s)"
    and "l \<in> set (BuildLocks t)" "k \<in> set (pr_Locks p)" "\<not> CompatibleWith l k" "pr_Timestamp p < max_u64"
  shows "S < pr_Timestamp p"
proof -
  obtain x where x: "conflictingTimestamp m (BuildLocks t) max_u64 = Some x"
    "x = max_u64 \<or> S = min (m_maxTimestamp m) (x - 1)"
    using assms(1) by (auto simp: getSafeTimestamp_def safeTimestampForLocks_def split: bind_splits if_splits)
  have b: "x \<le> pr_Timestamp p"
    using conflictingTimestamp_bound [OF x(1), THEN conjunct2, THEN bspec, OF assms(7), THEN bspec, OF assms(3)] assms(4-6,8,9)
    by auto
  have "0 < x" by (rule conflictingTimestamp_pos [OF x(1) _ assms(2)]) simp
  then have "x - 1 < x" by (simp add: word_less_nat_alt unat_sub_if')
  moreover have "x \<noteq> max_u64" using b assms(10) by auto
  ultimately have "S < x" using x(2) by (auto simp: min_less_iff_disj)
  then show ?thesis using b by (rule less_le_trans)
qed

lemma getSafeTimestamp_shielded:
  assumes "reachable m" "stamped m" "getSafeTimestamp m t = Some (S, c)"
  shows "shielded S t m"
proof -
  note d = txns_okD [OF reachable_ok [OF assms(1)]]
  have pos: "\<forall>(i, p) \<in> set (m_prepared m). 0 < pr_Timestamp p"
    using assms(2) gomap_mem_iff [OF d(2)] by (auto simp: stamped_def stamp_ok_def)
  have "entry_safe S t s p" if p: "mget (m_prepared m) i = Some p" and s: "mget (m_status m) i = Some s" for i p s
  proof (cases "compatible_txns t (pr_Txn p) \<or> (ts_State s \<noteq> Prepared \<and> ts_State s \<noteq> Decided)")
    case True
    then show ?thesis using entry_safe_other by (auto simp: entry_safe_def split: txn_state.splits)
  next
    case False
    have e: "entry_ok {} i p s" using txns_ok_entry [OF reachable_ok [OF assms(1)] s p] .
    have f: "\<not> pr_LocksReleased p" "pr_Locks p = BuildLocks (pr_Txn p)" "\<not> IsFinal (ts_State s)"
      using False e by (auto simp: entry_ok_def IsFinal_def split: txn_state.splits)
    obtain l k where lk: "l \<in> set (BuildLocks t)" "k \<in> set (BuildLocks (pr_Txn p))" "\<not> CompatibleWith l k"
      using False by (auto simp: compatible_txns_def)
    have "S < pr_Timestamp p"
      by (rule getSafeTimestamp_below [OF assms(3) pos _ f(1) s f(3) lk(1) _ lk(3)])
        (use p gomap_mem_iff [OF d(2)] f(2) lk(2) assms(2) in \<open>auto simp: stamped_def stamp_ok_def\<close>)
    then show ?thesis using e False by (auto simp: entry_safe_def entry_ok_def intro: less_le_trans)
  qed
  moreover have "txn_ok (pr_Txn p)" if "mget (m_prepared m) i = Some p" for i p
    using assms(2) that by (auto simp: stamped_def)
  ultimately show ?thesis using d(1,2) unfolding shielded_def by blast
qed

section \<open>Stamps of prepared transactions\<close>

definition batch_stamped :: "txn_batch \<Rightarrow> bool" where
  "batch_stamped b \<longleftrightarrow> batch_ok 0 b \<and> (\<forall>c \<in> set (b_Prepare b). pp_Timestamp c < max_u64)"

lemma stamped_keep:
  assumes "stamped m" "gomap_wf (m_prepared m')" "\<And>i p. mget (m_prepared m') i = Some p \<Longrightarrow>
    \<exists>q. mget (m_prepared m) i = Some q \<and> pr_Txn q = pr_Txn p \<and> pr_Timestamp q = pr_Timestamp p"
  shows "stamped m'"
  unfolding stamped_def
proof (intro conjI allI)
  show "gomap_wf (m_prepared m')" by (rule assms(2))
  show "mget (m_prepared m') i = Some p \<longrightarrow> txn_ok (pr_Txn p) \<and> stamp_ok (pr_Timestamp p)" for i p
  proof
    assume "mget (m_prepared m') i = Some p"
    with assms(3) obtain q where "mget (m_prepared m) i = Some q" "pr_Txn q = pr_Txn p" "pr_Timestamp q = pr_Timestamp p"
      by blast
    then show "txn_ok (pr_Txn p) \<and> stamp_ok (pr_Timestamp p)" using assms(1) unfolding stamped_def by metis
  qed
qed

lemma releaseLocks_stamped [simp]: "stamped m \<Longrightarrow> stamped (releaseLocks i m)"
  by (auto simp: stamped_def releaseLocks_def split: option.splits)

lemma set_status_stamped [simp]: "stamped (set_status i s m) = stamped m"
  by (simp add: stamped_def set_status_def)

lemma stamped_meters [simp]:
  "stamped (add_tracked n m) = stamped m" "stamped (add_running n m) = stamped m" "stamped (add_locks_held n m) = stamped m"
  "stamped (add_timedout n m) = stamped m"
  "stamped (m\<lparr>m_maxTimestamp := x\<rparr>) = stamped m"
  by (simp_all add: stamped_def add_tracked_def add_running_def add_locks_held_def add_timedout_def)

lemma applyAbort_stamped: "applyAbort c m = (r, m') \<Longrightarrow> stamped m \<Longrightarrow> stamped m'"
  by (auto simp: applyAbort_def Let_def split: option.splits txn_state.splits)

lemma applyMarkTimedout_stamped: "applyMarkTimedout c m = (r, m') \<Longrightarrow> stamped m \<Longrightarrow> stamped m'"
  by (auto simp: applyMarkTimedout_def Let_def split: option.splits txn_state.splits if_splits)

lemma applyCommit_stamped: "applyCommit c m = Some (r, m') \<Longrightarrow> stamped m \<Longrightarrow> stamped m'"
  by (auto simp: applyCommit_def commit_prepared_def Let_def split: option.splits txn_state.splits if_splits bind_splits)

lemma applyStoreDecision_stamped: "applyStoreDecision c m = Some (r, m') \<Longrightarrow> stamped m \<Longrightarrow> stamped m'"
  by (rule stamped_keep [of m])
    (auto simp: stamped_def applyStoreDecision_def set_prepared_def set_status_def Let_def
      split: option.splits txn_state.splits if_splits bind_splits)

lemma applyAutocommit_stamped: "applyAutocommit c m = Some (r, m') \<Longrightarrow> stamped m \<Longrightarrow> stamped m'"
  using applyAutocommit_effect [of c m r m'] by (auto simp: stamped_def same_txns_def)

lemma applyPrepare_stamped:
  "applyPrepare c m = Some (r, m') \<Longrightarrow> stamped m \<Longrightarrow> txn_ok (pp_Txn c) \<Longrightarrow> stamp_ok (pp_Timestamp c) \<Longrightarrow> stamped m'"
  using applyPrepare_effect [of c m r m'] by (auto simp: stamped_def same_txns_def new_prepared_def split: if_splits)

lemma fold_completion_stamped [simp]: "stamped m \<Longrightarrow> stamped (fold run_completion cs m)"
proof (induction cs arbitrary: m)
  case (Cons c cs)
  then show ?case by (cases c) (simp_all add: run_completion_def)
qed simp

lemma cleanup_stamped: "stamped m \<Longrightarrow> stamped (cleanup now m)"
  by (auto simp: stamped_def cleanup_def Let_def mget_filter_Some)

lemma ApplyBatch_stamped:
  assumes st: "stamped m" and b: "batch_stamped b" and ap: "ApplyBatch now index b m = Some (res, m')"
  shows "stamped m'"
proof -
  obtain ra m1 rt m2 rc m3 ru m4 rp m5 rd m6 m7 where st:
    "each (\<lambda>c m. Some (applyAbort c m)) (b_Abort b) m = Some (ra, m1)"
    "each (\<lambda>c m. Some (applyMarkTimedout c m)) (b_MarkTimedout b) m1 = Some (rt, m2)"
    "each applyCommit (b_Commit b) m2 = Some (rc, m3)"
    "each applyAutocommit (b_Autocommit b) m3 = Some (ru, m4)"
    "each applyPrepare (b_Prepare b) m4 = Some (rp, m5)"
    "each applyStoreDecision (b_StoreDecision b) m5 = Some (rd, m6)"
    "db_Put index (concat (map res_writes rc) @ concat (map res_writes ru)) m6 = Some m7"
    "m' = cleanup now ((fold run_completion (concat (map res_completion rc) @ concat (map res_completion ru)) m7)
            \<lparr>m_maxTimestamp := b_MaxTimestamp b\<rparr>)"
    by (rule ApplyBatch_stages [OF ap]) blast
  have p1: "stamped m1" using each_inv [OF st(1), of stamped "\<lambda>_. True"] applyAbort_stamped assms(1) by auto
  have p2: "stamped m2" using each_inv [OF st(2), of stamped "\<lambda>_. True"] applyMarkTimedout_stamped p1 by auto
  have p3: "stamped m3" using each_inv [OF st(3), of stamped "\<lambda>_. True"] applyCommit_stamped p2 by blast
  have p4: "stamped m4" using each_inv [OF st(4), of stamped "\<lambda>_. True"] applyAutocommit_stamped p3 by blast
  have "txn_ok (pp_Txn c) \<and> stamp_ok (pp_Timestamp c)" if "c \<in> set (b_Prepare b)" for c
    using b that by (simp add: batch_stamped_def batch_ok_def stamp_ok_def)
  then have p5: "stamped m5" using each_inv [OF st(5), of stamped "\<lambda>_. True"] applyPrepare_stamped p4 by blast
  have p6: "stamped m6" using each_inv [OF st(6), of stamped "\<lambda>_. True"] applyStoreDecision_stamped p5 by blast
  have "stamped m7" using p6 db_Put_same [OF st(7)] by (simp add: same_txns_def stamped_def)
  then show ?thesis unfolding st(8) by (intro cleanup_stamped) simp
qed

section \<open>Runs from a new manager\<close>

lemma run_batches_inv:
  assumes "run_batches bs m = Some m'" "P m"
    and "\<And>now index b m r m'. (now, index, b) \<in> set bs \<Longrightarrow> P m \<Longrightarrow> ApplyBatch now index b m = Some (r, m') \<Longrightarrow> P m'"
  shows "P m'"
  using assms
proof (induction bs arbitrary: m)
  case (Cons x bs)
  obtain now index b where x: "x = (now, index, b)" by (cases x)
  obtain r m1 where m1: "ApplyBatch now index b m = Some (r, m1)" "run_batches bs m1 = Some m'"
    using Cons.prems(1) x by (auto split: bind_splits)
  have "P m1" by (rule Cons.prems(3) [OF _ Cons.prems(2) m1(1)]) (simp add: x)
  then show ?case
    by (rule Cons.IH [OF m1(2)]) (rule Cons.prems(3), simp_all)
qed simp

lemma run_batches_stamped:
  assumes "run_batches bs m = Some m'" "stamped m" "\<forall>(_, _, b) \<in> set bs. batch_stamped b"
  shows "stamped m'"
proof (rule run_batches_inv [where P = stamped, OF assms(1,2)])
  fix now index b m r m'
  assume a: "(now, index, b) \<in> set bs" "stamped m" "ApplyBatch now index b m = Some (r, m')"
  then show "stamped m'" using ApplyBatch_stamped [OF a(2) _ a(3)] assms(3) by auto
qed

lemma run_batches_reachable: "run_batches bs m = Some m' \<Longrightarrow> reachable m \<Longrightarrow> reachable m'"
  by (erule run_batches_inv) (auto intro: reachable.Batch)

lemma NewManager_start:
  "stamped (NewManager pid ops k store marshal cleanAfter)" "shielded S t (NewManager pid ops k store marshal cleanAfter)"
  "store_is ops contents I (NewManager pid ops k store marshal cleanAfter) recs \<longleftrightarrow> I store \<and> contents store pid = Some recs"
  by (auto simp: NewManager_def stamped_def shielded_def store_is_def)

lemma snapshot_repeatable:
  assumes db: "mvcc_db ops contents I" "I store" "contents store pid = Some recs"
    and before: "run_batches bs (NewManager pid ops k store marshal cleanAfter) = Some m"
      "\<forall>(_, _, b) \<in> set bs. batch_stamped b"
    and t: "txn_ok t" "getSafeTimestamp m t = Some (safe, conflicting)" "0 < ts" "ts \<le> safe"
    and after: "run_batches cs m = Some m'" "\<forall>(_, _, b) \<in> set cs. batch_ok (m_maxTimestamp m) b"
    and reads: "fetchResults p t (newEmptyStatus t ts Committed) m = Some (Inr s, m1)"
      "fetchResults p t (newEmptyStatus t ts Committed) m' = Some (Inr s', m2)"
  shows "s' = s"
proof -
  have ok: "\<forall>(_, _, b) \<in> set bs. batch_ok 0 b" using before(2) by (auto simp: batch_stamped_def)
  obtain recs1 where m: "store_is ops contents I m recs1"
    using mvcc_db.run_batches_shielded [OF db(1) NewManager_start(3) [THEN iffD2] NewManager_start(2) ok before(1)] db(2,3)
    by blast
  have "shielded safe t m"
    by (rule getSafeTimestamp_shielded [OF run_batches_reachable [OF before(1) reachable.New]
          run_batches_stamped [OF before(1) NewManager_start(1) before(2)] t(2)])
  moreover have "batch_ok safe b" if "batch_ok (m_maxTimestamp m) b" for b
    using that getSafeTimestamp_le [OF t(2)] by (auto simp: batch_ok_def intro: le_less_trans)
  then have "\<forall>(_, _, b) \<in> set cs. batch_ok safe b" using after(2) by auto
  ultimately obtain recs2 where m': "store_is ops contents I m' recs2" "same_view ts (t_Actions t) recs1 recs2"
    using mvcc_db.run_batches_shielded [OF db(1) m _ _ after(1), of safe t] t(3,4) by (auto simp: word_gt_0)
  show ?thesis
    by (rule mvcc_db.fetchResults_view [OF db(1) m m'(1) t(1) _ reads]) (simp add: newEmptyStatus_def m'(2))
qed

section \<open>Properties\<close>

text \<open>
  C1: a snapshot read is repeatable. Take a manager that applied any batches from its start, and a
  valid transaction that reads at a timestamp which is not above its safe timestamp. Whatever batches
  with later autocommit and prepare timestamps are applied afterwards, commits of transactions
  prepared before included, reading again at the same timestamp gives the same results, point reads
  and range reads alike. The multi-version store is any one that keeps the laws of \<open>mvcc_db\<close>.
\<close>

theorem snapshot_reads_repeatable:
  assumes "mvcc_db ops contents I" "I store" "contents store pid = Some recs"
    and "run_batches bs (NewManager pid ops k store marshal cleanAfter) = Some m"
    and "\<forall>(_, _, b) \<in> set bs. batch_stamped b"
    and "Txn_Validate (Some t) = None" "getSafeTimestamp m t = Some (safe, conflicting)" "0 < ts" "ts \<le> safe"
    and "run_batches cs m = Some m'" "\<forall>(_, _, b) \<in> set cs. batch_ok (m_maxTimestamp m) b"
    and "fetchResults p t (newEmptyStatus t ts Committed) m = Some (Inr s, m1)"
    and "fetchResults p t (newEmptyStatus t ts Committed) m' = Some (Inr s', m2)"
  shows "s' = s"
  by (rule snapshot_repeatable [OF assms(1-5) Txn_Validate_ok [OF assms(6)] assms(7-)])

definition snap_read :: txn where
  "snap_read = \<lparr>t_Id = demo_id 9, t_Actions = [\<lparr>a_Id = 1, a_Payload = Action_Read 16 [1]\<rparr>,
     \<lparr>a_Id = 2, a_Payload = Action_ReadRange 16 [1] [2] 10\<rparr>], t_ParticipantPids = [7]\<rparr>"

definition snap_reader :: reader where
  "snap_reader = newReader 100 False 1000 (\<lambda>b. Inr (Value_Bytes b))"

definition snap_new :: "(ref_db, nat) rocksdb manager" where
  "snap_new = NewManager 7 (rocksMVCC_ops ref_ops) 3 demo_rocks0 demo_marshal 1000"

text \<open>First a write to the key, then another one and the commit of another transaction.\<close>

definition snap_batch1 :: txn_batch where
  "snap_batch1 = (empty_batch 2)\<lparr>b_Autocommit := [\<lparr>ac_Txn = demo_txn 1 1, ac_Timestamp = 1\<rparr>],
     b_Prepare := [\<lparr>pp_Txn = demo_txn 2 2, pp_Timestamp = 2\<rparr>]\<rparr>"

definition snap_batch2 :: txn_batch where
  "snap_batch2 = (empty_batch 3)\<lparr>b_Autocommit := [\<lparr>ac_Txn = demo_txn 3 1, ac_Timestamp = 3\<rparr>],
     b_Commit := [\<lparr>c_Id = demo_id 2, c_Timestamp = 2\<rparr>]\<rparr>"

definition snap_before :: "((int \<times> int) \<times> u64 \<times> txn_batch) list" where
  "snap_before = [((0, 1000), 1, snap_batch1)]"

definition snap_after :: "((int \<times> int) \<times> u64 \<times> txn_batch) list" where
  "snap_after = [((0, 1000), 2, snap_batch2)]"

definition snap_m :: "(ref_db, nat) rocksdb manager" where
  "snap_m = the (run_batches snap_before snap_new)"

definition snap_m' :: "(ref_db, nat) rocksdb manager" where
  "snap_m' = the (run_batches snap_after snap_m)"

definition snap_status :: "(ref_db, nat) rocksdb manager \<Rightarrow> ((err + txn_status) \<times> (ref_db, nat) rocksdb manager) option" where
  "snap_status m = fetchResults snap_reader snap_read (newEmptyStatus snap_read 2 Committed) m"

lemma snap_runs:
  "run_batches snap_before snap_new \<noteq> None" "run_batches snap_after snap_m \<noteq> None"
  "getSafeTimestamp snap_m snap_read = Some (2, False)"
  by code_simp+

lemma snap_fetch:
  "\<exists>s m. snap_status snap_m = Some (Inr s, m)" "\<exists>s m. snap_status snap_m' = Some (Inr s, m)"
proof -
  have "(case snap_status snap_m of Some (Inr s, _) \<Rightarrow> True | _ \<Rightarrow> False)" by code_simp
  then show "\<exists>s m. snap_status snap_m = Some (Inr s, m)" by (auto split: option.splits sum.splits)
  have "(case snap_status snap_m' of Some (Inr s, _) \<Rightarrow> True | _ \<Rightarrow> False)" by code_simp
  then show "\<exists>s m. snap_status snap_m' = Some (Inr s, m)" by (auto split: option.splits sum.splits)
qed

lemma snap_valid:
  "Txn_Validate (Some snap_read) = None" "\<forall>(_, _, b) \<in> set snap_before. batch_stamped b"
  "m_maxTimestamp snap_m = 2" "\<forall>(_, _, b) \<in> set snap_after. batch_ok 2 b"
proof -
  show "Txn_Validate (Some snap_read) = None" "m_maxTimestamp snap_m = 2" by code_simp+
  have t: "txn_ok (demo_txn n k)" for n k
    by (simp add: demo_txn_def txn_ok_def action_ok_def user_key_def FirstUserKeyspace_def)
  show "\<forall>(_, _, b) \<in> set snap_before. batch_stamped b"
    by (simp add: snap_before_def snap_batch1_def batch_stamped_def batch_ok_def empty_batch_def t)
  show "\<forall>(_, _, b) \<in> set snap_after. batch_ok 2 b"
    by (simp add: snap_after_def snap_batch2_def batch_ok_def empty_batch_def t)
qed

theorem snapshot_reads_repeatable_witness:
  "\<exists>s m1 m2. snap_status snap_m = Some (Inr s, m1) \<and> snap_status snap_m' = Some (Inr s, m2)"
proof -
  obtain s m1 s' m2 where f: "snap_status snap_m = Some (Inr s, m1)" "snap_status snap_m' = Some (Inr s', m2)"
    using snap_fetch by blast
  have r: "run_batches snap_before snap_new = Some snap_m" "run_batches snap_after snap_m = Some snap_m'"
    using snap_runs(1,2) by (auto simp: snap_m_def snap_m'_def)
  have a: "\<forall>(_, _, b) \<in> set snap_after. batch_ok (m_maxTimestamp snap_m) b" using snap_valid(4) by (simp add: snap_valid(3))
  from snapshot_reads_repeatable [OF refdb.rocks.mvcc_db_axioms demo_rocks0_ok r(1) [unfolded snap_new_def] snap_valid(2,1)
      snap_runs(3) _ _ r(2) a f [unfolded snap_status_def]]
  have "s' = s" by simp
  with f show ?thesis by blast
qed

end
