(* ===== verification/Txn_Leader.thy ===== *)
theory Txn_Leader
  imports Txn_Snapshot
begin

text \<open>
  The leader of a partition: its writer, its manager and its reader together. The stamps of the
  writer give the order of timestamps that repeatable reads need, so nothing is assumed of them.
\<close>

section \<open>Batches that a writer sent\<close>

lemma run_batches_maxTimestamp:
  assumes "run_batches bs m = Some m'" "reachable m" "bs \<noteq> []"
  shows "m_maxTimestamp m' = b_MaxTimestamp (snd (snd (last bs)))"
  using assms
proof (induction bs arbitrary: m)
  case (Cons x bs)
  obtain now index b where x: "x = (now, index, b)" by (cases x)
  obtain r m1 where m1: "ApplyBatch now index b m = Some (r, m1)" "run_batches bs m1 = Some m'"
    using Cons.prems(1) x by (auto split: bind_splits)
  have "m_maxTimestamp m1 = b_MaxTimestamp b"
    using ApplyBatch_msteps(2) [OF reachable_ok [OF Cons.prems(2)] m1(1)] by (simp add: frame_def)
  then show ?case
    using Cons.IH [OF m1(2) reachable.Batch [OF Cons.prems(2) m1(1)]] m1(2) x by (cases bs) auto
qed simp

definition valid_batch :: "txn_batch \<Rightarrow> bool" where
  "valid_batch b \<longleftrightarrow> list_all (\<lambda>c. Txn_Validate (Some (ac_Txn c)) = None) (b_Autocommit b) \<and>
     list_all (\<lambda>c. Txn_Validate (Some (pp_Txn c)) = None) (b_Prepare b)"

lemma valid_batch_ok: "valid_batch b \<Longrightarrow> \<forall>t \<in> set (stamps b). S < t \<Longrightarrow> batch_ok S b"
  using Txn_Validate_ok by (auto simp: valid_batch_def batch_ok_def stamps_def list_all_iff)

lemma writer_inv_sent:
  "writer_inv chs outs s \<Longrightarrow> (b, x) \<in> set outs \<Longrightarrow>
    (\<forall>t \<in> set (stamps b). 0 < t \<and> t \<le> b_MaxTimestamp b) \<and> b_MaxTimestamp b \<le> hlc_val (snd (wr_clock s))"
  unfolding writer_inv_def by blast

lemma sent_batches_ok:
  assumes "writer_trace clks n chs (outs @ outs') w" "\<forall>(b, _) \<in> set (outs @ outs'). valid_batch b"
    and "hlc_val (snd (wr_clock w)) < max_u64"
  shows "\<forall>(b, _) \<in> set outs. batch_stamped b"
    and "(b, x) \<in> set outs \<Longrightarrow> \<forall>(c, _) \<in> set outs'. batch_ok (b_MaxTimestamp b) c"
proof -
  note inv = writer_trace_inv [OF assms(1)]
  have "batch_stamped b" if "(b, x) \<in> set outs" for b x
  proof -
    have st: "\<forall>t \<in> set (stamps b). 0 < t \<and> t \<le> b_MaxTimestamp b" "b_MaxTimestamp b \<le> hlc_val (snd (wr_clock w))"
      using writer_inv_sent [OF inv] that by auto
    have v: "valid_batch b" using that assms(2) by auto
    have "pp_Timestamp c < max_u64" if "c \<in> set (b_Prepare b)" for c
    proof -
      have "pp_Timestamp c \<in> set (stamps b)" using that by (simp add: stamps_def)
      then have "pp_Timestamp c \<le> hlc_val (snd (wr_clock w))" using st order_trans by blast
      then show ?thesis using assms(3) by (rule le_less_trans)
    qed
    then have "\<forall>c \<in> set (b_Prepare b). pp_Timestamp c < max_u64" by blast
    with valid_batch_ok [OF v] st(1) show ?thesis by (simp add: batch_stamped_def)
  qed
  then show "\<forall>(b, _) \<in> set outs. batch_stamped b" by auto
  assume b: "(b, x) \<in> set outs"
  show "\<forall>(c, _) \<in> set outs'. batch_ok (b_MaxTimestamp b) c"
  proof clarify
    fix c y assume c: "(c, y) \<in> set outs'"
    have "\<forall>t \<in> set (stamps c). b_MaxTimestamp b < t"
      using inv b c by (fastforce simp: writer_inv_def sorted_wrt_append)
    moreover have "valid_batch c" using assms(2) c by auto
    ultimately show "batch_ok (b_MaxTimestamp b) c" by (intro valid_batch_ok)
  qed
qed

section \<open>Properties\<close>

text \<open>
  C2: what the leader of a partition promises to its readers. Let the manager apply, in order, the
  batches a writer sent, each transaction in them valid. A read at a timestamp within the safe
  timestamp after the first part of them gives the same results after the rest of them. No assumption
  on timestamps is needed besides that the clock has not run up to the largest value: the writer's
  stamps provide the order.
\<close>

theorem leader_reads_repeatable:
  assumes "mvcc_db ops contents I" "I store" "contents store pid = Some recs"
    and "writer_trace clks n chs (outs @ outs') w" "hlc_val (snd (wr_clock w)) < max_u64"
    and "\<forall>(b, _) \<in> set (outs @ outs'). valid_batch b"
    and "map (snd \<circ> snd) bs = map fst outs" "bs \<noteq> []" "map (snd \<circ> snd) cs = map fst outs'"
    and "run_batches bs (NewManager pid ops k store marshal cleanAfter) = Some m" "run_batches cs m = Some m'"
    and "Txn_Validate (Some t) = None" "getSafeTimestamp m t = Some (safe, conflicting)" "0 < ts" "ts \<le> safe"
    and "fetchResults p t (newEmptyStatus t ts Committed) m = Some (Inr s, m1)"
    and "fetchResults p t (newEmptyStatus t ts Committed) m' = Some (Inr s', m2)"
  shows "s' = s"
proof -
  have in_outs: "\<exists>x. (b, x) \<in> set outs" if "(now, i, b) \<in> set bs" for now i b
  proof -
    have "b \<in> set (map (snd \<circ> snd) bs)" using that by force
    then show ?thesis unfolding assms(7) by auto
  qed
  have in_outs': "\<exists>x. (b, x) \<in> set outs'" if "(now, i, b) \<in> set cs" for now i b
  proof -
    have "b \<in> set (map (snd \<circ> snd) cs)" using that by force
    then show ?thesis unfolding assms(9) by auto
  qed
  note sent = sent_batches_ok [OF assms(4,6,5)]
  have bs: "\<forall>(_, _, b) \<in> set bs. batch_stamped b" using sent(1) in_outs by fastforce
  obtain now i b where l: "last bs = (now, i, b)" by (cases "last bs")
  then have "(now, i, b) \<in> set bs" using assms(8) last_in_set by metis
  then obtain x where x: "(b, x) \<in> set outs" using in_outs by blast
  have "m_maxTimestamp m = b_MaxTimestamp b"
    using run_batches_maxTimestamp [OF assms(10) reachable.New assms(8)] l by simp
  with sent(2) [OF x] in_outs' have cs: "\<forall>(_, _, b) \<in> set cs. batch_ok (m_maxTimestamp m) b" by fastforce
  show ?thesis
    by (rule snapshot_repeatable [OF assms(1-3,10) bs Txn_Validate_ok [OF assms(12)] assms(13-15,11) cs assms(16,17)])
qed

text \<open>
  The run of the witness: a writer with a batch size of two sends two batches, one with a write to
  the key and a prepared transaction, one with the commit of the latter and another write to the key.
\<close>

definition lead_clks :: "nat \<Rightarrow> nat \<Rightarrow> u64" where
  "lead_clks n i = 0"

definition lead_new :: writer where
  "lead_new = newWriter (0, hlc_new 0 10)"

definition lead_commands :: "(payload \<times> nat) list" where
  "lead_commands = [(P_Autocommit \<lparr>ac_Txn = demo_txn 1 1, ac_Timestamp = 0\<rparr>, 1),
     (P_Prepare \<lparr>pp_Txn = demo_txn 2 2, pp_Timestamp = 0\<rparr>, 2),
     (P_Autocommit \<lparr>ac_Txn = demo_txn 3 1, ac_Timestamp = 0\<rparr>, 3),
     (P_Commit \<lparr>c_Id = demo_id 2, c_Timestamp = 2\<rparr>, 4)]"

fun feed :: "(payload \<times> nat) list \<Rightarrow> writer \<Rightarrow> ((txn_batch \<times> batch_waiting) list \<times> writer) option" where
  "feed [] s = Some ([], s)"
| "feed ((x, ch) # xs) s = do {
     (out, s') \<leftarrow> writer_step lead_clks 2 (Ev_Command x ch) s;
     (outs, s'') \<leftarrow> (if payload_time x \<le> hlc_val (snd (wr_clock s)) then feed xs s' else None);
     Some (opt_list out @ outs, s'')
   }"

lemma feed_trace:
  "feed xs s = Some (outs, s') \<Longrightarrow> writer_trace lead_clks 2 chs outs0 s \<Longrightarrow>
    writer_trace lead_clks 2 (chs @ map snd xs) (outs0 @ outs) s'"
proof (induction xs arbitrary: s outs chs outs0)
  case (Cons c xs)
  obtain x ch where c: "c = (x, ch)" by (cases c)
  obtain out s1 outs1 where s1: "writer_step lead_clks 2 (Ev_Command x ch) s = Some (out, s1)"
    "payload_time x \<le> hlc_val (snd (wr_clock s))" "feed xs s1 = Some (outs1, s')" "outs = opt_list out @ outs1"
    using Cons.prems(1) c by (auto split: bind_splits if_splits)
  from Cons.IH [OF s1(3) writer_trace.Command [OF Cons.prems(2) s1(2,1)]] s1(4) c show ?case by simp
qed simp

lemma lead_feed:
  "(case feed lead_commands lead_new of Some (outs, s) \<Rightarrow> map fst outs = [snap_batch1, snap_batch2] \<and>
      hlc_val (snd (wr_clock s)) < max_u64 | None \<Rightarrow> False)"
  by code_simp

lemma lead_valid: "valid_batch snap_batch1" "valid_batch snap_batch2"
  by code_simp+

theorem leader_reads_repeatable_witness:
  "\<exists>outs w s m1 m2. writer_trace lead_clks 2 [1, 2, 3, 4] outs w \<and> map fst outs = [snap_batch1, snap_batch2] \<and>
    snap_status snap_m = Some (Inr s, m1) \<and> snap_status snap_m' = Some (Inr s, m2)"
proof -
  obtain s m1 s' m2 where f: "snap_status snap_m = Some (Inr s, m1)" "snap_status snap_m' = Some (Inr s', m2)"
    using snap_fetch by blast
  have r: "run_batches snap_before snap_new = Some snap_m" "run_batches snap_after snap_m = Some snap_m'"
    using snap_runs(1,2) by (auto simp: snap_m_def snap_m'_def)
  obtain o1 o2 w where w: "feed lead_commands lead_new = Some ([o1, o2], w)" "fst o1 = snap_batch1" "fst o2 = snap_batch2"
    "hlc_val (snd (wr_clock w)) < max_u64"
    using lead_feed by (auto split: option.splits simp: map_eq_Cons_conv)
  have "writer_trace lead_clks 2 [] [] lead_new" unfolding lead_new_def by (rule writer_trace.Start) simp
  from feed_trace [OF w(1) this] have tr: "writer_trace lead_clks 2 [1, 2, 3, 4] ([o1] @ [o2]) w"
    by (simp add: lead_commands_def)
  have v: "\<forall>(b, _) \<in> set ([o1] @ [o2]). valid_batch b" using w(2,3) lead_valid by (simp add: case_prod_beta)
  have "s' = s"
    by (rule leader_reads_repeatable [OF refdb.rocks.mvcc_db_axioms demo_rocks0_ok tr w(4) v _ _ _ r(1) [unfolded snap_new_def] r(2)
          snap_valid(1) snap_runs(3) _ _ f [unfolded snap_status_def]])
      (simp_all add: snap_before_def snap_after_def w(2,3))
  with f tr w(2,3) show ?thesis by (intro exI [of _ "[o1, o2]"] exI [of _ w]) simp
qed

end
