(* ===== verification/Watchdog_Props.thy ===== *)
theory Watchdog_Props
  imports Watchdog
begin

text \<open>
  What the watchdog hands to its resolvers. A pass over a queue takes exactly the entries that are
  old enough, hands out those that are still in the phase of the queue, each transaction once, and
  always ends. Over a run, only transactions that were running when the watchdog started are ever
  handed out, and those that had already timed out at that moment are not.
\<close>

section \<open>A pass over a queue\<close>

text \<open>What a pass over a list of old entries hands out, and what it leaves in the map.\<close>

fun hand_off :: "txn_state \<Rightarrow> running list \<Rightarrow> (txn_id, txn_state) gomap \<Rightarrow> running list \<times> (txn_id, txn_state) gomap" where
  "hand_off expected [] all = ([], all)"
| "hand_off expected (x # xs) all =
     (if mget all (ru_Id x) \<noteq> Some expected then hand_off expected xs all
      else case hand_off expected xs (mdel (ru_Id x) all) of (rs, all') \<Rightarrow> (x # rs, all'))"

definition old_entry :: "u64 \<Rightarrow> running \<Rightarrow> bool" where
  "old_entry oldest x \<longleftrightarrow> \<not> ru_Timestamp x > oldest"

declare check_loop.simps [simp del]

lemma loop_empty: "PeekFront q = Some None \<Longrightarrow> check_loop fuel oldest expected q all = Some ([], q, all)"
  by (subst check_loop.simps) simp

lemma loop_young:
  "PeekFront q = Some (Some x) \<Longrightarrow> ru_Timestamp x > oldest \<Longrightarrow> check_loop fuel oldest expected q all = Some ([], q, all)"
  by (subst check_loop.simps) simp

lemma loop_pop:
  "PeekFront q = Some (Some x) \<Longrightarrow> \<not> ru_Timestamp x > oldest \<Longrightarrow> PopFront q = Some (Some x, q1) \<Longrightarrow>
    check_loop fuel oldest expected q1 (if mget all (ru_Id x) \<noteq> Some expected then all else mdel (ru_Id x) all) =
      Some (rs, q2, all') \<Longrightarrow>
    check_loop (Suc fuel) oldest expected q all =
      Some (if mget all (ru_Id x) \<noteq> Some expected then rs else x # rs, q2, all')"
  by (subst check_loop.simps) (auto split: if_splits)

lemma check_loop_hand_off:
  assumes "queue_rel q xs" "length xs \<le> fuel"
  shows "\<exists>q'. check_loop fuel oldest expected q all =
      Some (fst (hand_off expected (takeWhile (old_entry oldest) xs) all), q',
            snd (hand_off expected (takeWhile (old_entry oldest) xs) all)) \<and>
    queue_rel q' (dropWhile (old_entry oldest) xs)"
  using assms
proof (induction fuel arbitrary: q xs all)
  case 0
  then show ?case using dq.rel_peekf [OF 0(1)] by (simp add: loop_empty)
next
  case (Suc fuel)
  show ?case
  proof (cases xs)
    case Nil
    then show ?thesis using dq.rel_peekf [OF Suc.prems(1)] Suc.prems(1) by (simp add: loop_empty)
  next
    case (Cons x ys)
    have peek: "PeekFront q = Some (Some x)" using dq.rel_peekf [OF Suc.prems(1)] Cons by simp
    show ?thesis
    proof (cases "ru_Timestamp x > oldest")
      case True
      then show ?thesis using loop_young [OF peek True] Suc.prems(1) Cons by (simp add: old_entry_def)
    next
      case False
      obtain q1 where q1: "PopFront q = Some (Some x, q1)" "queue_rel q1 ys"
        using dq.popf_Cons [OF Suc.prems(1) [unfolded Cons]] by (elim exE conjE)
      have len: "length ys \<le> fuel" using Suc.prems(2) Cons by simp
      let ?all = "if mget all (ru_Id x) \<noteq> Some expected then all else mdel (ru_Id x) all"
      obtain rs all' where h: "hand_off expected (takeWhile (old_entry oldest) ys) ?all = (rs, all')"
        by (rule prod.exhaust)
      obtain q2 where q2: "check_loop fuel oldest expected q1 ?all = Some (rs, q2, all')"
        "queue_rel q2 (dropWhile (old_entry oldest) ys)"
        using Suc.IH [OF q1(2) len, of ?all] unfolding h fst_conv snd_conv by (elim exE conjE)
      have old: "old_entry oldest x" using False by (simp add: old_entry_def)
      note c = loop_pop [OF peek False q1(1) q2(1)]
      have h': "hand_off expected (takeWhile (old_entry oldest) xs) all =
          (if mget all (ru_Id x) \<noteq> Some expected then rs else x # rs, all')"
        using h old Cons by (cases "mget all (ru_Id x) = Some expected") simp_all
      have d: "dropWhile (old_entry oldest) xs = dropWhile (old_entry oldest) ys" using old Cons by simp
      show ?thesis unfolding c h' d fst_conv snd_conv using q2(2) by (intro exI conjI) simp_all
    qed
  qed
qed

lemma queue_rel_fresh: "queue_rel q xs \<Longrightarrow> length xs \<le> q_fresh q"
proof (erule queue_relE)
  fix as :: "nat list"
  assume as: "distinct as" "\<forall>a \<in> set as. a < q_fresh q" "length as = length xs"
  have "card (set as) \<le> card {..< q_fresh q}" by (rule card_mono) (use as(2) in auto)
  then show ?thesis using as(1,3) by (simp add: distinct_card)
qed

lemma hand_off_props:
  assumes "hand_off expected xs all = (rs, all')"
  shows "set rs \<subseteq> set xs" "distinct (map ru_Id rs)"
    and "r \<in> set rs \<Longrightarrow> mget all (ru_Id r) = Some expected"
    and "mget all' i = (if i \<in> ru_Id ` set rs then None else mget all i)"
proof -
  have "set rs \<subseteq> set xs \<and> distinct (map ru_Id rs) \<and> (\<forall>r \<in> set rs. mget all (ru_Id r) = Some expected) \<and>
      (\<forall>i. mget all' i = (if i \<in> ru_Id ` set rs then None else mget all i))"
    using assms
  proof (induction xs arbitrary: all rs)
    case (Cons x xs)
    show ?case
    proof (cases "mget all (ru_Id x) = Some expected")
      case True
      obtain rs1 where rs1: "hand_off expected xs (mdel (ru_Id x) all) = (rs1, all')" "rs = x # rs1"
        using Cons.prems True by (auto split: prod.splits)
      note IH = Cons.IH [OF rs1(1)]
      have "ru_Id x \<notin> ru_Id ` set rs1" using IH by (auto split: if_splits)
      moreover have "mget all (ru_Id r) = Some expected" if "r \<in> set rs1" for r
        using IH that by (auto split: if_splits)
      ultimately show ?thesis using IH rs1(2) True by auto
    next
      case False
      then show ?thesis using Cons.IH [of all rs] Cons.prems by auto
    qed
  qed simp
  then show "set rs \<subseteq> set xs" "distinct (map ru_Id rs)"
    and "r \<in> set rs \<Longrightarrow> mget all (ru_Id r) = Some expected"
    and "mget all' i = (if i \<in> ru_Id ` set rs then None else mget all i)" by auto
qed

text \<open>Of the entries of each transaction the first one.\<close>

fun first_of_each :: "running list \<Rightarrow> running list" where
  "first_of_each [] = []"
| "first_of_each (x # xs) = x # filter (\<lambda>y. ru_Id y \<noteq> ru_Id x) (first_of_each xs)"

lemma first_of_each_filter:
  "filter (\<lambda>y. ru_Id y \<noteq> i) (first_of_each xs) = first_of_each (filter (\<lambda>y. ru_Id y \<noteq> i) xs)"
proof (induction xs)
  case (Cons x xs)
  have "filter (\<lambda>y. ru_Id y \<noteq> ru_Id x) (first_of_each (filter (\<lambda>y. ru_Id y \<noteq> i) xs)) =
      filter (\<lambda>y. ru_Id y \<noteq> i \<and> ru_Id y \<noteq> ru_Id x) (first_of_each xs)"
    unfolding Cons.IH [symmetric] by (simp add: conj_commute)
  then show ?case using Cons.IH by (auto simp: conj_commute)
qed simp

lemma hand_off_exact:
  "fst (hand_off expected xs all) = first_of_each (filter (\<lambda>x. mget all (ru_Id x) = Some expected) xs)"
proof (induction xs arbitrary: all)
  case (Cons x xs)
  have "filter (\<lambda>y. mget (mdel (ru_Id x) all) (ru_Id y) = Some expected) xs =
      filter (\<lambda>y. ru_Id y \<noteq> ru_Id x) (filter (\<lambda>y. mget all (ru_Id y) = Some expected) xs)"
    by (auto intro!: filter_cong)
  then show ?case using Cons.IH [of all] Cons.IH [of "mdel (ru_Id x) all"]
    by (simp add: first_of_each_filter case_prod_unfold)
qed simp

section \<open>Runs\<close>

fun wd_run :: "int \<Rightarrow> int \<Rightarrow> wd_event list \<Rightarrow> watchdog \<Rightarrow> (wd_work list \<times> watchdog) option" where
  "wd_run t1 t2 [] w = Some ([], w)"
| "wd_run t1 t2 (e # es) w = do {
     (xs, w') \<leftarrow> watchdog_step t1 t2 e w;
     (ys, w'') \<leftarrow> wd_run t1 t2 es w';
     Some (xs @ ys, w'')
   }"

fun work_txn :: "wd_work \<Rightarrow> running" where
  "work_txn (Wd_Abort r) = r"
| "work_txn (Wd_Commit r) = r"

definition wd_wf :: "watchdog \<Rightarrow> bool" where
  "wd_wf w \<longleftrightarrow> (\<exists>ps ds. queue_rel (wd_prepared w) ps \<and> queue_rel (wd_decided w) ds)"

lemma checkTimedout_hand_off:
  assumes "queue_rel q xs"
  shows "\<exists>ys rs q' all'. checkTimedout now timeout expected q all = Some (rs, q', all') \<and>
    hand_off expected (takeWhile (old_entry (FromTime (time_Unix (fst now) (snd now - timeout)))) xs) all = (rs, all') \<and>
    queue_rel q' ys"
  using check_loop_hand_off [OF assms queue_rel_fresh [OF assms], of "FromTime (time_Unix (fst now) (snd now - timeout))" expected all]
  unfolding checkTimedout_def by (metis prod.collapse)

lemma watchdog_step_total:
  assumes "wd_wf w"
  shows "\<exists>xs w'. watchdog_step t1 t2 e w = Some (xs, w') \<and> wd_wf w'"
proof -
  obtain ps ds where q: "queue_rel (wd_prepared w) ps" "queue_rel (wd_decided w) ds"
    using assms by (auto simp: wd_wf_def)
  show ?thesis
  proof (cases e)
    case (Wd_Status s)
    obtain q1 where "PushBack s (wd_prepared w) = Some q1" "queue_rel q1 (ps @ [s])" using dq.rel_pushb [OF q(1)] by blast
    moreover obtain q2 where "PushBack s (wd_decided w) = Some q2" "queue_rel q2 (ds @ [s])" using dq.rel_pushb [OF q(2)] by blast
    ultimately show ?thesis
      using q Wd_Status by (cases "ru_State s") (auto simp: watchdog_step_def wd_wf_def)
  next
    case (Wd_Tick1 now)
    then show ?thesis
      using checkTimedout_hand_off [OF q(1), of now t1 Prepared "wd_all w"] q(2) by (auto simp: watchdog_step_def wd_wf_def)
  next
    case (Wd_Tick2 now)
    then show ?thesis
      using checkTimedout_hand_off [OF q(2), of now t2 Decided "wd_all w"] q(1) by (auto simp: watchdog_step_def wd_wf_def)
  next
    case Wd_Done
    then show ?thesis using assms by (simp add: watchdog_step_def wd_wf_def)
  qed
qed

text \<open>A transaction the watchdog does not know stays unknown, and is not handed out.\<close>

lemma watchdog_step_unknown:
  assumes "wd_wf w" "watchdog_step t1 t2 e w = Some (xs, w')" "mget (wd_all w) i = None"
  shows "mget (wd_all w') i = None \<and> i \<notin> (ru_Id \<circ> work_txn) ` set xs"
proof -
  obtain ps ds where q: "queue_rel (wd_prepared w) ps" "queue_rel (wd_decided w) ds"
    using assms(1) by (auto simp: wd_wf_def)
  show ?thesis
  proof (cases e)
    case (Wd_Status s)
    then show ?thesis using assms(2,3)
      by (cases "ru_State s") (auto simp: watchdog_step_def split: if_splits bind_splits)
  next
    case (Wd_Tick1 now)
    obtain rs q' all' ys where c: "checkTimedout now t1 Prepared (wd_prepared w) (wd_all w) = Some (rs, q', all')"
      "hand_off Prepared ys (wd_all w) = (rs, all')"
      using checkTimedout_hand_off [OF q(1), of now t1 Prepared "wd_all w"] by blast
    show ?thesis using hand_off_props(3,4) [OF c(2)] c(1) assms(2,3) Wd_Tick1
      by (fastforce simp: watchdog_step_def)
  next
    case (Wd_Tick2 now)
    obtain rs q' all' ys where c: "checkTimedout now t2 Decided (wd_decided w) (wd_all w) = Some (rs, q', all')"
      "hand_off Decided ys (wd_all w) = (rs, all')"
      using checkTimedout_hand_off [OF q(2), of now t2 Decided "wd_all w"] by blast
    show ?thesis using hand_off_props(3,4) [OF c(2)] c(1) assms(2,3) Wd_Tick2
      by (fastforce simp: watchdog_step_def)
  next
    case Wd_Done
    then show ?thesis using assms by (auto simp: watchdog_step_def)
  qed
qed

lemma wd_run_unknown:
  assumes "wd_wf w" "wd_run t1 t2 es w = Some (xs, w')" "mget (wd_all w) i = None"
  shows "i \<notin> (ru_Id \<circ> work_txn) ` set xs"
  using assms
proof (induction es arbitrary: w xs)
  case (Cons e es)
  obtain ys w1 zs where s: "watchdog_step t1 t2 e w = Some (ys, w1)" "wd_run t1 t2 es w1 = Some (zs, w')" "xs = ys @ zs"
    using Cons.prems(2) by (auto split: bind_splits)
  have "wd_wf w1" using watchdog_step_total [OF Cons.prems(1), of t1 t2 e] s(1) by auto
  then show ?case
    using Cons.IH [OF _ s(2)] watchdog_step_unknown [OF Cons.prems(1) s(1) Cons.prems(3)] s(3) by auto
qed simp

lemma wd_run_total: "wd_wf w \<Longrightarrow> \<exists>xs w'. wd_run t1 t2 es w = Some (xs, w')"
proof (induction es arbitrary: w)
  case (Cons e es)
  obtain ys w1 where s: "watchdog_step t1 t2 e w = Some (ys, w1)" "wd_wf w1"
    using watchdog_step_total [OF Cons.prems] by blast
  then show ?case using Cons.IH [OF s(2)] by auto
qed simp

section \<open>Starting\<close>

definition watched :: "txn_state \<Rightarrow> bool" where
  "watched s \<longleftrightarrow> s = Prepared \<or> s = Decided \<or> s = Timedout"

lemma load_loop_dom:
  "load_loop rs (all, ps, ds) = (all', ps', ds') \<Longrightarrow>
    mget all' i \<noteq> None \<longleftrightarrow> mget all i \<noteq> None \<or> (\<exists>r \<in> set rs. ru_Id r = i \<and> watched (ru_State r))"
proof (induction rs arbitrary: all ps ds)
  case (Cons r rs)
  then show ?case by (cases "ru_State r") (fastforce simp: watched_def)+
qed simp

lemma loadRunning_known:
  assumes "getRunning m = Some rs"
  shows "\<exists>w. loadRunning m = Some w \<and> wd_wf w \<and>
    (\<forall>i. mget (wd_all w) i \<noteq> None \<longleftrightarrow> (\<exists>r \<in> set rs. ru_Id r = i \<and> watched (ru_State r)))"
proof -
  obtain all ps ds where l: "load_loop rs ([], [], []) = (all, ps, ds)" by (cases "load_loop rs ([], [], [])")
  obtain p d where q: "NewQueue (sort_sort older ps) = Some p" "queue_rel p (sort_sort older ps)"
    "NewQueue (sort_sort older ds) = Some d" "queue_rel d (sort_sort older ds)"
    using NewQueue_rel by metis
  show ?thesis
    using l q load_loop_dom [OF l] assms by (auto simp: loadRunning_def wd_wf_def)
qed

subsection \<open>Transactions that have timed out\<close>

text \<open>
  A transaction is idle if neither phase applies to it; only a status that says prepared or decided
  changes that.
\<close>

definition idle :: "txn_state option \<Rightarrow> bool" where
  "idle s \<longleftrightarrow> s \<noteq> Some Prepared \<and> s \<noteq> Some Decided"

fun revives :: "txn_id \<Rightarrow> wd_event \<Rightarrow> bool" where
  "revives i (Wd_Status s) \<longleftrightarrow> ru_Id s = i \<and> (ru_State s = Prepared \<or> ru_State s = Decided)"
| "revives i _ \<longleftrightarrow> False"

lemma hand_off_idle:
  assumes "hand_off expected xs all = (rs, all')" "idle (mget all i)" "expected = Prepared \<or> expected = Decided"
  shows "idle (mget all' i) \<and> i \<notin> ru_Id ` set rs"
proof -
  have "i \<notin> ru_Id ` set rs" using hand_off_props(3) [OF assms(1)] assms(2,3) by (auto simp: idle_def)
  then show ?thesis using hand_off_props(4) [OF assms(1), of i] assms(2) by simp
qed

lemma watchdog_step_idle:
  assumes "wd_wf w" "watchdog_step t1 t2 e w = Some (xs, w')" "idle (mget (wd_all w) i)" "\<not> revives i e"
  shows "idle (mget (wd_all w') i) \<and> i \<notin> (ru_Id \<circ> work_txn) ` set xs"
proof -
  obtain ps ds where q: "queue_rel (wd_prepared w) ps" "queue_rel (wd_decided w) ds"
    using assms(1) by (auto simp: wd_wf_def)
  show ?thesis
  proof (cases e)
    case (Wd_Status s)
    then show ?thesis using assms(2-4)
      by (cases "ru_State s") (auto simp: watchdog_step_def idle_def split: if_splits bind_splits)
  next
    case (Wd_Tick1 now)
    obtain rs q' all' ys where c: "checkTimedout now t1 Prepared (wd_prepared w) (wd_all w) = Some (rs, q', all')"
      "hand_off Prepared ys (wd_all w) = (rs, all')"
      using checkTimedout_hand_off [OF q(1), of now t1 Prepared "wd_all w"] by blast
    show ?thesis using hand_off_idle [OF c(2) assms(3)] c(1) assms(2) Wd_Tick1 by (auto simp: watchdog_step_def)
  next
    case (Wd_Tick2 now)
    obtain rs q' all' ys where c: "checkTimedout now t2 Decided (wd_decided w) (wd_all w) = Some (rs, q', all')"
      "hand_off Decided ys (wd_all w) = (rs, all')"
      using checkTimedout_hand_off [OF q(2), of now t2 Decided "wd_all w"] by blast
    show ?thesis using hand_off_idle [OF c(2) assms(3)] c(1) assms(2) Wd_Tick2 by (auto simp: watchdog_step_def)
  next
    case Wd_Done
    then show ?thesis using assms by (auto simp: watchdog_step_def)
  qed
qed

lemma wd_run_idle:
  assumes "wd_wf w" "wd_run t1 t2 es w = Some (xs, w')" "idle (mget (wd_all w) i)" "\<not> list_ex (revives i) es"
  shows "i \<notin> (ru_Id \<circ> work_txn) ` set xs"
  using assms
proof (induction es arbitrary: w xs)
  case (Cons e es)
  obtain ys w1 zs where s: "watchdog_step t1 t2 e w = Some (ys, w1)" "wd_run t1 t2 es w1 = Some (zs, w')" "xs = ys @ zs"
    using Cons.prems(2) by (auto split: bind_splits)
  have "wd_wf w1" using watchdog_step_total [OF Cons.prems(1), of t1 t2 e] s(1) by auto
  then show ?case
    using Cons.IH [OF _ s(2)] watchdog_step_idle [OF Cons.prems(1) s(1) Cons.prems(3)] Cons.prems(4) s(3) by auto
qed simp

lemma running_loop_ids:
  "running_loop pid status ps = Some rs \<Longrightarrow> ru_Id ` set rs \<subseteq> fst ` set ps \<and> (distinct (map fst ps) \<longrightarrow> distinct (map ru_Id rs))"
proof (induction ps arbitrary: rs)
  case (Cons x ps)
  obtain i p where x: "x = (i, p)" by fastforce
  show ?case
  proof (cases "PrincipalPid i \<noteq> pid \<or> pr_LocksReleased p")
    case True
    then show ?thesis using Cons.IH [of rs] Cons.prems x by auto
  next
    case False
    then have "\<exists>rest y. running_loop pid status ps = Some rest \<and> rs = y # rest \<and> ru_Id y = i"
      using Cons.prems x by (auto split: bind_splits)
    then obtain rest y where "running_loop pid status ps = Some rest" "rs = y # rest" "ru_Id y = i" by blast
    then show ?thesis using Cons.IH [of rest] x by auto
  qed
qed simp

lemma load_loop_other:
  "load_loop rs (all, ps, ds) = (all', ps', ds') \<Longrightarrow> set ps \<subseteq> set ps' \<and> (i \<notin> ru_Id ` set rs \<longrightarrow> mget all' i = mget all i)"
proof (induction rs arbitrary: all ps ds)
  case (Cons r rs)
  then show ?case by (cases "ru_State r") (fastforce dest: Cons.IH)+
qed simp

lemma load_loop_timedout:
  "load_loop rs (all, ps, ds) = (all', ps', ds') \<Longrightarrow> distinct (map ru_Id rs) \<Longrightarrow> r \<in> set rs \<Longrightarrow> ru_State r = Timedout \<Longrightarrow>
    r \<in> set ps' \<and> mget all' (ru_Id r) = Some Timedout"
proof (induction rs arbitrary: all ps ds)
  case (Cons x rs)
  show ?case
  proof (cases "r = x")
    case True
    then have "load_loop rs (mput (ru_Id r) Timedout all, ps @ [r], ds) = (all', ps', ds')" using Cons.prems(1,4) by simp
    from load_loop_other [OF this, of "ru_Id r"] show ?thesis using Cons.prems(2) True by auto
  next
    case False
    then have r: "r \<in> set rs" "distinct (map ru_Id rs)" using Cons.prems(2,3) by auto
    show ?thesis using Cons.prems(1) Cons.IH [OF _ r(2,1) Cons.prems(4)] by (cases "ru_State x") simp_all
  qed
qed simp

lemma loadRunning_timedout:
  assumes "getRunning m = Some rs" "distinct (map ru_Id rs)" "r \<in> set rs" "ru_State r = Timedout"
  shows "\<exists>w ps. loadRunning m = Some w \<and> wd_wf w \<and> queue_rel (wd_prepared w) ps \<and> r \<in> set ps \<and> mget (wd_all w) (ru_Id r) = Some Timedout"
proof -
  obtain all ps ds where l: "load_loop rs ([], [], []) = (all, ps, ds)" by (cases "load_loop rs ([], [], [])")
  obtain p d where q: "NewQueue (sort_sort older ps) = Some p" "queue_rel p (sort_sort older ps)"
    "NewQueue (sort_sort older ds) = Some d" "queue_rel d (sort_sort older ds)"
    using NewQueue_rel by metis
  have "loadRunning m = Some \<lparr>wd_all = all, wd_prepared = p, wd_decided = d, wd_inFlight = 0\<rparr>"
    using l q assms(1) by (simp add: loadRunning_def)
  moreover have "r \<in> set (sort_sort older ps)" "mget all (ru_Id r) = Some Timedout" using load_loop_timedout [OF l assms(2-4)] by simp_all
  ultimately show ?thesis using q(2,4) by (auto simp: wd_wf_def)
qed

section \<open>Properties\<close>

text \<open>
  C13: a pass of the watchdog over a queue always ends and takes exactly the right transactions. It
  removes the entries at the front that are old enough and leaves the rest in order. Of the removed
  entries it hands out, in order, exactly those whose transaction is still in the phase of the queue,
  a transaction with several entries once, with its first one. Afterwards it knows all transactions it
  knew before except those it handed out.
\<close>

theorem checkTimedout_correct:
  assumes "queue_rel q xs"
  shows "\<exists>rs q' all'. checkTimedout now timeout expected q all = Some (rs, q', all') \<and>
    queue_rel q' (dropWhile (old_entry (FromTime (time_Unix (fst now) (snd now - timeout)))) xs) \<and>
    rs = first_of_each (filter (\<lambda>x. mget all (ru_Id x) = Some expected)
      (takeWhile (old_entry (FromTime (time_Unix (fst now) (snd now - timeout)))) xs)) \<and>
    distinct (map ru_Id rs) \<and>
    mget all' = (\<lambda>i. if i \<in> ru_Id ` set rs then None else mget all i)"
proof -
  let ?old = "old_entry (FromTime (time_Unix (fst now) (snd now - timeout)))"
  obtain rs all' where h: "hand_off expected (takeWhile ?old xs) all = (rs, all')" by fastforce
  obtain q' where "checkTimedout now timeout expected q all = Some (rs, q', all')" "queue_rel q' (dropWhile ?old xs)"
    using check_loop_hand_off [OF assms queue_rel_fresh [OF assms], of _ expected all] h
    unfolding checkTimedout_def by (metis fst_conv snd_conv)
  moreover have "rs = first_of_each (filter (\<lambda>x. mget all (ru_Id x) = Some expected) (takeWhile ?old xs))"
    using hand_off_exact [of expected "takeWhile ?old xs" all] by (simp add: h)
  moreover have "mget all' = (\<lambda>i. if i \<in> ru_Id ` set rs then None else mget all i)" using hand_off_props(4) [OF h] by (rule ext)
  ultimately show ?thesis using hand_off_props(2) [OF h] by blast
qed

definition wd_demo_entry :: "u64 \<Rightarrow> u64 \<Rightarrow> running" where
  "wd_demo_entry n ts = \<lparr>ru_Id = \<lparr>PrincipalPid = 1, ServerId = 1, IdTimestamp = n\<rparr>, ru_Timestamp = ts,
     ru_State = Prepared, ru_ParticipantPids = [1, 2], ru_Decision = None\<rparr>"

theorem checkTimedout_correct_witness:
  "\<exists>q q' all'. NewQueue [wd_demo_entry 1 0, wd_demo_entry 2 0, wd_demo_entry 1 0] = Some q \<and>
    checkTimedout (1, 0) 0 Prepared q [(ru_Id (wd_demo_entry 1 0), Prepared)] = Some ([wd_demo_entry 1 0], q', all') \<and>
    queue_rel q' [] \<and> mget all' (ru_Id (wd_demo_entry 1 0)) = None"
proof -
  let ?xs = "[wd_demo_entry 1 0, wd_demo_entry 2 0, wd_demo_entry 1 0]"
  obtain q where q: "NewQueue ?xs = Some q" "queue_rel q ?xs" using NewQueue_rel by blast
  have old: "takeWhile (old_entry (FromTime (time_Unix 1 0))) ?xs = ?xs" "dropWhile (old_entry (FromTime (time_Unix 1 0))) ?xs = []"
    by (simp_all add: old_entry_def wd_demo_entry_def)
  have "filter (\<lambda>x. mget [(ru_Id (wd_demo_entry 1 0), Prepared)] (ru_Id x) = Some Prepared) ?xs = [wd_demo_entry 1 0, wd_demo_entry 1 0]"
    by (simp add: wd_demo_entry_def)
  with checkTimedout_correct [OF q(2), of "(1, 0)" 0 Prepared "[(ru_Id (wd_demo_entry 1 0), Prepared)]"] q(1) old
  show ?thesis by auto
qed

text \<open>
  C14: the watchdog only ever finishes transactions that were running when it started. However its
  events are ordered, every run succeeds, and each transaction it hands to a resolver was among the
  running transactions of the manager, prepared, decided or timed out, at that moment. In particular a
  transaction that is prepared later on the same leader is never finished by its watchdog, even though
  its status is reported with \<^verbatim>\<open>UpdateStatus\<close>.
\<close>

theorem watchdog_only_initial:
  assumes "getRunning m = Some rs"
  shows "\<exists>w works w'. loadRunning m = Some w \<and> wd_run t1 t2 es w = Some (works, w') \<and>
    list_all (\<lambda>x. list_ex (\<lambda>r. ru_Id r = ru_Id (work_txn x) \<and> watched (ru_State r)) rs) works"
proof -
  obtain w where w: "loadRunning m = Some w" "wd_wf w"
    "\<forall>i. mget (wd_all w) i \<noteq> None \<longleftrightarrow> (\<exists>r \<in> set rs. ru_Id r = i \<and> watched (ru_State r))"
    using loadRunning_known [OF assms] by blast
  obtain works w' where r: "wd_run t1 t2 es w = Some (works, w')" using wd_run_total [OF w(2)] by blast
  have "mget (wd_all w) (ru_Id (work_txn x)) \<noteq> None" if "x \<in> set works" for x
    using wd_run_unknown [OF w(2) r, of "ru_Id (work_txn x)"] that by auto
  then show ?thesis using w(1,3) r by (auto simp: list_all_iff list_ex_iff)
qed

definition wd_demo_manager :: "inmem manager" where
  "wd_demo_manager = NewManager 1 (Emulated_ops inmem_ops) 1 [] (\<lambda>_. None) 1000"

text \<open>A leader that starts with no running transaction never finishes one.\<close>

theorem watchdog_only_initial_witness:
  "\<exists>w w'. loadRunning wd_demo_manager = Some w \<and>
    wd_run 1 1 [Wd_Status (wd_demo_entry 1 0), Wd_Tick1 (100, 0), Wd_Tick2 (100, 0)] w = Some ([], w')"
proof -
  have "getRunning wd_demo_manager = Some []" by code_simp
  from watchdog_only_initial [OF this, of 1 1 "[Wd_Status (wd_demo_entry 1 0), Wd_Tick1 (100, 0), Wd_Tick2 (100, 0)]"]
  obtain w works w' where "loadRunning wd_demo_manager = Some w"
    "wd_run 1 1 [Wd_Status (wd_demo_entry 1 0), Wd_Tick1 (100, 0), Wd_Tick2 (100, 0)] w = Some (works, w')"
    "list_all (\<lambda>_. False) works" by auto
  then show ?thesis by (cases works) auto
qed

text \<open>
  C15: a transaction that an earlier leader had already marked as timed out is never aborted by the
  watchdog of a new leader. When the watchdog starts it puts the transaction into the queue of
  prepared transactions for that purpose; yet in no run, whatever the order of its ticks and of the
  statuses reported to it, is the transaction handed to a resolver, unless its status is reported as
  prepared or decided again.
\<close>

theorem watchdog_drops_timedout:
  assumes "gomap_wf (m_prepared m)" "getRunning m = Some rs" "r \<in> set rs" "ru_State r = Timedout"
    and "\<not> list_ex (revives (ru_Id r)) es"
  shows "\<exists>w ps works w'. loadRunning m = Some w \<and> queue_rel (wd_prepared w) ps \<and> r \<in> set ps \<and>
    wd_run t1 t2 es w = Some (works, w') \<and> ru_Id r \<notin> (ru_Id \<circ> work_txn) ` set works"
proof -
  have d: "distinct (map ru_Id rs)" using running_loop_ids [OF assms(2) [unfolded getRunning_def]] assms(1) by (simp add: gomap_wf_def)
  obtain w ps where w: "loadRunning m = Some w" "wd_wf w" "queue_rel (wd_prepared w) ps" "r \<in> set ps" "mget (wd_all w) (ru_Id r) = Some Timedout"
    using loadRunning_timedout [OF assms(2) d assms(3,4)] by (elim exE conjE)
  obtain works w' where run: "wd_run t1 t2 es w = Some (works, w')" using wd_run_total [OF w(2)] by blast
  have "ru_Id r \<notin> (ru_Id \<circ> work_txn) ` set works" by (rule wd_run_idle [OF w(2) run _ assms(5)]) (simp add: w(5) idle_def)
  with w run show ?thesis by blast
qed

text \<open>A manager with one transaction, prepared and then timed out.\<close>

definition wd_timedout_manager :: "inmem manager" where
  "wd_timedout_manager = wd_demo_manager\<lparr>
     m_status := [(ru_Id (wd_demo_entry 1 0), newStatus (ru_Id (wd_demo_entry 1 0)) 0 Timedout)],
     m_prepared := [(ru_Id (wd_demo_entry 1 0), \<lparr>pr_Txn = \<lparr>t_Id = ru_Id (wd_demo_entry 1 0), t_Actions = [], t_ParticipantPids = [1]\<rparr>,
       pr_Timestamp = 0, pr_Locks = [], pr_LocksReleased = False, pr_Decision = None\<rparr>)]\<rparr>"

theorem watchdog_drops_timedout_witness:
  "\<exists>w works w'. loadRunning wd_timedout_manager = Some w \<and> wd_run 1 1 [Wd_Tick1 (100, 0), Wd_Tick2 (200, 0)] w = Some (works, w') \<and>
    ru_Id (wd_demo_entry 1 0) \<notin> (ru_Id \<circ> work_txn) ` set works"
proof -
  let ?r = "\<lparr>ru_Id = ru_Id (wd_demo_entry 1 0), ru_Timestamp = 0, ru_State = Timedout, ru_ParticipantPids = [], ru_Decision = None\<rparr>"
  have r: "getRunning wd_timedout_manager = Some [?r]" by code_simp
  have "gomap_wf (m_prepared wd_timedout_manager)" by (simp add: wd_timedout_manager_def gomap_wf_def)
  from watchdog_drops_timedout [OF this r, of ?r "[Wd_Tick1 (100, 0), Wd_Tick2 (200, 0)]" 1 1] show ?thesis by auto
qed

end
