(* ===== verification/Helpers.thy ===== *)
theory Helpers
  imports Prelude
begin

text \<open>
  The generic slice and map helpers of \<^verbatim>\<open>src/internal/utils/helpers.go\<close>. A \<^verbatim>\<open>range\<close> loop over a map
  visits the entries in the order of the association list. \<open>None\<close> is a panic.
\<close>

section \<open>Definitions\<close>

fun dup_loop :: "'a list \<Rightarrow> ('a, bool) gomap \<Rightarrow> bool" where
  "dup_loop [] m = False"
| "dup_loop (item # xs) m =
     (if mget m item = Some True then True else dup_loop xs (mput item True m))"

definition ContainsDuplicates :: "'a list \<Rightarrow> bool" where
  "ContainsDuplicates xs = dup_loop xs []"

definition SliceLast :: "'a list \<Rightarrow> 'a option" where
  "SliceLast xs = (if length xs = 0 then None else Some (xs ! (length xs - 1)))"

definition MakeSet :: "'a list \<Rightarrow> ('a, bool) gomap" where
  "MakeSet xs = fold (\<lambda>s. mput s True) xs []"

fun MakeKeySlice :: "('k, 'v) gomap \<Rightarrow> 'k list" where
  "MakeKeySlice [] = []"
| "MakeKeySlice ((k, _) # m) = k # MakeKeySlice m"

fun MakeValueSlice :: "('k, 'v) gomap \<Rightarrow> 'v list" where
  "MakeValueSlice [] = []"
| "MakeValueSlice ((_, v) # m) = v # MakeValueSlice m"

definition GetOptionalParameter :: "'a \<Rightarrow> 'a list \<Rightarrow> 'a option" where
  "GetOptionalParameter defaultValue values =
     (if length values = 1 then Some (values ! 0)
      else if length values > 1 then None
      else Some defaultValue)"

definition GetSingleMapKey :: "('k, 'v) gomap \<Rightarrow> ('k \<times> 'v) option" where
  "GetSingleMapKey m = (case m of [(k, v)] \<Rightarrow> Some (k, v) | _ \<Rightarrow> None)"

fun AppendMap :: "('k, 'v) gomap \<Rightarrow> ('k, 'v) gomap \<Rightarrow> ('k, 'v) gomap" where
  "AppendMap dest [] = dest"
| "AppendMap dest ((k, v) # source) = AppendMap (mput k v dest) source"

definition CloneMap :: "('k, 'v) gomap \<Rightarrow> ('k, 'v) gomap" where
  "CloneMap orig = fold (\<lambda>(k, v). mput k v) orig []"

fun repeat_loop :: "'a \<Rightarrow> nat \<Rightarrow> 'a list \<Rightarrow> 'a list" where
  "repeat_loop val 0 result = result"
| "repeat_loop val (Suc n) result = repeat_loop val n (result[n := val])"

definition RepeatElem :: "'a \<Rightarrow> 'a \<Rightarrow> nat \<Rightarrow> 'a list" where
  "RepeatElem zero val count = repeat_loop val count (replicate count zero)"

section \<open>What they compute\<close>

lemma dup_loop_iff:
  "dup_loop xs m \<longleftrightarrow> \<not> distinct xs \<or> (\<exists>x \<in> set xs. mget m x = Some True)"
  by (induction xs arbitrary: m) auto

lemma ContainsDuplicates_iff [simp]: "ContainsDuplicates xs \<longleftrightarrow> \<not> distinct xs"
  by (simp add: ContainsDuplicates_def dup_loop_iff)

lemma mget_MakeSet: "mget (MakeSet xs) x = (if x \<in> set xs then Some True else None)"
proof -
  have "mget (fold (\<lambda>s. mput s True) xs m) x = (if x \<in> set xs then Some True else mget m x)" for m
    by (induction xs arbitrary: m) auto
  then show ?thesis by (simp add: MakeSet_def)
qed

lemma MakeKeySlice_eq [simp]: "MakeKeySlice m = map fst m"
  by (induction m rule: MakeKeySlice.induct) auto

lemma MakeValueSlice_eq [simp]: "MakeValueSlice m = map snd m"
  by (induction m rule: MakeValueSlice.induct) auto

lemma AppendMap_wf [intro]: "gomap_wf dest \<Longrightarrow> gomap_wf (AppendMap dest source)"
  by (induction dest source rule: AppendMap.induct) auto

lemma mget_AppendMap:
  "gomap_wf source \<Longrightarrow>
    mget (AppendMap dest source) k = (case mget source k of Some v \<Rightarrow> Some v | None \<Rightarrow> mget dest k)"
  by (induction dest source rule: AppendMap.induct)
     (auto simp: gomap_wf_def map_of_eq_None_iff [THEN iffD2] split: option.splits)

lemma mget_CloneMap: "gomap_wf orig \<Longrightarrow> mget (CloneMap orig) k = mget orig k"
proof -
  have "fold (\<lambda>(k, v). mput k v) source dest = AppendMap dest source" for source dest :: "('a, 'b) gomap"
    by (induction dest source rule: AppendMap.induct) auto
  then show "gomap_wf orig \<Longrightarrow> ?thesis" by (simp add: CloneMap_def mget_AppendMap split: option.splits)
qed

lemma repeat_loop_eq: "n \<le> length xs \<Longrightarrow> repeat_loop val n xs = replicate n val @ drop n xs"
proof (induction n arbitrary: xs)
  case (Suc n)
  then have "repeat_loop val (Suc n) xs = replicate n val @ drop n (xs[n := val])" by simp
  also have "drop n (xs[n := val]) = val # drop (Suc n) xs"
    using Suc.prems by (subst Cons_nth_drop_Suc [symmetric]) auto
  finally show ?case by (simp add: replicate_append_same [symmetric] del: repeat_loop.simps)
qed simp

lemma RepeatElem_eq: "RepeatElem zero val count = replicate count val"
  by (simp add: RepeatElem_def repeat_loop_eq)

end
