(* ===== verification/Api_Txn.thy ===== *)
theory Api_Txn
  imports Helpers Retry Txn_Validate
begin

text \<open>
  The transaction layer of an API server (\<^verbatim>\<open>src/internal/api/server/txn\<close>): building a transaction
  over several partitions, the client that retries failed locks, and the three coordinators
  (two-phase commit, read-only, snapshot read).

  The data servers and the network between are the parameter \<open>'w\<close>: a client is a record of functions
  that take a request and the world, and return the answer with the world after the call. Calls made
  by several goroutines at once take effect one after the other in an order that a parameter of type
  \<open>schedule\<close> picks for each loop; the results arrive in the same order. \<open>None\<close> is a panic, or a call
  that blocks for ever.
\<close>

section \<open>Identifiers, actions, partitions\<close>

record api_id =
  id_PrincipalPid :: u32
  id_ServerID :: u64
  id_Timestamp :: u64

definition zero_id :: api_id where
  "zero_id = \<lparr>id_PrincipalPid = 0, id_ServerID = 0, id_Timestamp = 0\<rparr>"

definition ToProto :: "api_id \<Rightarrow> txn_id" where
  "ToProto t = \<lparr>PrincipalPid = id_PrincipalPid t, ServerId = id_ServerID t, IdTimestamp = id_Timestamp t\<rparr>"

definition new_action :: "action_payload \<Rightarrow> action" where
  "new_action p = \<lparr>a_Id = 0, a_Payload = p\<rparr>"

definition Read :: "u32 \<Rightarrow> bytes \<Rightarrow> action" where
  "Read keyspace key = new_action (Action_Read keyspace key)"

definition ReadRange :: "u32 \<Rightarrow> bytes \<Rightarrow> bytes \<Rightarrow> int \<Rightarrow> action" where
  "ReadRange keyspace startKey endKey maxResults =
     new_action (Action_ReadRange keyspace startKey endKey (word_of_int maxResults))"

definition Insert :: "u32 \<Rightarrow> bytes \<Rightarrow> bytes \<Rightarrow> action" where
  "Insert keyspace key val = new_action (Action_Insert keyspace key val)"

definition Update :: "u32 \<Rightarrow> bytes \<Rightarrow> bytes \<Rightarrow> action" where
  "Update keyspace key val = new_action (Action_Update keyspace key val)"

definition Upsert :: "u32 \<Rightarrow> bytes \<Rightarrow> bytes \<Rightarrow> action" where
  "Upsert keyspace key val = new_action (Action_Upsert keyspace key val)"

definition Delete :: "u32 \<Rightarrow> bytes \<Rightarrow> action" where
  "Delete keyspace key = new_action (Action_Delete keyspace key)"

definition LockKey :: "u32 \<Rightarrow> bytes \<Rightarrow> bool \<Rightarrow> lock_key_check \<Rightarrow> action" where
  "LockKey keyspace key exclusive check = new_action
     (Action_LockKey \<lparr>kl_Keyspace = keyspace, kl_Key = key, kl_Exclusive = exclusive\<rparr> check)"

definition LockRange :: "u32 \<Rightarrow> bytes \<Rightarrow> bytes \<Rightarrow> bool \<Rightarrow> lock_range_check \<Rightarrow> action" where
  "LockRange keyspace startKey endKey exclusive check = new_action
     (Action_LockRange \<lparr>rl_Keyspace = keyspace, rl_StartKey = startKey, rl_EndKey = endKey, rl_Exclusive = exclusive\<rparr> check)"

text \<open>
  The hash function \<^verbatim>\<open>xxhash\<close> is a parameter of \<open>getPartition\<close>. A partition count of zero makes
  the remainder panic.
\<close>

type_synonym hash_fun = "bytes \<Rightarrow> u64"

record partitioner =
  pt_partitionCount :: u64

definition newPartitioner :: "u32 \<Rightarrow> partitioner" where
  "newPartitioner partitionCount = \<lparr>pt_partitionCount = ucast partitionCount\<rparr>"

definition partition_of :: "hash_fun \<Rightarrow> partitioner \<Rightarrow> bytes \<Rightarrow> u32 option" where
  "partition_of hash p key =
     (if pt_partitionCount p = 0 then None else Some (ucast (hash key mod pt_partitionCount p)))"

section \<open>Transactions and their results\<close>

record api_txn =
  at_participantActions :: "(u32, action list) gomap"
  at_id :: api_id
  at_nextActionId :: u32
  at_readTimestamp :: u64

record txn_result =
  tr_Id :: txn_id
  tr_Timestamp :: u64
  tr_Success :: bool
  tr_ActionStatus :: "(u32, action_status) gomap"

text \<open>
  A processor knows its server, its partitioner (set by \<open>Start\<close>) and its client.
\<close>

record 'w data_client =
  dc_Autocommit :: "autocommit_request \<Rightarrow> 'w \<Rightarrow> ((err + txn_status) \<times> 'w) option"
  dc_Prepare :: "prepare_request \<Rightarrow> 'w \<Rightarrow> ((err + txn_status) \<times> 'w) option"
  dc_Commit :: "commit_request \<Rightarrow> 'w \<Rightarrow> ((err + txn_status) \<times> 'w) option"
  dc_Abort :: "abort_request \<Rightarrow> 'w \<Rightarrow> ((err + txn_status) \<times> 'w) option"
  dc_StoreDecision :: "decision \<Rightarrow> 'w \<Rightarrow> ((err + txn_status) \<times> 'w) option"

record 'w processor =
  pc_ServerID :: u64
  pc_partitioner :: "partitioner option"
  pc_client :: "'w data_client"

definition Processor_New :: api_txn where
  "Processor_New =
     \<lparr>at_participantActions = [], at_id = zero_id, at_nextActionId = 0, at_readTimestamp = 0\<rparr>"

text \<open>The loop of \<^verbatim>\<open>Append\<close> numbers the actions; the numbered actions are returned with the transaction.\<close>

definition actions_of :: "api_txn \<Rightarrow> u32 \<Rightarrow> action list" where
  "actions_of t pid = (case mget (at_participantActions t) pid of Some as \<Rightarrow> as | None \<Rightarrow> [])"

fun append_loop :: "u32 \<Rightarrow> action list \<Rightarrow> api_txn \<Rightarrow> action list \<times> api_txn" where
  "append_loop pid [] t = ([], t)"
| "append_loop pid (a # as) t =
     (let a' = a\<lparr>a_Id := at_nextActionId t\<rparr>;
          (as', t') = append_loop pid as
            (t\<lparr>at_participantActions := mput pid (actions_of t pid @ [a']) (at_participantActions t),
               at_nextActionId := at_nextActionId t + 1\<rparr>)
      in (a' # as', t'))"

definition Append ::
    "hash_fun \<Rightarrow> 'w processor \<Rightarrow> u64 \<Rightarrow> bytes \<Rightarrow> action list \<Rightarrow> api_txn \<Rightarrow> (action list \<times> api_txn) option" where
  "Append hash p now routingKey actions t = do {
     pt \<leftarrow> pc_partitioner p;
     pid \<leftarrow> partition_of hash pt routingKey;
     let t1 = (if id_Timestamp (at_id t) = 0
               then t\<lparr>at_id := \<lparr>id_PrincipalPid = pid, id_ServerID = pc_ServerID p, id_Timestamp = now\<rparr>\<rparr>
               else t);
     Some (append_loop pid actions t1)
   }"

text \<open>
  A time and a \<^verbatim>\<open>timestamppb.Timestamp\<close> are pairs of seconds and nanoseconds. The zero time of Go is
  the first of January of year one.
\<close>

definition AsTimestamp :: "u64 \<Rightarrow> int \<times> int" where
  "AsTimestamp timestamp = AsTime timestamp"

definition FromTimestamp :: "int \<times> int \<Rightarrow> u64" where
  "FromTimestamp ts = FromTime (time_Unix (fst ts) (snd ts))"

definition SnapshotReadAt :: "int \<times> int \<Rightarrow> api_txn \<Rightarrow> api_txn" where
  "SnapshotReadAt time t =
     (if time \<noteq> (- 62135596800, 0) then t\<lparr>at_readTimestamp := FromTime time\<rparr> else t)"

definition SnapshotReadAtTimestamp :: "(int \<times> int) option \<Rightarrow> api_txn \<Rightarrow> api_txn" where
  "SnapshotReadAtTimestamp ts t = (case ts of None \<Rightarrow> t | Some x \<Rightarrow> t\<lparr>at_readTimestamp := FromTimestamp x\<rparr>)"

definition ParticipantCount :: "api_txn \<Rightarrow> nat" where
  "ParticipantCount t = length (at_participantActions t)"

fun parts_read_only :: "(u32, action list) gomap \<Rightarrow> bool" where
  "parts_read_only [] = True"
| "parts_read_only ((_, as) # m) = (if \<not> all_read_only as then False else parts_read_only m)"

definition Api_IsReadOnly :: "api_txn \<Rightarrow> bool" where
  "Api_IsReadOnly t = parts_read_only (at_participantActions t)"

definition action_errors :: "(u32, action_status) gomap \<Rightarrow> err list" where
  "action_errors m = List.map_filter (\<lambda>(_, r). ActionStatus_ToError r) m"

text \<open>\<^verbatim>\<open>GetError\<close> joins the errors of all actions; the model keeps the list, empty for nil.\<close>

definition GetError :: "txn_result \<Rightarrow> err list" where
  "GetError t =
     (let errs = action_errors (tr_ActionStatus t) in
      if \<not> tr_Success t \<and> errs = [] then [OtherError ''transaction failed''] else errs)"

fun first_error :: "(u32, action_status) gomap \<Rightarrow> err option" where
  "first_error [] = None"
| "first_error ((_, r) # m) = (case ActionStatus_ToError r of Some e \<Rightarrow> Some e | None \<Rightarrow> first_error m)"

definition GetFirstError :: "txn_result \<Rightarrow> err option" where
  "GetFirstError t = (case first_error (tr_ActionStatus t) of
       Some e \<Rightarrow> Some e
     | None \<Rightarrow> if \<not> tr_Success t then Some (OtherError ''transaction failed'') else None)"

section \<open>Retrying lock failures\<close>

definition markerErr :: err where
  "markerErr = OtherError ''marker retry err''"

fun all_lock_failed :: "(u32, action_status) gomap \<Rightarrow> bool" where
  "all_lock_failed [] = True"
| "all_lock_failed ((_, r) # m) = (if as_Code r \<noteq> LockFailed then False else all_lock_failed m)"

definition nil_map :: "('k, 'v) gomap option \<Rightarrow> ('k, 'v) gomap" where
  "nil_map m = (case m of None \<Rightarrow> [] | Some x \<Rightarrow> x)"

definition isLockFailed :: "err + txn_status \<Rightarrow> bool" where
  "isLockFailed r = (case r of
       Inl _ \<Rightarrow> False
     | Inr status \<Rightarrow>
         if ts_State status \<noteq> Failed then False else all_lock_failed (nil_map (ts_ActionStatus status)))"

text \<open>
  The body the three methods share: the answer of the last attempt is kept in a captured variable,
  here the first component of the state. \<open>again\<close> tells which answers are retried.
\<close>

definition retried ::
    "ctx \<Rightarrow> nat \<Rightarrow> (err + txn_status \<Rightarrow> bool) \<Rightarrow> ('w \<Rightarrow> ((err + txn_status) \<times> 'w) option) \<Rightarrow>
     'w \<Rightarrow> ((err + txn_status) \<times> 'w) option" where
  "retried ctx maxAttempts again call w = do {
     (retryErr, (answer, w')) \<leftarrow> RetryContextE ctx maxAttempts
       (\<lambda>(_, w). do {
          (r, w1) \<leftarrow> call w;
          Some (if \<not> again r then None else Some markerErr, (Some r, w1))
        }) (None, w);
     (if retryErr = None \<or> retryErr = Some markerErr then do { r \<leftarrow> answer; Some (r, w') }
      else do { e \<leftarrow> retryErr; Some (Inl e, w') })
   }"

definition Retrier_Autocommit ::
    "ctx \<Rightarrow> nat \<Rightarrow> 'w data_client \<Rightarrow> autocommit_request \<Rightarrow> 'w \<Rightarrow> ((err + txn_status) \<times> 'w) option" where
  "Retrier_Autocommit ctx maxAttempts c req = retried ctx maxAttempts isLockFailed (dc_Autocommit c req)"

definition Retrier_Prepare ::
    "ctx \<Rightarrow> nat \<Rightarrow> 'w data_client \<Rightarrow> prepare_request \<Rightarrow> 'w \<Rightarrow> ((err + txn_status) \<times> 'w) option" where
  "Retrier_Prepare ctx maxAttempts c req = retried ctx maxAttempts isLockFailed (dc_Prepare c req)"

definition Retrier_Commit ::
    "ctx \<Rightarrow> nat \<Rightarrow> 'w data_client \<Rightarrow> commit_request \<Rightarrow> 'w \<Rightarrow> ((err + txn_status) \<times> 'w) option" where
  "Retrier_Commit ctx maxAttempts c req = retried ctx maxAttempts (\<lambda>r. r = Inl TimeOutOfRange) (dc_Commit c req)"

definition newClientRetrier :: "ctx \<Rightarrow> nat \<Rightarrow> 'w data_client \<Rightarrow> 'w data_client" where
  "newClientRetrier ctx maxAttempts c =
     \<lparr>dc_Autocommit = Retrier_Autocommit ctx maxAttempts c, dc_Prepare = Retrier_Prepare ctx maxAttempts c,
      dc_Commit = Retrier_Commit ctx maxAttempts c, dc_Abort = dc_Abort c, dc_StoreDecision = dc_StoreDecision c\<rparr>"

definition NewProcessor :: "ctx \<Rightarrow> nat \<Rightarrow> u64 \<Rightarrow> 'w data_client \<Rightarrow> 'w processor" where
  "NewProcessor ctx maxAttempts serverID client =
     \<lparr>pc_ServerID = serverID, pc_partitioner = None, pc_client = newClientRetrier ctx maxAttempts client\<rparr>"

text \<open>\<^verbatim>\<open>Start\<close> waits for the configuration of the API server, or for the end of its context.\<close>

definition Processor_Start :: "err + u32 \<Rightarrow> 'w processor \<Rightarrow> err option \<times> 'w processor" where
  "Processor_Start config p = (case config of
       Inl e \<Rightarrow> (Some e, p)
     | Inr partitionCount \<Rightarrow> (None, p\<lparr>pc_partitioner := Some (newPartitioner partitionCount)\<rparr>))"

section \<open>Concurrent calls\<close>

type_synonym schedule = "nat \<Rightarrow> u32 list \<Rightarrow> u32 list"

fun gather :: "(u32 \<Rightarrow> 'w \<Rightarrow> ('r \<times> 'w) option) \<Rightarrow> u32 list \<Rightarrow> 'w \<Rightarrow> ((u32 \<times> 'r) list \<times> 'w) option" where
  "gather f [] w = Some ([], w)"
| "gather f (pid # pids) w = do {
     (r, w1) \<leftarrow> f pid w;
     (rs, w2) \<leftarrow> gather f pids w1;
     Some ((pid, r) # rs, w2)
   }"

text \<open>A status map can hold nil, for a participant whose call failed.\<close>

type_synonym status_map = "(u32, txn_status option) gomap"

definition answer_status :: "err + txn_status \<Rightarrow> txn_status option" where
  "answer_status r = (case r of Inl _ \<Rightarrow> None | Inr s \<Rightarrow> Some s)"

text \<open>Receiving answers: every answer goes into the map, the errors are collected.\<close>

fun handle_all :: "(u32 \<times> (err + txn_status)) list \<Rightarrow> status_map \<times> err list \<Rightarrow> status_map \<times> err list" where
  "handle_all [] x = x"
| "handle_all ((pid, r) # rs) (status, errs) =
     handle_all rs (mput pid (answer_status r) status,
       case r of Inl e \<Rightarrow> errs @ [e] | Inr _ \<Rightarrow> errs)"

text \<open>Receiving commits: an answer other than committed counts as an error.\<close>

fun handle_committed :: "(u32 \<times> (err + txn_status)) list \<Rightarrow> status_map \<times> err list \<Rightarrow> status_map \<times> err list" where
  "handle_committed [] x = x"
| "handle_committed ((pid, r) # rs) (status, errs) =
     handle_committed rs (case r of
         Inl e \<Rightarrow> (status, errs @ [e])
       | Inr s \<Rightarrow> if ts_State s \<noteq> Committed then (status, errs @ [OtherError ''participant failed with state''])
                  else (mput pid (Some s) status, errs))"

text \<open>The action statuses of all participants in one map; a nil status panics.\<close>

fun collect_actions :: "status_map \<Rightarrow> (u32, action_status) gomap \<Rightarrow> (u32, action_status) gomap option" where
  "collect_actions [] m = Some m"
| "collect_actions ((_, s) # status) m = do {
     x \<leftarrow> s;
     collect_actions status (AppendMap m (nil_map (ts_ActionStatus x)))
   }"

definition others :: "api_txn \<Rightarrow> u32 list" where
  "others t = filter (\<lambda>pid. pid \<noteq> id_PrincipalPid (at_id t)) (map fst (at_participantActions t))"

section \<open>Two-phase commit\<close>

definition prepare_request_for :: "bool \<Rightarrow> api_txn \<Rightarrow> u32 \<Rightarrow> prepare_request" where
  "prepare_request_for readOnly t pid =
     \<lparr>prq_ParticipantPid = pid,
      prq_Txn = \<lparr>t_Id = ToProto (at_id t), t_Actions = actions_of t pid,
                 t_ParticipantPids = (if pid = id_PrincipalPid (at_id t) then MakeKeySlice (at_participantActions t) else [])\<rparr>,
      prq_ReadOnly = readOnly\<rparr>"

definition commit_request_for :: "bool \<Rightarrow> u64 \<Rightarrow> api_txn \<Rightarrow> u32 \<Rightarrow> commit_request" where
  "commit_request_for readOnly commitTimestamp t pid =
     \<lparr>cr_ParticipantPid = pid, cr_Id = ToProto (at_id t), cr_CommitTimestamp = commitTimestamp,
      cr_FetchResults = True, cr_ReadOnly = readOnly\<rparr>"

text \<open>
  One call of \<^verbatim>\<open>invokeAbort\<close>, as the messages it sends on the result channel: after an error other
  than \<open>NotFound\<close> the code goes on to send nil as well.
\<close>

definition invoke_abort :: "'w data_client \<Rightarrow> api_txn \<Rightarrow> u32 \<Rightarrow> 'w \<Rightarrow> (err option list \<times> 'w) option" where
  "invoke_abort cl t pid w = do {
     (r, w') \<leftarrow> dc_Abort cl \<lparr>abr_ParticipantPid = pid, abr_Id = ToProto (at_id t)\<rparr> w;
     Some (case r of
         Inl e \<Rightarrow> (if e \<noteq> NotFound then [Some e, None] else [None])
       | Inr s \<Rightarrow> if \<not> IsFinal (ts_State s) then [Some (OtherError ''participant failed with state'')] else [None], w')
   }"

definition to_abort :: "api_txn \<Rightarrow> status_map \<Rightarrow> u32 list" where
  "to_abort t status = filter (\<lambda>pid. \<not> (case mget status pid of Some (Some s) \<Rightarrow> IsFinal (ts_State s) | _ \<Rightarrow> False)) (others t)"

text \<open>
  The loop receives one message per call in flight. The call to the principal runs in the same
  goroutine as the receiver: it blocks for ever when what it sends does not fit in the channel,
  which holds one message.
\<close>

definition channel_capacity :: nat where
  "channel_capacity = 1"

definition abort_2pc :: "schedule \<Rightarrow> 'w data_client \<Rightarrow> api_txn \<Rightarrow> status_map \<Rightarrow> 'w \<Rightarrow> 'w option" where
  "abort_2pc sc cl t status w = do {
     let pids = to_abort t status;
     (rs, w1) \<leftarrow> gather (invoke_abort cl t) (sc 2 pids) w;
     let msgs = concat (map snd rs);
     let errs = List.map_filter id (take (length pids) msgs);
     (if errs = [] then do {
        (msgs', w2) \<leftarrow> invoke_abort cl t (id_PrincipalPid (at_id t)) w1;
        (if length (drop (length pids) msgs) + length msgs' > channel_capacity then None else Some w2)
      }
      else Some w1)
   }"

definition prepare_2pc ::
    "schedule \<Rightarrow> 'w data_client \<Rightarrow> api_txn \<Rightarrow> 'w \<Rightarrow> ((err + status_map) \<times> 'w) option" where
  "prepare_2pc sc cl t w = do {
     let principal = id_PrincipalPid (at_id t);
     (r, w1) \<leftarrow> dc_Prepare cl (prepare_request_for False t principal) w;
     (case r of
        Inl e \<Rightarrow> Some (Inl e, w1)
      | Inr s \<Rightarrow>
          if ts_State s \<noteq> Prepared then Some (Inr [(principal, Some s)], w1)
          else do {
            (rs, w2) \<leftarrow> gather (\<lambda>pid. dc_Prepare cl (prepare_request_for False t pid)) (sc 0 (others t)) w1;
            let (status, errs) = handle_all (take (ParticipantCount t - 1) rs) ([(principal, Some s)], []);
            (if length errs > 0 then do {
               w3 \<leftarrow> abort_2pc sc cl t status w2;
               Some (Inl (OtherError ''participants failed''), w3)
             }
             else Some (Inr status, w2))
          })
   }"

text \<open>The loop of \<^verbatim>\<open>decide\<close>: the largest timestamp, or no commit at the first status that is not prepared.\<close>

fun decide_loop :: "status_map \<Rightarrow> u64 \<Rightarrow> (u64 \<times> bool) option" where
  "decide_loop [] commitTimestamp = Some (commitTimestamp, True)"
| "decide_loop ((_, s) # status) commitTimestamp = do {
     x \<leftarrow> s;
     (if ts_State x = Prepared then decide_loop status (max commitTimestamp (ts_Timestamp x))
      else Some (0, False))
   }"

definition decide_2pc :: "api_id \<Rightarrow> status_map \<Rightarrow> decision option" where
  "decide_2pc i status = do {
     (commitTimestamp, commit) \<leftarrow> decide_loop status 0;
     Some \<lparr>d_Id = ToProto i, d_Commit = commit, d_CommitTimestamp = commitTimestamp\<rparr>
   }"

definition commit_2pc ::
    "schedule \<Rightarrow> 'w data_client \<Rightarrow> decision \<Rightarrow> api_txn \<Rightarrow> 'w \<Rightarrow> ((err + status_map) \<times> 'w) option" where
  "commit_2pc sc cl dec t w = do {
     let call = (\<lambda>pid. dc_Commit cl (commit_request_for False (d_CommitTimestamp dec) t pid));
     (rs, w1) \<leftarrow> gather call (sc 1 (others t)) w;
     let (status, errs) = handle_committed (take (ParticipantCount t - 1) rs) ([], []);
     (if length errs > 0 then Some (Inl (OtherError ''participants failed''), w1)
      else do {
        (r, w2) \<leftarrow> call (PrincipalPid (d_Id dec)) w1;
        let (status, errs) = handle_committed [(PrincipalPid (d_Id dec), r)] (status, errs);
        (if length errs > 0 then Some (Inl (OtherError ''principal failed''), w2)
         else Some (Inr status, w2))
      })
   }"

definition aggregateResults_2pc :: "decision \<Rightarrow> status_map \<Rightarrow> txn_result option" where
  "aggregateResults_2pc dec status = do {
     actionStatus \<leftarrow> collect_actions status [];
     Some \<lparr>tr_Id = d_Id dec, tr_Timestamp = (if d_Commit dec then d_CommitTimestamp dec else 0),
           tr_Success = d_Commit dec, tr_ActionStatus = actionStatus\<rparr>
   }"

definition Process_2pc ::
    "schedule \<Rightarrow> 'w data_client \<Rightarrow> api_txn \<Rightarrow> 'w \<Rightarrow> ((err + txn_result) \<times> 'w) option" where
  "Process_2pc sc cl t w = do {
     (r, w1) \<leftarrow> prepare_2pc sc cl t w;
     (case r of
        Inl e \<Rightarrow> Some (Inl e, w1)
      | Inr status \<Rightarrow>
          if length status = 1 then do {
            x \<leftarrow> mget status (id_PrincipalPid (at_id t));
            s \<leftarrow> x;
            Some (Inr \<lparr>tr_Id = ToProto (at_id t), tr_Timestamp = ts_Timestamp s, tr_Success = False,
                       tr_ActionStatus = nil_map (ts_ActionStatus s)\<rparr>, w1)
          }
          else do {
            dec \<leftarrow> decide_2pc (at_id t) status;
            (if \<not> d_Commit dec then do {
               w2 \<leftarrow> abort_2pc sc cl t status w1;
               res \<leftarrow> aggregateResults_2pc dec status;
               Some (Inr res, w2)
             }
             else do {
               (s, w2) \<leftarrow> dc_StoreDecision cl dec w1;
               (case s of
                  Inl e \<Rightarrow> do { w3 \<leftarrow> abort_2pc sc cl t status w2; Some (Inl e, w3) }
                | Inr x \<Rightarrow>
                    if ts_State x \<noteq> Decided then Some (Inl (OtherError ''2pc txn failed with state''), w2)
                    else do {
                      (r, w3) \<leftarrow> commit_2pc sc cl dec t w2;
                      (case r of
                         Inl e \<Rightarrow> Some (Inl e, w3)
                       | Inr status' \<Rightarrow> do {
                           res \<leftarrow> aggregateResults_2pc dec status';
                           Some (Inr res, w3)
                         })
                    })
             })
          })
   }"

section \<open>Read-only transactions\<close>

definition prepare_read_only ::
    "schedule \<Rightarrow> 'w data_client \<Rightarrow> api_txn \<Rightarrow> 'w \<Rightarrow> ((err + status_map) \<times> 'w) option" where
  "prepare_read_only sc cl t w = do {
     (rs, w1) \<leftarrow> gather (\<lambda>pid. dc_Prepare cl (prepare_request_for True t pid))
                   (sc 0 (map fst (at_participantActions t))) w;
     let (status, errs) = handle_all (take (ParticipantCount t) rs) ([], []);
     (if length errs > 0 then Some (Inl (OtherError ''participants failed''), w1) else Some (Inr status, w1))
   }"

definition decide_read_only :: "status_map \<Rightarrow> (u64 \<times> bool) option" where
  "decide_read_only status = decide_loop status 0"

definition commit_read_only ::
    "schedule \<Rightarrow> 'w data_client \<Rightarrow> u64 \<Rightarrow> api_txn \<Rightarrow> 'w \<Rightarrow> ((err + status_map) \<times> 'w) option" where
  "commit_read_only sc cl commitTimestamp t w = do {
     (rs, w1) \<leftarrow> gather (\<lambda>pid. dc_Commit cl (commit_request_for True commitTimestamp t pid))
                   (sc 1 (map fst (at_participantActions t))) w;
     let (status, errs) = handle_committed (take (ParticipantCount t) rs) ([], []);
     (if length errs > 0 then Some (Inl (OtherError ''participants failed''), w1) else Some (Inr status, w1))
   }"

definition aggregateResults_read_only :: "api_txn \<Rightarrow> bool \<Rightarrow> u64 \<Rightarrow> status_map \<Rightarrow> txn_result option" where
  "aggregateResults_read_only t commit commitTimestamp status = do {
     actionStatus \<leftarrow> collect_actions status [];
     Some \<lparr>tr_Id = ToProto (at_id t), tr_Timestamp = (if commit then commitTimestamp else 0),
           tr_Success = commit, tr_ActionStatus = actionStatus\<rparr>
   }"

definition Process_read_only ::
    "schedule \<Rightarrow> 'w data_client \<Rightarrow> api_txn \<Rightarrow> 'w \<Rightarrow> ((err + txn_result) \<times> 'w) option" where
  "Process_read_only sc cl t w = do {
     (r, w1) \<leftarrow> prepare_read_only sc cl t w;
     (case r of
        Inl e \<Rightarrow> Some (Inl e, w1)
      | Inr status \<Rightarrow> do {
          (commitTimestamp, commit) \<leftarrow> decide_read_only status;
          (if \<not> commit then do {
             res \<leftarrow> aggregateResults_read_only t commit commitTimestamp status;
             Some (Inr res, w1)
           }
           else do {
             (r, w2) \<leftarrow> commit_read_only sc cl commitTimestamp t w1;
             (case r of
                Inl e \<Rightarrow> Some (Inl e, w2)
              | Inr status' \<Rightarrow> do {
                  res \<leftarrow> aggregateResults_read_only t commit commitTimestamp status';
                  Some (Inr res, w2)
                })
           })
        })
   }"

section \<open>Snapshot reads\<close>

definition autocommit_request_for :: "api_txn \<Rightarrow> u32 \<Rightarrow> action list \<Rightarrow> autocommit_request" where
  "autocommit_request_for t pid actions =
     \<lparr>ar_PartitionId = pid,
      ar_Txn = \<lparr>t_Id = ToProto (at_id t), t_Actions = actions, t_ParticipantPids = []\<rparr>,
      ar_ReadTimestamp = at_readTimestamp t\<rparr>"

definition autocommit_read_snapshot ::
    "schedule \<Rightarrow> 'w data_client \<Rightarrow> api_txn \<Rightarrow> 'w \<Rightarrow> ((err + status_map) \<times> 'w) option" where
  "autocommit_read_snapshot sc cl t w = do {
     (rs, w1) \<leftarrow> gather (\<lambda>pid. dc_Autocommit cl (autocommit_request_for t pid (actions_of t pid)))
                   (sc 0 (map fst (at_participantActions t))) w;
     let (status, errs) = handle_all (take (ParticipantCount t) rs) ([], []);
     (if length errs > 0 then Some (Inl (OtherError ''participants failed''), w1) else Some (Inr status, w1))
   }"

definition aggregateResults_read_snapshot :: "api_txn \<Rightarrow> status_map \<Rightarrow> txn_result option" where
  "aggregateResults_read_snapshot t status = do {
     actionStatus \<leftarrow> collect_actions status [];
     Some \<lparr>tr_Id = ToProto (at_id t), tr_Timestamp = at_readTimestamp t, tr_Success = True,
           tr_ActionStatus = actionStatus\<rparr>
   }"

definition Process_read_snapshot ::
    "schedule \<Rightarrow> 'w data_client \<Rightarrow> api_txn \<Rightarrow> 'w \<Rightarrow> ((err + txn_result) \<times> 'w) option" where
  "Process_read_snapshot sc cl t w = do {
     (r, w1) \<leftarrow> autocommit_read_snapshot sc cl t w;
     (case r of
        Inl e \<Rightarrow> Some (Inl e, w1)
      | Inr status \<Rightarrow> do { res \<leftarrow> aggregateResults_read_snapshot t status; Some (Inr res, w1) })
   }"

section \<open>The processor\<close>

definition Processor_autocommit ::
    "'w processor \<Rightarrow> api_txn \<Rightarrow> 'w \<Rightarrow> ((err + txn_result) \<times> 'w) option" where
  "Processor_autocommit p t w = do {
     let actions = (case GetSingleMapKey (at_participantActions t) of Some (_, as) \<Rightarrow> as | None \<Rightarrow> []);
     (r, w1) \<leftarrow> dc_Autocommit (pc_client p) (autocommit_request_for t (id_PrincipalPid (at_id t)) actions) w;
     (case r of
        Inl e \<Rightarrow> Some (Inl e, w1)
      | Inr status \<Rightarrow>
          Some (Inr \<lparr>tr_Id = ToProto (at_id t), tr_Timestamp = ts_Timestamp status,
                     tr_Success = (ts_State status = Committed),
                     tr_ActionStatus = nil_map (ts_ActionStatus status)\<rparr>, w1))
   }"

definition Process ::
    "schedule \<Rightarrow> 'w processor \<Rightarrow> api_txn \<Rightarrow> 'w \<Rightarrow> ((err + txn_result) \<times> 'w) option" where
  "Process sc p t w =
     (let readOnly = Api_IsReadOnly t in
      if \<not> readOnly \<and> at_readTimestamp t \<noteq> 0
      then Some (Inl (OtherError ''snapshot read timestamp invalid for read-write txn''), w)
      else if ParticipantCount t = 0 then Some (Inl (OtherError ''transaction is empty''), w)
      else if ParticipantCount t = 1 then Processor_autocommit p t w
      else if \<not> readOnly then Process_2pc sc (pc_client p) t w
      else if at_readTimestamp t = 0 then Process_read_only sc (pc_client p) t w
      else Process_read_snapshot sc (pc_client p) t w)"

end
