(* ===== verification/Api_Protocol.thy ===== *)
theory Api_Protocol
  imports Api_Txn "HOL-Library.Multiset"
begin

text \<open>
  What the two-phase commit coordinator of \<^verbatim>\<open>src/internal/api/server/txn/processor_2pc.go\<close> does on any
  data servers and any network: the order of its calls, when it commits, what its result says about
  the answers, and when it blocks. The calls are observed through a client that writes down every
  request with its answer.
\<close>

section \<open>Observing the calls\<close>

datatype call =
    Call_Autocommit autocommit_request
  | Call_Prepare prepare_request
  | Call_Commit commit_request
  | Call_Abort abort_request
  | Call_StoreDecision decision

type_synonym event = "call \<times> (err + txn_status)"

definition log_call ::
    "call \<Rightarrow> ('w \<Rightarrow> ((err + txn_status) \<times> 'w) option) \<Rightarrow> 'w \<times> event list \<Rightarrow> ((err + txn_status) \<times> ('w \<times> event list)) option" where
  "log_call c f x = do { (r, w) \<leftarrow> f (fst x); Some (r, (w, snd x @ [(c, r)])) }"

definition logged :: "'w data_client \<Rightarrow> ('w \<times> event list) data_client" where
  "logged cl =
     \<lparr>dc_Autocommit = \<lambda>req. log_call (Call_Autocommit req) (dc_Autocommit cl req),
      dc_Prepare = \<lambda>req. log_call (Call_Prepare req) (dc_Prepare cl req),
      dc_Commit = \<lambda>req. log_call (Call_Commit req) (dc_Commit cl req),
      dc_Abort = \<lambda>req. log_call (Call_Abort req) (dc_Abort cl req),
      dc_StoreDecision = \<lambda>dec. log_call (Call_StoreDecision dec) (dc_StoreDecision cl dec)\<rparr>"

lemma logged_sel [simp]:
  "dc_Prepare (logged cl) req = log_call (Call_Prepare req) (dc_Prepare cl req)"
  "dc_Commit (logged cl) creq = log_call (Call_Commit creq) (dc_Commit cl creq)"
  "dc_Abort (logged cl) areq = log_call (Call_Abort areq) (dc_Abort cl areq)"
  "dc_StoreDecision (logged cl) dec = log_call (Call_StoreDecision dec) (dc_StoreDecision cl dec)"
  by (simp_all add: logged_def)

lemma log_call_log: "log_call c f x = Some (r, y) \<Longrightarrow> snd y = snd x @ [(c, r)]"
  by (auto simp: log_call_def split: bind_splits)

definition is_abort :: "event \<Rightarrow> bool" where
  "is_abort e = (case fst e of Call_Abort _ \<Rightarrow> True | _ \<Rightarrow> False)"

definition is_commit :: "event \<Rightarrow> bool" where
  "is_commit e = (case fst e of Call_Commit _ \<Rightarrow> True | _ \<Rightarrow> False)"

definition is_store :: "event \<Rightarrow> bool" where
  "is_store e = (case fst e of Call_StoreDecision _ \<Rightarrow> True | _ \<Rightarrow> False)"

lemmas event_defs = is_abort_def is_commit_def is_store_def

text \<open>A schedule runs every call it is given exactly once.\<close>

definition permuting :: "schedule \<Rightarrow> bool" where
  "permuting sc \<longleftrightarrow> (\<forall>n xs. mset (sc n xs) = mset xs)"

lemma permuting_set: "permuting sc \<Longrightarrow> set (sc n xs) = set xs"
  unfolding permuting_def using mset_eq_setD by blast

lemma permuting_length: "permuting sc \<Longrightarrow> length (sc n xs) = length xs"
  unfolding permuting_def using mset_eq_length by blast

lemma permuting_distinct: "permuting sc \<Longrightarrow> distinct (sc n xs) = distinct xs"
  unfolding permuting_def using mset_eq_imp_distinct_iff by blast

text \<open>Transactions as \<open>Append\<close> builds them: distinct partitions, the principal among them.\<close>

definition txn_wf :: "api_txn \<Rightarrow> bool" where
  "txn_wf t \<longleftrightarrow> gomap_wf (at_participantActions t) \<and>
     (at_participantActions t \<noteq> [] \<longrightarrow> id_PrincipalPid (at_id t) \<in> fst ` set (at_participantActions t))"

abbreviation participants :: "api_txn \<Rightarrow> u32 set" where
  "participants t \<equiv> fst ` set (at_participantActions t)"

abbreviation principal :: "api_txn \<Rightarrow> u32" where
  "principal t \<equiv> id_PrincipalPid (at_id t)"

lemma others_set: "set (others t) = participants t - {principal t}"
  by (auto simp: others_def)

lemma distinct_filter_neq: "distinct xs \<Longrightarrow> x \<in> set xs \<Longrightarrow> length (filter (\<lambda>y. y \<noteq> x) xs) = length xs - 1"
proof (induction xs)
  case (Cons a xs)
  show ?case
  proof (cases "a = x")
    case True
    with Cons.prems have "filter (\<lambda>y. y \<noteq> x) xs = xs" by (auto intro: filter_True)
    with True show ?thesis by simp
  next
    case False
    with Cons show ?thesis by (cases xs) auto
  qed
qed simp

lemma others_length:
  "txn_wf t \<Longrightarrow> at_participantActions t \<noteq> [] \<Longrightarrow> length (others t) = ParticipantCount t - 1"
  unfolding others_def ParticipantCount_def txn_wf_def gomap_wf_def
  by (subst distinct_filter_neq) auto

section \<open>Gathering answers\<close>

lemma gather_log:
  assumes "gather (\<lambda>pid. log_call (c pid) (f pid)) pids x = Some (rs, y)"
  shows "map fst rs = pids" "snd y = snd x @ map (\<lambda>(pid, r). (c pid, r)) rs"
proof -
  have "map fst rs = pids \<and> snd y = snd x @ map (\<lambda>(pid, r). (c pid, r)) rs"
    using assms
  proof (induction pids arbitrary: x rs)
    case (Cons pid pids)
    then obtain r x1 rs' where x1: "log_call (c pid) (f pid) x = Some (r, x1)"
      "gather (\<lambda>pid. log_call (c pid) (f pid)) pids x1 = Some (rs', y)" "rs = (pid, r) # rs'"
      by (auto split: bind_splits)
    from Cons.IH [OF x1(2)] log_call_log [OF x1(1)] x1(3) show ?case by simp
  qed simp
  then show "map fst rs = pids" "snd y = snd x @ map (\<lambda>(pid, r). (c pid, r)) rs" by auto
qed

lemma gather_extends:
  assumes "gather f pids x = Some (rs, y)"
    and "\<And>pid x r y. f pid x = Some (r, y) \<Longrightarrow> \<exists>es. snd y = snd x @ es \<and> list_all P es"
  shows "\<exists>es. snd y = snd x @ es \<and> list_all P es"
  using assms(1)
proof (induction pids arbitrary: x rs)
  case (Cons pid pids)
  then obtain r x1 rs' where x1: "f pid x = Some (r, x1)" "gather f pids x1 = Some (rs', y)"
    by (auto split: bind_splits)
  obtain es es' where "snd x1 = snd x @ es" "list_all P es" "snd y = snd x1 @ es'" "list_all P es'"
    using assms(2) [OF x1(1)] Cons.IH [OF x1(2)] by blast
  then show ?case by (intro exI [of _ "es @ es'"]) simp
qed simp

lemma handle_all_errs:
  "handle_all rs (status, errs) = (status', errs') \<Longrightarrow>
    (errs' = [] \<longleftrightarrow> errs = [] \<and> (\<forall>(pid, r) \<in> set rs. \<exists>s. r = Inr s))"
proof (induction rs arbitrary: status errs)
  case (Cons x rs)
  obtain p r where x: "x = (p, r)" by (cases x)
  with Cons.prems have "errs' = [] \<longleftrightarrow> (case r of Inl e \<Rightarrow> errs @ [e] | Inr _ \<Rightarrow> errs) = [] \<and>
      (\<forall>(pid, r) \<in> set rs. \<exists>s. r = Inr s)"
    by (intro Cons.IH) simp
  with x show ?case by (cases r) auto
qed simp

lemma handle_all_keys:
  "handle_all rs (status, errs) = (status', errs') \<Longrightarrow> fst ` set status' = fst ` set status \<union> fst ` set rs"
proof (induction rs arbitrary: status errs)
  case (Cons x rs)
  obtain p r where x: "x = (p, r)" by (cases x)
  with Cons.prems have "fst ` set status' = fst ` set (mput p (answer_status r) status) \<union> fst ` set rs"
    using Cons.IH by simp
  with x show ?case by (simp add: dom_update)
qed simp

lemma handle_all_wf:
  "handle_all rs (status, errs) = (status', errs') \<Longrightarrow> gomap_wf status \<Longrightarrow> gomap_wf status'"
  by (induction rs arbitrary: status errs) auto

lemma handle_all_get:
  assumes "handle_all rs (status, errs) = (status', errs')" "distinct (map fst rs)"
  shows "mget status' pid = (case map_of rs pid of Some r \<Rightarrow> Some (answer_status r) | None \<Rightarrow> mget status pid)"
  using assms
proof (induction rs arbitrary: status errs)
  case (Cons x rs)
  obtain p r where x: "x = (p, r)" by (cases x)
  then have "p \<notin> fst ` set rs" using Cons.prems(2) by simp
  then have "map_of rs p = None" by (simp add: map_of_eq_None_iff)
  with Cons x show ?case by (auto split: option.splits)
qed simp

lemma handle_committed_errs:
  "handle_committed rs (status, errs) = (status', errs') \<Longrightarrow>
    (errs' = [] \<longleftrightarrow> errs = [] \<and> (\<forall>(pid, r) \<in> set rs. \<exists>s. r = Inr s \<and> ts_State s = Committed))"
proof (induction rs arbitrary: status errs)
  case (Cons x rs)
  then show ?case by (cases x) (auto split: sum.splits if_splits)
qed simp

lemma take_all_answers:
  assumes "txn_wf t" "at_participantActions t \<noteq> []" "permuting sc" "map fst rs = sc n (others t)"
  shows "take (ParticipantCount t - 1) rs = rs"
proof -
  have "length rs = length (others t)" using assms(4) permuting_length [OF assms(3)] by (metis length_map)
  then show ?thesis using others_length [OF assms(1,2)] by simp
qed

section \<open>The decision\<close>

lemma decide_loop_commit:
  "decide_loop status c = Some (ts, True) \<Longrightarrow>
    c \<le> ts \<and> (\<forall>(pid, x) \<in> set status. \<exists>s. x = Some s \<and> ts_State s = Prepared \<and> ts_Timestamp s \<le> ts)"
  by (induction status c rule: decide_loop.induct) (fastforce split: bind_splits if_splits)+

lemma decide_loop_value:
  "\<forall>(pid, x) \<in> set status. \<exists>s. x = Some s \<and> ts_State s = Prepared \<Longrightarrow>
    decide_loop status c = Some (fold max (map (\<lambda>(_, x). ts_Timestamp (the x)) status) c, True)"
  by (induction status c rule: decide_loop.induct) (auto simp: max.commute)

lemma decide_loop_refuse:
  assumes "\<forall>(pid, x) \<in> set status. x \<noteq> None" "\<exists>(pid, x) \<in> set status. \<exists>s. x = Some s \<and> ts_State s \<noteq> Prepared"
  shows "decide_loop status c = Some (0, False)"
  using assms
proof (induction status arbitrary: c)
  case (Cons e status)
  obtain p s where e: "e = (p, Some s)" using Cons.prems(1) by (cases e) auto
  show ?case
  proof (cases "ts_State s = Prepared")
    case True
    then have "\<exists>(pid, x) \<in> set status. \<exists>s. x = Some s \<and> ts_State s \<noteq> Prepared" using Cons.prems(2) e by auto
    then have "decide_loop status (max c (ts_Timestamp s)) = Some (0, False)"
      using Cons.prems(1) by (intro Cons.IH) auto
    then show ?thesis using e True by simp
  qed (simp add: e)
qed simp

section \<open>Phases as logs\<close>

lemma abort_2pc_log:
  assumes "abort_2pc sc (logged cl) t status x = Some y"
  shows "\<exists>es. snd y = snd x @ es \<and> list_all is_abort es"
proof -
  have inv: "\<exists>es. snd y = snd x @ es \<and> list_all is_abort es"
    if "invoke_abort (logged cl) t pid x = Some (r, y)" for pid x r y
    using that by (auto simp: invoke_abort_def is_abort_def split: bind_splits dest!: log_call_log)
  obtain rs x1 where x1: "gather (invoke_abort (logged cl) t) (sc 2 (to_abort t status)) x = Some (rs, x1)"
    using assms by (auto simp: abort_2pc_def Let_def split: bind_splits)
  obtain es where es: "snd x1 = snd x @ es" "list_all is_abort es"
    using gather_extends [OF x1, of is_abort] inv by blast
  consider "y = x1" | msgs where "invoke_abort (logged cl) t (principal t) x1 = Some (msgs, y)"
    using assms x1 by (auto simp: abort_2pc_def Let_def split: bind_splits if_splits)
  then show ?thesis
  proof cases
    case 1 with es show ?thesis by blast
  next
    case 2
    then obtain es' where "snd y = snd x1 @ es'" "list_all is_abort es'" using inv by blast
    with es show ?thesis by (intro exI [of _ "es @ es'"]) simp
  qed
qed

definition prep_event :: "api_txn \<Rightarrow> u32 \<times> (err + txn_status) \<Rightarrow> event" where
  "prep_event t = (\<lambda>(pid, r). (Call_Prepare (prepare_request_for False t pid), r))"

definition commit_event :: "u64 \<Rightarrow> api_txn \<Rightarrow> u32 \<times> (err + txn_status) \<Rightarrow> event" where
  "commit_event ts t = (\<lambda>(pid, r). (Call_Commit (commit_request_for False ts t pid), r))"

text \<open>What the first phase leaves behind, in its three outcomes.\<close>

definition phase1 :: "api_txn \<Rightarrow> err + status_map \<Rightarrow> event list \<Rightarrow> bool" where
  "phase1 t r es \<longleftrightarrow> (case r of
       Inl _ \<Rightarrow> list_all (\<lambda>e. \<not> is_commit e \<and> \<not> is_store e) es
     | Inr status \<Rightarrow>
         (\<exists>s. ts_State s \<noteq> Prepared \<and> status = [(principal t, Some s)] \<and> es = [prep_event t (principal t, Inr s)]) \<or>
         (\<exists>rs. es = map (prep_event t) rs \<and> fst ` set rs = participants t \<and> distinct (map fst rs) \<and>
            gomap_wf status \<and> fst ` set status = participants t \<and> length status = ParticipantCount t \<and>
            (\<forall>(pid, r) \<in> set rs. \<exists>s. r = Inr s \<and> mget status pid = Some (Some s))))"

lemma not_commit_simps [simp]:
  "\<not> is_commit (prep_event t x)" "\<not> is_store (prep_event t x)" "\<not> is_abort (prep_event t x)"
  "is_commit (commit_event ts t x)" "\<not> is_abort (commit_event ts t x)"
  by (cases x; simp add: event_defs prep_event_def commit_event_def)+

lemma abort_not_commit: "list_all is_abort es \<Longrightarrow> list_all (\<lambda>e. \<not> is_commit e \<and> \<not> is_store e) es"
  by (auto simp: list_all_iff event_defs split: call.splits)

text \<open>The answers of the other participants, merged into the map that holds the principal's.\<close>

lemma prepared_status:
  assumes "handle_all rs ([(principal t, Some s)], []) = (status, [])" "map fst rs = sc n (others t)"
    and "txn_wf t" "at_participantActions t \<noteq> []" "permuting sc"
  shows "phase1 t (Inr status) (map (prep_event t) ((principal t, Inr s) # rs))"
proof -
  let ?p = "principal t"
  have keys: "fst ` set rs = participants t - {?p}"
    using assms(2) permuting_set [OF assms(5), of n "others t"] others_set [of t] by (metis list.set_map)
  have pin: "?p \<in> participants t" using assms(3,4) by (simp add: txn_wf_def)
  have dist: "distinct (map fst rs)" unfolding assms(2) permuting_distinct [OF assms(5)]
    using assms(3) by (auto simp: others_def txn_wf_def gomap_wf_def)
  have wf: "gomap_wf status" using handle_all_wf [OF assms(1)] by (simp add: gomap_wf_def)
  have sk: "fst ` set status = participants t" using handle_all_keys [OF assms(1)] keys pin by auto
  have "length status = card (fst ` set status)" using wf
    by (metis distinct_card gomap_wf_def length_map list.set_map)
  also have "\<dots> = ParticipantCount t" unfolding sk using assms(3)
    by (metis ParticipantCount_def distinct_card gomap_wf_def length_map list.set_map txn_wf_def)
  finally have len: "length status = ParticipantCount t" .
  have all: "\<exists>s. r = Inr s" if "(pid, r) \<in> set rs" for pid r
    using handle_all_errs [OF assms(1)] that by auto
  have "\<exists>s'. r' = Inr s' \<and> mget status pid = Some (Some s')" if "(pid, r') \<in> set ((?p, Inr s) # rs)" for pid r'
  proof (cases "(pid, r') \<in> set rs")
    case True
    then obtain s' where "r' = Inr s'" using all by blast
    with True dist show ?thesis using handle_all_get [OF assms(1) dist, of pid] by (simp add: answer_status_def)
  next
    case False
    with that have "pid = ?p" "r' = Inr s" by auto
    moreover have "map_of rs ?p = None" using keys by (auto simp: map_of_eq_None_iff)
    ultimately show ?thesis using handle_all_get [OF assms(1) dist, of pid] by simp
  qed
  then have "\<forall>(pid, r) \<in> set ((?p, Inr s) # rs). \<exists>s. r = Inr s \<and> mget status pid = Some (Some s)" by blast
  moreover have "fst ` set ((?p, Inr s) # rs) = participants t" "distinct (map fst ((?p, Inr s) # rs))"
    using keys pin dist by auto
  ultimately show ?thesis using wf sk len unfolding phase1_def sum.case
    by (intro disjI2 exI [of _ "(?p, Inr s) # rs"] conjI) (rule refl | assumption)+
qed

lemma prepare_2pc_log:
  assumes "prepare_2pc sc (logged cl) t x = Some (r, y)" "txn_wf t" "at_participantActions t \<noteq> []" "permuting sc"
  shows "\<exists>es. snd y = snd x @ es \<and> phase1 t r es"
proof -
  let ?p = "principal t"
  obtain r0 x1 where x1: "log_call (Call_Prepare (prepare_request_for False t ?p))
      (dc_Prepare cl (prepare_request_for False t ?p)) x = Some (r0, x1)"
    using assms(1) by (auto simp: prepare_2pc_def Let_def split: bind_splits)
  then have e0: "snd x1 = snd x @ [prep_event t (?p, r0)]" by (auto dest: log_call_log simp: prep_event_def)
  consider e where "r0 = Inl e" | s where "r0 = Inr s" "ts_State s \<noteq> Prepared" | s where "r0 = Inr s" "ts_State s = Prepared"
    by (cases r0) auto
  then show ?thesis
  proof cases
    case 1
    with assms(1) x1 e0 show ?thesis by (auto simp: prepare_2pc_def Let_def phase1_def)
  next
    case 2
    with assms(1) x1 e0 show ?thesis by (auto simp: prepare_2pc_def Let_def phase1_def)
  next
    case (3 s)
    obtain rs x2 where x2: "gather (\<lambda>pid. dc_Prepare (logged cl) (prepare_request_for False t pid)) (sc 0 (others t)) x1 = Some (rs, x2)"
      using assms(1) x1 3 by (auto simp: prepare_2pc_def Let_def split: bind_splits)
    note g = gather_log [OF x2 [unfolded logged_sel]]
    have es: "snd x2 = snd x @ map (prep_event t) ((?p, Inr s) # rs)" using e0 g(2) 3(1) by (auto simp: prep_event_def)
    obtain status errs where h: "handle_all rs ([(?p, Some s)], []) = (status, errs)" by fastforce
    have take: "take (ParticipantCount t - 1) rs = rs" by (rule take_all_answers [OF assms(2,3,4) g(1)])
    show ?thesis
    proof (cases "errs = []")
      case False
      then have y: "abort_2pc sc (logged cl) t status x2 = Some y" "r = Inl (OtherError ''participants failed'')"
        using assms(1) x1 3 x2 h take by (auto simp: prepare_2pc_def Let_def split: bind_splits)
      obtain es' where es': "snd y = snd x2 @ es'" "list_all is_abort es'" using abort_2pc_log [OF y(1)] by blast
      show ?thesis using es es'(1) abort_not_commit [OF es'(2)] y(2)
        by (intro exI [of _ "map (prep_event t) ((?p, Inr s) # rs) @ es'"]) (auto simp: phase1_def list_all_iff)
    next
      case True
      then have "y = x2" "r = Inr status"
        using assms(1) x1 3 x2 h take by (auto simp: prepare_2pc_def Let_def split: bind_splits)
      with es prepared_status [OF h [unfolded True] g(1) assms(2,3,4)] show ?thesis by blast
    qed
  qed
qed

text \<open>The second phase: the other participants first, the principal only after all of them committed.\<close>

definition committed_answer :: "u32 \<times> (err + txn_status) \<Rightarrow> bool" where
  "committed_answer = (\<lambda>(_, r). case r of Inr s \<Rightarrow> ts_State s = Committed | Inl _ \<Rightarrow> False)"

definition phase2 :: "api_txn \<Rightarrow> u64 \<Rightarrow> err + status_map \<Rightarrow> event list \<Rightarrow> bool" where
  "phase2 t ts r es \<longleftrightarrow> (\<exists>rs. fst ` set rs = participants t - {principal t} \<and>
     (es = map (commit_event ts t) rs \<and> (\<exists>e. r = Inl e) \<or>
      (\<exists>r0. es = map (commit_event ts t) (rs @ [(principal t, r0)]) \<and> list_all committed_answer rs \<and>
        ((\<exists>status. r = Inr status) \<longrightarrow> committed_answer (principal t, r0)))))"

lemma handle_committed_answers:
  "handle_committed rs (status, errs) = (status', errs') \<Longrightarrow> errs' = [] \<longleftrightarrow> errs = [] \<and> list_all committed_answer rs"
proof (induction rs arbitrary: status errs)
  case (Cons x rs)
  obtain p r where x: "x = (p, r)" by (cases x)
  show ?case
  proof (cases "committed_answer x")
    case True
    then obtain s where "r = Inr s" "ts_State s = Committed" using x by (auto simp: committed_answer_def split: sum.splits)
    with Cons x True show ?thesis by simp
  next
    case False
    then obtain status1 e where "handle_committed rs (status1, errs @ [e]) = (status', errs')"
      using Cons.prems x by (auto simp: committed_answer_def split: sum.splits)
    with Cons.IH False show ?thesis by simp
  qed
qed simp

lemma commit_2pc_log:
  assumes "commit_2pc sc (logged cl) dec t x = Some (r, y)" "txn_wf t" "at_participantActions t \<noteq> []" "permuting sc"
    and "PrincipalPid (d_Id dec) = principal t"
  shows "\<exists>es. snd y = snd x @ es \<and> phase2 t (d_CommitTimestamp dec) r es"
proof -
  let ?ts = "d_CommitTimestamp dec"
  obtain rs x1 where x1: "gather (\<lambda>pid. dc_Commit (logged cl) (commit_request_for False ?ts t pid)) (sc 1 (others t)) x = Some (rs, x1)"
    using assms(1) by (auto simp: commit_2pc_def Let_def split: bind_splits)
  note g = gather_log [OF x1 [unfolded logged_sel]]
  have es: "snd x1 = snd x @ map (commit_event ?ts t) rs" using g(2) by (simp add: commit_event_def)
  have keys: "fst ` set rs = participants t - {principal t}"
    using g(1) permuting_set [OF assms(4), of 1 "others t"] others_set [of t] by (metis list.set_map)
  have take: "take (ParticipantCount t - 1) rs = rs" by (rule take_all_answers [OF assms(2,3,4) g(1)])
  obtain status errs where h: "handle_committed rs ([], []) = (status, errs)" by fastforce
  show ?thesis
  proof (cases "errs = []")
    case False
    then have "y = x1" "\<exists>e. r = Inl e" using assms(1) x1 h take by (auto simp: commit_2pc_def Let_def)
    with es keys show ?thesis unfolding phase2_def by blast
  next
    case True
    then obtain r0 x2 status2 errs2 where x2:
      "log_call (Call_Commit (commit_request_for False ?ts t (principal t))) (dc_Commit cl (commit_request_for False ?ts t (principal t))) x1 = Some (r0, x2)"
      "handle_committed [(principal t, r0)] (status, []) = (status2, errs2)"
      "y = x2" "r = (if errs2 = [] then Inr status2 else Inl (OtherError ''principal failed''))"
      using assms(1,5) x1 h take
      by (auto simp: commit_2pc_def Let_def simp del: handle_committed.simps split: bind_splits if_splits prod.splits)
    have "snd y = snd x @ map (commit_event ?ts t) (rs @ [(principal t, r0)])"
      using es log_call_log [OF x2(1)] x2(3) by (simp add: commit_event_def)
    moreover have "list_all committed_answer rs" using handle_committed_answers [OF h] True by simp
    moreover have "(\<exists>status. r = Inr status) \<longrightarrow> committed_answer (principal t, r0)"
      using handle_committed_answers [OF x2(2)] x2(4) by (auto split: if_splits)
    ultimately show ?thesis using keys unfolding phase2_def by blast
  qed
qed

section \<open>The shape of a run\<close>

text \<open>
  A run of the coordinator is one of four: it stopped before a decision; the decision could not be
  stored and an abort followed; the principal had timed the transaction out; or it committed.
\<close>

definition all_prepared :: "api_txn \<Rightarrow> u64 \<Rightarrow> (u32 \<times> (err + txn_status)) list \<Rightarrow> bool" where
  "all_prepared t ts rs \<longleftrightarrow> fst ` set rs = participants t \<and>
     (\<forall>(pid, r) \<in> set rs. \<exists>s. r = Inr s \<and> ts_State s = Prepared \<and> ts_Timestamp s \<le> ts)"

definition after_store :: "api_txn \<Rightarrow> err + txn_result \<Rightarrow> u64 \<Rightarrow> err + txn_status \<Rightarrow> event list \<Rightarrow> bool" where
  "after_store t r ts ans es \<longleftrightarrow>
     (\<exists>e. ans = Inl e \<and> r = Inl e \<and> list_all is_abort es) \<or>
     (\<exists>s e. ans = Inr s \<and> ts_State s \<noteq> Decided \<and> r = Inl e \<and> es = []) \<or>
     (\<exists>s r2. ans = Inr s \<and> ts_State s = Decided \<and> phase2 t ts r2 es \<and>
        (\<forall>res. r = Inr res \<longrightarrow> (\<exists>status. r2 = Inr status) \<and> tr_Success res \<and> tr_Timestamp res = ts))"

definition run_shape :: "api_txn \<Rightarrow> err + txn_result \<Rightarrow> event list \<Rightarrow> bool" where
  "run_shape t r es \<longleftrightarrow>
     list_all (\<lambda>e. \<not> is_commit e \<and> \<not> is_store e) es \<and> (\<forall>res. r = Inr res \<longrightarrow> \<not> tr_Success res) \<or>
     (\<exists>rs dec ans es'. es = map (prep_event t) rs @ (Call_StoreDecision dec, ans) # es' \<and>
        d_Commit dec \<and> all_prepared t (d_CommitTimestamp dec) rs \<and> after_store t r (d_CommitTimestamp dec) ans es')"

lemma decide_all_prepared:
  assumes "phase1 t (Inr status) es" "length status \<noteq> 1" "decide_2pc i status = Some dec" "d_Commit dec"
  shows "\<exists>rs. es = map (prep_event t) rs \<and> all_prepared t (d_CommitTimestamp dec) rs"
proof -
  obtain rs where rs: "es = map (prep_event t) rs" "fst ` set rs = participants t" "gomap_wf status"
    "\<forall>(pid, r) \<in> set rs. \<exists>s. r = Inr s \<and> mget status pid = Some (Some s)"
    using assms(1,2) unfolding phase1_def by auto
  have d: "decide_loop status 0 = Some (d_CommitTimestamp dec, True)"
    using assms(3,4) by (auto simp: decide_2pc_def split: bind_splits)
  have "\<exists>s. r = Inr s \<and> ts_State s = Prepared \<and> ts_Timestamp s \<le> d_CommitTimestamp dec" if "(pid, r) \<in> set rs" for pid r
  proof -
    obtain s where s: "r = Inr s" "mget status pid = Some (Some s)" using rs(4) \<open>(pid, r) \<in> set rs\<close> by blast
    then have "(pid, Some s) \<in> set status" by (intro map_of_SomeD)
    with decide_loop_commit [OF d] s(1) show ?thesis by fastforce
  qed
  with rs(1,2) show ?thesis unfolding all_prepared_def by blast
qed

lemma phase1_no_decision: "phase1 t (Inr status) es \<Longrightarrow> list_all (\<lambda>e. \<not> is_commit e \<and> \<not> is_store e) es"
  by (auto simp: phase1_def list_all_iff)

lemma Process_2pc_undecided:
  assumes "prepare_2pc sc (logged cl) t x = Some (Inr status, x1)" "length status \<noteq> 1"
    and "decide_2pc (at_id t) status = Some dec" "\<not> d_Commit dec"
    and "Process_2pc sc (logged cl) t x = Some (r, y)"
  shows "\<exists>res. abort_2pc sc (logged cl) t status x1 = Some y \<and> r = Inr res \<and> \<not> tr_Success res"
  using assms by (auto simp: Process_2pc_def aggregateResults_2pc_def split: bind_splits if_splits)

lemma Process_2pc_decided:
  assumes "prepare_2pc sc (logged cl) t x = Some (Inr status, x1)" "length status \<noteq> 1"
    and "decide_2pc (at_id t) status = Some dec" "d_Commit dec"
    and "Process_2pc sc (logged cl) t x = Some (r, y)"
  obtains ans x2 where "log_call (Call_StoreDecision dec) (dc_StoreDecision cl dec) x1 = Some (ans, x2)"
    "case ans of Inl e \<Rightarrow> abort_2pc sc (logged cl) t status x2 = Some y \<and> r = Inl e
     | Inr s \<Rightarrow> (if ts_State s \<noteq> Decided then y = x2 \<and> (\<exists>e. r = Inl e)
                 else \<exists>r2. commit_2pc sc (logged cl) dec t x2 = Some (r2, y) \<and>
                   (\<forall>res. r = Inr res \<longrightarrow> (\<exists>status. r2 = Inr status) \<and> tr_Success res \<and> tr_Timestamp res = d_CommitTimestamp dec))"
proof -
  obtain ans x2 where st: "log_call (Call_StoreDecision dec) (dc_StoreDecision cl dec) x1 = Some (ans, x2)"
    using assms by (auto simp: Process_2pc_def split: bind_splits if_splits)
  have "case ans of Inl e \<Rightarrow> abort_2pc sc (logged cl) t status x2 = Some y \<and> r = Inl e
     | Inr s \<Rightarrow> (if ts_State s \<noteq> Decided then y = x2 \<and> (\<exists>e. r = Inl e)
                 else \<exists>r2. commit_2pc sc (logged cl) dec t x2 = Some (r2, y) \<and>
                   (\<forall>res. r = Inr res \<longrightarrow> (\<exists>status. r2 = Inr status) \<and> tr_Success res \<and> tr_Timestamp res = d_CommitTimestamp dec))"
    using assms st
    by (cases ans) (auto simp: Process_2pc_def aggregateResults_2pc_def split: bind_splits if_splits sum.splits)
  then show thesis by (rule that [OF st])
qed

lemma run_shape_undecided:
  "list_all (\<lambda>e. \<not> is_commit e \<and> \<not> is_store e) es \<Longrightarrow> (\<And>res. r = Inr res \<Longrightarrow> \<not> tr_Success res) \<Longrightarrow> run_shape t r es"
  unfolding run_shape_def by blast

lemma run_shape_decided:
  assumes "all_prepared t (d_CommitTimestamp dec) rs" "d_Commit dec"
    and "(\<exists>e. ans = Inl e \<and> r = Inl e \<and> list_all is_abort es') \<or>
         (\<exists>s e. ans = Inr s \<and> ts_State s \<noteq> Decided \<and> r = Inl e \<and> es' = []) \<or>
         (\<exists>s r2. ans = Inr s \<and> ts_State s = Decided \<and> phase2 t (d_CommitTimestamp dec) r2 es' \<and>
            (\<forall>res. r = Inr res \<longrightarrow> (\<exists>status. r2 = Inr status) \<and> tr_Success res \<and> tr_Timestamp res = d_CommitTimestamp dec))"
  shows "run_shape t r (map (prep_event t) rs @ (Call_StoreDecision dec, ans) # es')"
  unfolding run_shape_def after_store_def
  by (rule disjI2, intro exI conjI, rule refl, rule assms(2), rule assms(1), rule assms(3))

lemma decided_shape:
  assumes "phase1 t (Inr status) es1" "length status \<noteq> 1" "decide_2pc (at_id t) status = Some dec" "d_Commit dec"
    and "prepare_2pc sc (logged cl) t x = Some (Inr status, x1)" "snd x1 = snd x @ es1"
    and "Process_2pc sc (logged cl) t x = Some (r, y)" "txn_wf t" "at_participantActions t \<noteq> []" "permuting sc"
  shows "\<exists>es. snd y = snd x @ es \<and> run_shape t r es"
proof -
  obtain rs where rs: "es1 = map (prep_event t) rs" "all_prepared t (d_CommitTimestamp dec) rs"
    using decide_all_prepared [OF assms(1-4)] by (elim exE conjE)
  have pp: "PrincipalPid (d_Id dec) = principal t"
    using assms(3) by (auto simp: decide_2pc_def ToProto_def split: bind_splits)
  obtain ans x2 where st: "log_call (Call_StoreDecision dec) (dc_StoreDecision cl dec) x1 = Some (ans, x2)"
    and c: "case ans of Inl e \<Rightarrow> abort_2pc sc (logged cl) t status x2 = Some y \<and> r = Inl e
     | Inr s \<Rightarrow> (if ts_State s \<noteq> Decided then y = x2 \<and> (\<exists>e. r = Inl e)
                 else \<exists>r2. commit_2pc sc (logged cl) dec t x2 = Some (r2, y) \<and>
                   (\<forall>res. r = Inr res \<longrightarrow> (\<exists>status. r2 = Inr status) \<and> tr_Success res \<and> tr_Timestamp res = d_CommitTimestamp dec))"
    by (rule Process_2pc_decided [OF assms(5,2,3,4,7)])
  have e2: "snd x2 = snd x @ es1 @ [(Call_StoreDecision dec, ans)]" using log_call_log [OF st] assms(6) by simp
  note shape = run_shape_decided [OF rs(2) assms(4), of ans r]
  have fin: ?thesis if "snd y = snd x2 @ es'" "run_shape t r (map (prep_event t) rs @ (Call_StoreDecision dec, ans) # es')" for es'
    using that e2 rs(1) by (intro exI [of _ "es1 @ (Call_StoreDecision dec, ans) # es'"]) simp
  show ?thesis
  proof (cases ans)
    case (Inl e)
    then obtain es' where "snd y = snd x2 @ es'" "list_all is_abort es'" "r = Inl e"
      using c abort_2pc_log [of sc cl t status x2 y] by auto
    then show ?thesis using Inl by (intro fin shape) auto
  next
    case (Inr s)
    show ?thesis
    proof (cases "ts_State s = Decided")
      case False
      then have "y = x2" "\<exists>e. r = Inl e" using c Inr by auto
      then show ?thesis using Inr False by (intro fin [of "[]"] shape) auto
    next
      case True
      then obtain r2 where r2: "commit_2pc sc (logged cl) dec t x2 = Some (r2, y)"
        "\<forall>res. r = Inr res \<longrightarrow> (\<exists>status. r2 = Inr status) \<and> tr_Success res \<and> tr_Timestamp res = d_CommitTimestamp dec"
        using c Inr by auto
      obtain es' where "snd y = snd x2 @ es'" "phase2 t (d_CommitTimestamp dec) r2 es'"
        using commit_2pc_log [OF r2(1) assms(8-10) pp] by (elim exE conjE)
      then show ?thesis using Inr True r2(2) by (intro fin shape) auto
    qed
  qed
qed

lemma Process_2pc_shape:
  assumes "Process_2pc sc (logged cl) t x = Some (r, y)" "txn_wf t" "at_participantActions t \<noteq> []" "permuting sc"
  shows "\<exists>es. snd y = snd x @ es \<and> run_shape t r es"
proof -
  obtain r1 x1 where x1: "prepare_2pc sc (logged cl) t x = Some (r1, x1)"
    using assms(1) by (auto simp: Process_2pc_def split: bind_splits)
  obtain es1 where es1: "snd x1 = snd x @ es1" "phase1 t r1 es1"
    using prepare_2pc_log [OF x1 assms(2-4)] by (elim exE conjE)
  show ?thesis
  proof (cases r1)
    case (Inl e)
    with assms(1) x1 have "y = x1" "r = Inl e" by (auto simp: Process_2pc_def)
    with es1 Inl show ?thesis by (intro exI [of _ es1]) (auto simp: phase1_def intro: run_shape_undecided)
  next
    case r1: (Inr status)
    note nd = phase1_no_decision [OF es1(2) [unfolded r1]]
    consider "length status = 1" | dec where "length status \<noteq> 1" "decide_2pc (at_id t) status = Some dec" "d_Commit dec"
      | dec where "length status \<noteq> 1" "decide_2pc (at_id t) status = Some dec" "\<not> d_Commit dec"
      using assms(1) x1 r1 by (auto simp: Process_2pc_def split: bind_splits if_splits)
    then show ?thesis
    proof cases
      case 1
      with assms(1) x1 r1 have "y = x1" "\<And>res. r = Inr res \<Longrightarrow> \<not> tr_Success res"
        by (auto simp: Process_2pc_def split: bind_splits)
      with es1(1) nd show ?thesis by (intro exI [of _ es1] conjI run_shape_undecided) auto
    next
      case (2 dec)
      show ?thesis by (rule decided_shape [OF es1(2) [unfolded r1] 2 x1 [unfolded r1] es1(1) assms])
    next
      case (3 dec)
      obtain res where res: "abort_2pc sc (logged cl) t status x1 = Some y" "r = Inr res" "\<not> tr_Success res"
        using Process_2pc_undecided [OF x1 [unfolded r1] 3 assms(1)] by (elim exE conjE)
      obtain es' where es': "snd y = snd x1 @ es'" "list_all is_abort es'" using abort_2pc_log [OF res(1)] by (elim exE conjE)
      then show ?thesis using es1(1) nd abort_not_commit [OF es'(2)] res(2,3)
        by (intro exI [of _ "es1 @ es'"] conjI run_shape_undecided) auto
    qed
  qed
qed

end
