(* ===== verification/Api_Props.thy ===== *)
theory Api_Props
  imports Api_Protocol
begin

text \<open>
  The properties of the two-phase commit coordinator and of the transactions it is given.
\<close>

section \<open>Building a transaction\<close>

text \<open>The transactions a server can build: a new one, then any number of appended actions.\<close>

inductive built :: "nat \<Rightarrow> api_txn \<Rightarrow> bool" where
  New: "built 0 Processor_New"
| Append: "\<lbrakk>built n t; now \<noteq> 0; actions \<noteq> []; Append hash (p :: unit processor) now key actions t = Some (as, t')\<rbrakk> \<Longrightarrow>
    built (n + length actions) t'"
| SnapshotReadAtTimestamp: "built n t \<Longrightarrow> built n (SnapshotReadAtTimestamp ts t)"
| SnapshotReadAt: "built n t \<Longrightarrow> built n (SnapshotReadAt time t)"

definition action_ids :: "api_txn \<Rightarrow> u32 list" where
  "action_ids t = concat (map (\<lambda>(_, as). map a_Id as) (at_participantActions t))"

definition building :: "nat \<Rightarrow> api_txn \<Rightarrow> bool" where
  "building n t \<longleftrightarrow> gomap_wf (at_participantActions t) \<and> at_nextActionId t = of_nat n \<and>
     mset (action_ids t) = mset (map of_nat [0..<n]) \<and> [] \<notin> snd ` set (at_participantActions t)"

lemma action_ids_put:
  assumes "gomap_wf m"
  shows "mset (concat (map (\<lambda>(_, as). map a_Id as)
      (mput pid ((case mget m pid of Some as \<Rightarrow> as | None \<Rightarrow> []) @ [a]) m))) =
    add_mset (a_Id a) (mset (concat (map (\<lambda>(_, as). map a_Id as) m)))"
  using assms by (induction m) (auto simp: gomap_wf_def)

lemma append_loop_building:
  assumes "append_loop pid actions t = (as, t')" "building n t"
  shows "building (n + length actions) t' \<and> at_id t' = at_id t \<and> at_readTimestamp t' = at_readTimestamp t \<and>
    fst ` set (at_participantActions t') = fst ` set (at_participantActions t) \<union> (if actions = [] then {} else {pid}) \<and>
    map a_Id as = map of_nat [n..<n + length actions] \<and> map a_Payload as = map a_Payload actions"
  using assms
proof (induction actions arbitrary: t n as)
  case (Cons a actions)
  let ?a = "a\<lparr>a_Id := at_nextActionId t\<rparr>"
  let ?t = "t\<lparr>at_participantActions := mput pid (actions_of t pid @ [?a]) (at_participantActions t),
              at_nextActionId := at_nextActionId t + 1\<rparr>"
  obtain as1 where as1: "append_loop pid actions ?t = (as1, t')" "as = ?a # as1"
    using Cons.prems(1) by (auto simp: Let_def split: prod.splits)
  have b: "building n t" by fact
  have "mset (action_ids ?t) = mset (map of_nat [0..<Suc n])"
    using b action_ids_put [of "at_participantActions t" pid ?a]
    by (simp add: building_def action_ids_def actions_of_def)
  moreover have "[] \<notin> snd ` set (at_participantActions ?t)"
  proof -
    have "snd ` set (mput pid v m) \<subseteq> insert v (snd ` set m)" for v and m :: "(u32, action list) gomap"
      by (induction m) auto
    from this [of "actions_of t pid @ [?a]" "at_participantActions t"] show ?thesis using b by (auto simp: building_def)
  qed
  ultimately have "building (Suc n) ?t" using b by (simp add: building_def add.commute)
  from Cons.IH [OF as1(1) this] as1(2) b show ?case
    by (auto simp: dom_update building_def upt_conv_Cons simp del: upt_Suc)
qed simp

text \<open>The identifier is chosen with the first action, from its partition.\<close>

definition identified :: "nat \<Rightarrow> api_txn \<Rightarrow> bool" where
  "identified n t \<longleftrightarrow> (if n = 0 then id_Timestamp (at_id t) = 0 \<and> at_participantActions t = []
     else id_Timestamp (at_id t) \<noteq> 0 \<and> principal t \<in> participants t)"

lemma built_building: "built n t \<Longrightarrow> building n t \<and> identified n t"
proof (induction rule: built.induct)
  case New
  show ?case by (simp add: building_def identified_def action_ids_def Processor_New_def zero_id_def)
next
  case (Append n t now actions hash p key as t')
  obtain pid t1 where t1: "append_loop pid actions t1 = (as, t')"
    "t1 = (if id_Timestamp (at_id t) = 0
       then t\<lparr>at_id := \<lparr>id_PrincipalPid = pid, id_ServerID = pc_ServerID p, id_Timestamp = now\<rparr>\<rparr> else t)"
    using Append.hyps(4) by (auto simp: Append_def Let_def split: bind_splits)
  have "building n t1" using Append.IH t1(2) by (simp add: building_def action_ids_def)
  from append_loop_building [OF t1(1) this] show ?case
    using Append.IH Append.hyps(2,3) t1(2) by (auto simp: identified_def split: if_splits)
qed (auto simp: building_def identified_def action_ids_def SnapshotReadAtTimestamp_def SnapshotReadAt_def split: option.splits)

lemma built_wf: "built n t \<Longrightarrow> txn_wf t"
  using built_building [of n t] by (auto simp: txn_wf_def building_def identified_def split: if_splits)

text \<open>
  C20: a transaction that a server builds is well formed: its partitions are distinct, its principal
  is one of them, every partition has an action, and as long as there are at most 2 to the 32
  actions no two of them share an identifier.
\<close>

theorem built_transactions_wf:
  assumes "built n t" "n \<le> 2 ^ 32"
  shows "txn_wf t \<and> [] \<notin> snd ` set (at_participantActions t) \<and> length (action_ids t) = n \<and> distinct (action_ids t)"
proof -
  have b: "building n t" using built_building [OF assms(1)] by simp
  have "inj_on (of_nat :: nat \<Rightarrow> u32) {0..<n}"
    using assms(2) by (intro inj_onI) (simp add: word_of_nat_eq_iff take_bit_nat_eq_self)
  then have "distinct (map (of_nat :: nat \<Rightarrow> u32) [0..<n])" by (simp add: distinct_map)
  then have "distinct (action_ids t)" using b mset_eq_imp_distinct_iff unfolding building_def by blast
  moreover have "length (action_ids t) = length (map (of_nat :: nat \<Rightarrow> u32) [0..<n])"
    using b mset_eq_length unfolding building_def by blast
  ultimately show ?thesis using b built_wf [OF assms(1)] by (simp add: building_def)
qed

text \<open>A transaction over two partitions, routed by the last byte of the key.\<close>

definition sample_hash :: hash_fun where
  "sample_hash key = (if key = [] then 0 else ucast (last key))"

definition sample_proc :: "unit processor" where
  "sample_proc = \<lparr>pc_ServerID = 9, pc_partitioner = Some (newPartitioner 4),
     pc_client = \<lparr>dc_Autocommit = \<lambda>_ _. None, dc_Prepare = \<lambda>_ _. None, dc_Commit = \<lambda>_ _. None,
       dc_Abort = \<lambda>_ _. None, dc_StoreDecision = \<lambda>_ _. None\<rparr>\<rparr>"

definition sample_txn :: api_txn where
  "sample_txn = (case Append sample_hash sample_proc 5 [1] [Upsert 100 [1] [7]] Processor_New of
     Some (_, t) \<Rightarrow> (case Append sample_hash sample_proc 6 [2] [Upsert 100 [2] [8], Read 100 [2]] t of
       Some (_, t') \<Rightarrow> t' | None \<Rightarrow> t) | None \<Rightarrow> Processor_New)"

lemma sample_txn_eq:
  "sample_txn = \<lparr>at_participantActions = [(1, [\<lparr>a_Id = 0, a_Payload = Action_Upsert 100 [1] [7]\<rparr>]),
       (2, [\<lparr>a_Id = 1, a_Payload = Action_Upsert 100 [2] [8]\<rparr>, \<lparr>a_Id = 2, a_Payload = Action_Read 100 [2]\<rparr>])],
     at_id = \<lparr>id_PrincipalPid = 1, id_ServerID = 9, id_Timestamp = 5\<rparr>, at_nextActionId = 3, at_readTimestamp = 0\<rparr>"
  by code_simp

lemma sample_built: "built 3 sample_txn"
proof -
  obtain as t where 1: "Append sample_hash sample_proc 5 [1] [Upsert 100 [1] [7]] Processor_New = Some (as, t)"
    "\<exists>as'. Append sample_hash sample_proc 6 [2] [Upsert 100 [2] [8], Read 100 [2]] t = Some (as', sample_txn)"
  proof -
    have "(case Append sample_hash sample_proc 5 [1] [Upsert 100 [1] [7]] Processor_New of None \<Rightarrow> False | Some (_, t) \<Rightarrow>
       (case Append sample_hash sample_proc 6 [2] [Upsert 100 [2] [8], Read 100 [2]] t of None \<Rightarrow> False
         | Some (_, t') \<Rightarrow> t' = sample_txn))" by code_simp
    then show thesis using that by (auto split: option.splits)
  qed
  then obtain as' where 2: "Append sample_hash sample_proc 6 [2] [Upsert 100 [2] [8], Read 100 [2]] t = Some (as', sample_txn)" by blast
  from built.Append [OF built.Append [OF built.New _ _ 1(1)] _ _ 2] show ?thesis by (simp add: numeral_3_eq_3)
qed

theorem built_transactions_wf_witness:
  "txn_wf sample_txn \<and> distinct (action_ids sample_txn) \<and> length (action_ids sample_txn) = 3"
  using built_transactions_wf [OF sample_built] by simp

section \<open>The decision\<close>

text \<open>
  C21: the decision of the coordinator depends on the answers only and not on the order in which the
  map is visited: it commits exactly when every participant is prepared, at the largest of their
  timestamps.
\<close>

theorem decide_correct:
  assumes "\<forall>(pid, x) \<in> set status. x \<noteq> None"
  shows "decide_2pc i status = Some
    (if \<forall>(pid, x) \<in> set status. ts_State (the x) = Prepared
     then \<lparr>d_Id = ToProto i, d_Commit = True,
           d_CommitTimestamp = Max (insert 0 ((\<lambda>(pid, x). ts_Timestamp (the x)) ` set status))\<rparr>
     else \<lparr>d_Id = ToProto i, d_Commit = False, d_CommitTimestamp = 0\<rparr>)"
proof (cases "\<forall>(pid, x) \<in> set status. ts_State (the x) = Prepared")
  case True
  then have p: "\<forall>(pid, x) \<in> set status. \<exists>s. x = Some s \<and> ts_State s = Prepared" using assms by fastforce
  have "fold max xs c = Max (insert c (set xs))" for xs and c :: u64
    using Max.set_eq_fold [of c xs] by simp
  with decide_loop_value [OF p, of 0] True show ?thesis by (simp add: decide_2pc_def)
next
  case False
  then have "\<exists>(pid, x) \<in> set status. \<exists>s. x = Some s \<and> ts_State s \<noteq> Prepared" using assms by fastforce
  from decide_loop_refuse [OF assms this, of 0] False show ?thesis by (auto simp: decide_2pc_def)
qed

definition sample_status :: "txn_state \<Rightarrow> u64 \<Rightarrow> txn_status" where
  "sample_status st ts = \<lparr>ts_Id = ToProto (at_id sample_txn), ts_Timestamp = ts, ts_State = st,
     ts_ActionStatus = None, ts_ParticipantPids = []\<rparr>"

theorem decide_correct_witness:
  "decide_2pc (at_id sample_txn) [(1, Some (sample_status Prepared 4)), (2, Some (sample_status Prepared 6))] =
     Some \<lparr>d_Id = ToProto (at_id sample_txn), d_Commit = True, d_CommitTimestamp = 6\<rparr>"
  using decide_correct [of "[(1, Some (sample_status Prepared 4)), (2, Some (sample_status Prepared 6))]" "at_id sample_txn"]
  by (simp add: sample_status_def)

section \<open>The protocol\<close>

lemma append_split:
  assumes "xs @ ys = before @ e # after" "e \<notin> set xs"
  shows "\<exists>b. before = xs @ b \<and> ys = b @ e # after"
  using assms by (auto simp: append_eq_append_conv2 Cons_eq_append_conv append_eq_Cons_conv)

lemma phase2_before:
  assumes "phase2 t ts r es" "es = before @ (Call_Commit req, ans) # after"
  shows "cr_CommitTimestamp req = ts" "\<not> (\<exists>e \<in> set es. is_abort e)"
    and "cr_ParticipantPid req = principal t \<Longrightarrow> pid \<in> participants t - {principal t} \<Longrightarrow>
      \<exists>s. (Call_Commit (commit_request_for False ts t pid), Inr s) \<in> set before \<and> ts_State s = Committed"
proof -
  obtain rs where keys: "fst ` set rs = participants t - {principal t}"
    and c: "es = map (commit_event ts t) rs \<and> (\<exists>e. r = Inl e) \<or>
      (\<exists>r0. es = map (commit_event ts t) (rs @ [(principal t, r0)]) \<and> list_all committed_answer rs \<and>
        ((\<exists>status. r = Inr status) \<longrightarrow> committed_answer (principal t, r0)))"
    using assms(1) unfolding phase2_def by (elim exE conjE)
  have "\<exists>ps. es = map (commit_event ts t) (rs @ ps) \<and> (ps = [] \<or> list_all committed_answer rs)"
    using c
  proof (elim disjE exE conjE)
    assume "es = map (commit_event ts t) rs"
    then show ?thesis by (intro exI [of _ "[]"]) simp
  next
    fix r0 assume "es = map (commit_event ts t) (rs @ [(principal t, r0)])" "list_all committed_answer rs"
    then show ?thesis by blast
  qed
  then obtain ps where rs: "fst ` set rs = participants t - {principal t}" "es = map (commit_event ts t) (rs @ ps)"
    "ps = [] \<or> list_all committed_answer rs"
    using keys by blast
  have mem: "(Call_Commit req, ans) \<in> set (map (commit_event ts t) (rs @ ps))" using assms(2) rs(2) by (metis in_set_conv_decomp)
  then obtain q where q: "req = commit_request_for False ts t q" by (auto simp: commit_event_def)
  then show "cr_CommitTimestamp req = ts" by (simp add: commit_request_for_def)
  show "\<not> (\<exists>e \<in> set es. is_abort e)" unfolding rs(2) by auto
  assume "cr_ParticipantPid req = principal t" and pid: "pid \<in> participants t - {principal t}"
  then have q': "q = principal t" using q by (simp add: commit_request_for_def)
  have out: "(Call_Commit req, ans) \<notin> set (map (commit_event ts t) rs)"
  proof
    assume "(Call_Commit req, ans) \<in> set (map (commit_event ts t) rs)"
    then have "q \<in> fst ` set rs" using q by (force simp: commit_event_def commit_request_for_def)
    then show False using rs(1) q' by simp
  qed
  then have "ps \<noteq> []" using mem by auto
  then have ok: "list_all committed_answer rs" using rs(3) by blast
  obtain b where b: "before = map (commit_event ts t) rs @ b"
    using append_split [of "map (commit_event ts t) rs" "map (commit_event ts t) ps" before] out assms(2) rs(2) by auto
  have "pid \<in> fst ` set rs" using pid rs(1) by simp
  then obtain r where r: "(pid, r) \<in> set rs" by auto
  then obtain s where "r = Inr s" "ts_State s = Committed"
    using ok by (auto simp: list_all_iff committed_answer_def split: sum.splits)
  then show "\<exists>s. (Call_Commit (commit_request_for False ts t pid), Inr s) \<in> set before \<and> ts_State s = Committed"
    using r b by (force simp: commit_event_def)
qed

lemma run_shape_commit:
  assumes "run_shape t r es" "es = before @ (Call_Commit req, ans) # after"
  obtains rs dec s b r2 where "before = map (prep_event t) rs @ (Call_StoreDecision dec, Inr s) # b" "d_Commit dec"
    "all_prepared t (d_CommitTimestamp dec) rs" "ts_State s = Decided"
    "phase2 t (d_CommitTimestamp dec) r2 (b @ (Call_Commit req, ans) # after)"
proof -
  have ev: "is_commit (Call_Commit req, ans)" by (simp add: is_commit_def)
  have "\<not> list_all (\<lambda>e. \<not> is_commit e \<and> \<not> is_store e) es" using assms(2) ev by simp
  with assms(1) obtain rs dec a es' where es0: "es = map (prep_event t) rs @ (Call_StoreDecision dec, a) # es'"
    "d_Commit dec" "all_prepared t (d_CommitTimestamp dec) rs" and c: "after_store t r (d_CommitTimestamp dec) a es'"
    unfolding run_shape_def by blast
  then have es: "es = (map (prep_event t) rs @ [(Call_StoreDecision dec, a)]) @ es'" "d_Commit dec"
    "all_prepared t (d_CommitTimestamp dec) rs" by simp_all
  have "(Call_Commit req, ans) \<notin> set (map (prep_event t) rs @ [(Call_StoreDecision dec, a)])"
    by (auto simp: prep_event_def)
  from append_split [OF trans [OF es(1) [symmetric] assms(2)] this] obtain b where
    b: "before = (map (prep_event t) rs @ [(Call_StoreDecision dec, a)]) @ b" "es' = b @ (Call_Commit req, ans) # after"
    by (elim exE conjE)
  have "\<not> list_all is_abort es'" "es' \<noteq> []" using b(2) by (auto simp: is_abort_def)
  with c obtain s r2 where "a = Inr s" "ts_State s = Decided" "phase2 t (d_CommitTimestamp dec) r2 es'"
    unfolding after_store_def by (elim disjE exE conjE) auto
  with b es(2,3) show thesis by (intro that [of rs dec s b r2]) simp_all
qed

lemma run_shape_success:
  assumes "run_shape t (Inr res) es" "tr_Success res"
  shows "\<exists>pre r2 es'. es = pre @ es' \<and> phase2 t (tr_Timestamp res) (Inr r2) es'"
proof -
  obtain rs dec ans es' s r2 where d: "es = map (prep_event t) rs @ (Call_StoreDecision dec, ans) # es'"
    "phase2 t (d_CommitTimestamp dec) r2 es'"
    "\<exists>status. r2 = Inr status" "tr_Timestamp res = d_CommitTimestamp dec"
    using assms unfolding run_shape_def after_store_def by (elim disjE exE conjE) simp_all
  then obtain r3 where "r2 = Inr r3" by blast
  with d show ?thesis by (intro exI [of _ "map (prep_event t) rs @ [(Call_StoreDecision dec, ans)]"] exI [of _ r3] exI [of _ es']) simp
qed

text \<open>
  C4: the coordinator keeps the two-phase commit protocol on any data servers and any network. When it
  sends a commit, every participant has answered that it is prepared, at a timestamp no later than
  the commit timestamp; the principal has answered that the decision to commit at that timestamp is
  stored; the principal is asked last, after every other participant answered that it committed; and
  no abort is ever sent in that run.
\<close>

theorem coordinator_commit_discipline:
  assumes "Process_2pc sc (logged cl) t (w, []) = Some (r, w', log)" "txn_wf t" "at_participantActions t \<noteq> []" "permuting sc"
    and "log = before @ (Call_Commit req, ans) # after"
  shows "(\<forall>pid \<in> participants t. \<exists>s. (Call_Prepare (prepare_request_for False t pid), Inr s) \<in> set before \<and>
           ts_State s = Prepared \<and> ts_Timestamp s \<le> cr_CommitTimestamp req) \<and>
         (\<exists>dec s. (Call_StoreDecision dec, Inr s) \<in> set before \<and> ts_State s = Decided \<and> d_Commit dec \<and>
           d_CommitTimestamp dec = cr_CommitTimestamp req) \<and>
         (cr_ParticipantPid req = principal t \<longrightarrow> (\<forall>pid \<in> participants t - {principal t}.
           \<exists>s. (Call_Commit (commit_request_for False (cr_CommitTimestamp req) t pid), Inr s) \<in> set before \<and>
             ts_State s = Committed)) \<and>
         \<not> (\<exists>e \<in> set log. is_abort e)"
proof -
  have "run_shape t r log" using Process_2pc_shape [OF assms(1-4)] by simp
  from run_shape_commit [OF this assms(5)] obtain rs dec s b r2 where
    c: "before = map (prep_event t) rs @ (Call_StoreDecision dec, Inr s) # b" "d_Commit dec"
    "all_prepared t (d_CommitTimestamp dec) rs" "ts_State s = Decided"
    "phase2 t (d_CommitTimestamp dec) r2 (b @ (Call_Commit req, ans) # after)" by blast
  note p2 = phase2_before [OF c(5) refl]
  have 1: "\<exists>s. (Call_Prepare (prepare_request_for False t pid), Inr s) \<in> set before \<and>
      ts_State s = Prepared \<and> ts_Timestamp s \<le> cr_CommitTimestamp req" if "pid \<in> participants t" for pid
  proof -
    have "pid \<in> fst ` set rs" using \<open>pid \<in> participants t\<close> c(3) by (simp add: all_prepared_def)
    then obtain a where a: "(pid, a) \<in> set rs" by auto
    then obtain s' where s': "a = Inr s'" "ts_State s' = Prepared" "ts_Timestamp s' \<le> d_CommitTimestamp dec"
      using c(3) unfolding all_prepared_def by blast
    have "prep_event t (pid, a) \<in> set before" using a c(1) by simp
    with s' p2(1) show ?thesis by (auto simp: prep_event_def)
  qed
  have "\<not> is_abort (Call_StoreDecision dec, Inr s)" by (simp add: is_abort_def)
  then have 2: "\<not> (\<exists>e \<in> set log. is_abort e)"
    using p2(2) unfolding assms(5) c(1) by auto
  have 3: "(Call_StoreDecision dec, Inr s) \<in> set before" using c(1) by simp
  have 4: "\<exists>s. (Call_Commit (commit_request_for False (cr_CommitTimestamp req) t pid), Inr s) \<in> set before \<and>
      ts_State s = Committed"
    if pid: "cr_ParticipantPid req = principal t" "pid \<in> participants t - {principal t}" for pid
  proof -
    obtain s' where "(Call_Commit (commit_request_for False (d_CommitTimestamp dec) t pid), Inr s') \<in> set b" "ts_State s' = Committed"
      using p2(3) [OF pid] by (elim exE conjE)
    then show ?thesis unfolding p2(1) c(1) by (intro exI [of _ s']) simp
  qed
  show ?thesis
  proof (intro conjI ballI impI)
    show "\<exists>dec s. (Call_StoreDecision dec, Inr s) \<in> set before \<and> ts_State s = Decided \<and> d_Commit dec \<and>
        d_CommitTimestamp dec = cr_CommitTimestamp req"
      using 3 c(2,4) p2(1) by (intro exI [of _ dec] exI [of _ s]) simp
  qed (fact 1 2 4 | rule 1 4, assumption)+
qed

text \<open>A cluster that always agrees, for the witnesses.\<close>

definition agreeing :: "unit data_client" where
  "agreeing = \<lparr>dc_Autocommit = \<lambda>_ w. Some (Inr (sample_status Committed 9), w),
     dc_Prepare = \<lambda>req w. Some (Inr (sample_status Prepared (ucast (prq_ParticipantPid req))), w),
     dc_Commit = \<lambda>req w. Some (Inr (sample_status Committed (cr_CommitTimestamp req)), w),
     dc_Abort = \<lambda>_ w. Some (Inr (sample_status Aborted 9), w),
     dc_StoreDecision = \<lambda>dec w. Some (Inr (sample_status Decided 9), w)\<rparr>"

definition in_order :: schedule where
  "in_order _ xs = xs"

lemma permuting_in_order: "permuting in_order"
  by (simp add: permuting_def in_order_def)

definition sample_decision :: decision where
  "sample_decision = \<lparr>d_Id = ToProto (at_id sample_txn), d_Commit = True, d_CommitTimestamp = 2\<rparr>"

definition sample_result :: txn_result where
  "sample_result = \<lparr>tr_Id = ToProto (at_id sample_txn), tr_Timestamp = 2, tr_Success = True, tr_ActionStatus = []\<rparr>"

definition sample_log :: "event list" where
  "sample_log =
     [(Call_Prepare (prepare_request_for False sample_txn 1), Inr (sample_status Prepared 1)),
      (Call_Prepare (prepare_request_for False sample_txn 2), Inr (sample_status Prepared 2)),
      (Call_StoreDecision sample_decision, Inr (sample_status Decided 9)),
      (Call_Commit (commit_request_for False 2 sample_txn 2), Inr (sample_status Committed 2)),
      (Call_Commit (commit_request_for False 2 sample_txn 1), Inr (sample_status Committed 2))]"

lemma sample_run: "Process_2pc in_order (logged agreeing) sample_txn ((), []) = Some (Inr sample_result, (), sample_log)"
  by code_simp

lemma sample_parts: "at_participantActions sample_txn \<noteq> []" "participants sample_txn = {1, 2}" "principal sample_txn = 1"
  by (simp_all add: sample_txn_eq)

theorem coordinator_commit_discipline_witness:
  "\<exists>s. (Call_Commit (commit_request_for False 2 sample_txn 2), Inr s) \<in> set (take 4 sample_log) \<and> ts_State s = Committed"
proof -
  have "sample_log = take 4 sample_log @ (Call_Commit (commit_request_for False 2 sample_txn 1), Inr (sample_status Committed 2)) # []"
    by (simp add: sample_log_def)
  from coordinator_commit_discipline [OF sample_run built_wf [OF sample_built] sample_parts(1) permuting_in_order this]
  show ?thesis by (simp add: sample_parts commit_request_for_def)
qed

text \<open>
  C5: the result of a transaction tells what happened. Success means that every participant answered
  that it committed, at the timestamp of the result. Failure means that no commit was sent to any
  participant and no decision was offered to the principal.
\<close>

theorem coordinator_result_truthful:
  assumes "Process_2pc sc (logged cl) t (w, []) = Some (Inr res, w', log)" "txn_wf t" "at_participantActions t \<noteq> []" "permuting sc"
  shows "if tr_Success res
    then \<forall>pid \<in> participants t. \<exists>s. (Call_Commit (commit_request_for False (tr_Timestamp res) t pid), Inr s) \<in> set log \<and> ts_State s = Committed
    else \<not> (\<exists>e \<in> set log. is_commit e \<or> is_store e)"
proof -
  have sh: "run_shape t (Inr res) log" using Process_2pc_shape [OF assms] by simp
  show ?thesis
  proof (cases "tr_Success res")
    case True
    from run_shape_success [OF sh this] obtain pre r2 es' where d: "log = pre @ es'" "phase2 t (tr_Timestamp res) (Inr r2) es'"
      by (elim exE conjE)
    obtain qs r0 where q: "fst ` set qs = participants t - {principal t}" "list_all committed_answer (qs @ [(principal t, r0)])"
      "es' = map (commit_event (tr_Timestamp res) t) (qs @ [(principal t, r0)])"
      using d(2) unfolding phase2_def by auto
    have "\<exists>s. (Call_Commit (commit_request_for False (tr_Timestamp res) t pid), Inr s) \<in> set log \<and> ts_State s = Committed"
      if "pid \<in> participants t" for pid
    proof -
      have "pid \<in> fst ` set (qs @ [(principal t, r0)])" using that q(1) by auto
      then obtain a where a: "(pid, a) \<in> set (qs @ [(principal t, r0)])" by (metis imageE prod.collapse)
      then obtain s where "a = Inr s" "ts_State s = Committed"
        using q(2) by (auto simp: list_all_iff committed_answer_def split: sum.splits)
      moreover have "commit_event (tr_Timestamp res) t (pid, a) \<in> set log" using a d(1) q(3) by auto
      ultimately show ?thesis by (auto simp: commit_event_def)
    qed
    with True show ?thesis by simp
  next
    case False
    then have "list_all (\<lambda>e. \<not> is_commit e \<and> \<not> is_store e) log" using sh unfolding run_shape_def after_store_def by auto
    with False show ?thesis by (auto simp: list_all_iff)
  qed
qed

theorem coordinator_result_truthful_witness:
  "\<exists>s. (Call_Commit (commit_request_for False 2 sample_txn 1), Inr s) \<in> set sample_log \<and> ts_State s = Committed"
  using coordinator_result_truthful [OF sample_run built_wf [OF sample_built] sample_parts(1) permuting_in_order]
  by (simp add: sample_parts sample_result_def)

end
