(* ===== verification/Control_Data.thy ===== *)
theory Control_Data
  imports Helpers
begin

text \<open>
  The messages of the control plane (\<^verbatim>\<open>src/internal/control/control.proto\<close>) with the queries and the
  validation of \<^verbatim>\<open>src/internal/control/control.go\<close>. A time is a number of nanoseconds; a pointer that
  can be nil is an option. The value of an enumeration that arrives in a message can be any number
  and is kept as an integer; inside the cluster state it is one of the declared names.
\<close>

type_synonym gotime = int

section \<open>Cluster state\<close>

datatype server_type = ST_Unknown | ST_Control | ST_Data | ST_Api
datatype replica_state = RS_Stopped | RS_Joining | RS_Voter | RS_NonVoter | RS_Leaving

record server =
  srv_Id :: u64
  srv_Name :: string
  srv_Type :: server_type
  srv_Tags :: "string list"
  srv_RegisteredAt :: gotime
  srv_LastSeen :: gotime
  srv_LastAddress :: string

record servers =
  ss_Version :: u64
  ss_RegisterVersion :: u64
  ss_Items :: "(u64, server) gomap"
  ss_LastId :: u64
  ss_Tokens :: "(string, u64) gomap"

record part_replica =
  rp_Name :: string
  rp_ServerId :: u64
  rp_State :: replica_state
  rp_CreatedTime :: gotime
  rp_StateTransitionTime :: gotime
  rp_LastUpdate :: gotime
  rp_AppliedIndex :: u64
  rp_Ready :: bool

record part =
  pa_Id :: u32
  pa_Replicas :: "(string, part_replica) gomap"
  pa_LastReplicaId :: u64
  pa_AssignmentsVersion :: u64
  pa_Leader :: string
  pa_LeaderTerm :: u64
  pa_LeaderAppliedIndex :: u64
  pa_CommitedIndex :: u64

record parts =
  ps_Version :: u64
  ps_AssignmentsVersion :: u64
  ps_Items :: "(u32, part) gomap"
  ps_MaxImbalance :: u32

record cluster =
  cl_Index :: u64
  cl_Version :: u64
  cl_Name :: string
  cl_CreatedTime :: gotime
  cl_Servers :: "servers option"
  cl_Partitions :: "parts option"
  cl_PartitionCount :: u32

section \<open>Queries\<close>

definition maxClusterNameLen :: nat where "maxClusterNameLen = 100"
definition maxAddressLen :: nat where "maxAddressLen = 128"
definition maxTokenLen :: nat where "maxTokenLen = 1024"
definition maxTagLen :: nat where "maxTagLen = 128"
definition maxPartitionCount :: u32 where "maxPartitionCount = 65536"

definition IsValidClusterName :: "string \<Rightarrow> bool" where
  "IsValidClusterName v \<longleftrightarrow> length v > 0 \<and> length v \<le> maxClusterNameLen"

definition IsValidAddress :: "string \<Rightarrow> bool" where
  "IsValidAddress v \<longleftrightarrow> length v > 0 \<and> length v \<le> maxAddressLen"

definition IsValidToken :: "string \<Rightarrow> bool" where
  "IsValidToken v \<longleftrightarrow> length v > 0 \<and> length v \<le> maxTokenLen"

definition IsValidTag :: "string \<Rightarrow> bool" where
  "IsValidTag v \<longleftrightarrow> length v > 0 \<and> length v \<le> maxTagLen"

fun IsValidTags :: "string list \<Rightarrow> bool" where
  "IsValidTags [] = True"
| "IsValidTags (t # ts) = (if \<not> IsValidTag t then False else IsValidTags ts)"

definition IsValidPartitionCount :: "u32 \<Rightarrow> bool" where
  "IsValidPartitionCount v \<longleftrightarrow> v > 0 \<and> v \<le> maxPartitionCount"

definition ForType :: "server_type \<Rightarrow> servers \<Rightarrow> (u64, server) gomap" where
  "ForType stype s = filter (\<lambda>(_, x). srv_Type x = stype) (ss_Items s)"

definition Servers_ControlServers :: "servers \<Rightarrow> (u64, server) gomap" where
  "Servers_ControlServers s = ForType ST_Control s"

definition Servers_DataServers :: "servers \<Rightarrow> (u64, server) gomap" where
  "Servers_DataServers s = ForType ST_Data s"

definition Servers_ApiServers :: "servers \<Rightarrow> (u64, server) gomap" where
  "Servers_ApiServers s = ForType ST_Api s"

fun count_type :: "server_type \<Rightarrow> (u64, server) gomap \<Rightarrow> nat \<Rightarrow> nat" where
  "count_type stype [] count = count"
| "count_type stype ((_, s) # m) count = count_type stype m (if srv_Type s = stype then count + 1 else count)"

definition CountForType :: "server_type \<Rightarrow> servers \<Rightarrow> nat" where
  "CountForType stype s = count_type stype (ss_Items s) 0"

fun find_name :: "string \<Rightarrow> (u64, server) gomap \<Rightarrow> server option" where
  "find_name name [] = None"
| "find_name name ((_, s) # m) = (if srv_Name s = name then Some s else find_name name m)"

definition ForName :: "string \<Rightarrow> servers \<Rightarrow> server option" where
  "ForName name s = find_name name (ss_Items s)"

definition HasAssignments :: "parts \<Rightarrow> bool" where
  "HasAssignments p \<longleftrightarrow> ps_AssignmentsVersion p > 0"

definition IsServing :: "replica_state \<Rightarrow> bool" where
  "IsServing s \<longleftrightarrow> s = RS_Voter \<or> s = RS_NonVoter"

fun find_server :: "u64 \<Rightarrow> (string, part_replica) gomap \<Rightarrow> part_replica option" where
  "find_server serverID [] = None"
| "find_server serverID ((_, x) # m) = (if rp_ServerId x = serverID then Some x else find_server serverID m)"

definition ReplicaForServer :: "u64 \<Rightarrow> part \<Rightarrow> part_replica option" where
  "ReplicaForServer serverID p = find_server serverID (pa_Replicas p)"

definition Part_ServingReplicaCount :: "part \<Rightarrow> nat" where
  "Part_ServingReplicaCount p = length (filter (\<lambda>(_, x). IsServing (rp_State x)) (pa_Replicas p))"

definition Part_ReplicaCountForState :: "replica_state \<Rightarrow> part \<Rightarrow> nat" where
  "Part_ReplicaCountForState state p = length (filter (\<lambda>(_, x). rp_State x = state) (pa_Replicas p))"

definition ReplicaCount :: "parts \<Rightarrow> nat" where
  "ReplicaCount p = sum_list (map (\<lambda>(_, x). length (pa_Replicas x)) (ps_Items p))"

definition ServingReplicaCount :: "parts \<Rightarrow> nat" where
  "ServingReplicaCount p = sum_list (map (\<lambda>(_, x). Part_ServingReplicaCount x) (ps_Items p))"

definition ReplicaCountForState :: "replica_state \<Rightarrow> parts \<Rightarrow> nat" where
  "ReplicaCountForState state p = sum_list (map (\<lambda>(_, x). Part_ReplicaCountForState state x) (ps_Items p))"

lemma find_server_Some:
  "gomap_wf m \<Longrightarrow> find_server s m = Some r \<Longrightarrow> \<exists>n. mget m n = Some r \<and> rp_ServerId r = s"
proof (induction m)
  case (Cons x m)
  obtain n0 r0 where x: "x = (n0, r0)" by (cases x)
  show ?case
  proof (cases "rp_ServerId r0 = s")
    case True
    then show ?thesis using Cons.prems x by (intro exI [of _ n0]) auto
  next
    case False
    then obtain n where n: "mget m n = Some r" "rp_ServerId r = s" using Cons x by (auto simp: gomap_wf_def)
    have "mget m n0 = None" using Cons.prems(1) x by (simp add: gomap_wf_def mget_None_iff)
    with n have "n \<noteq> n0" by auto
    with n x show ?thesis by (intro exI [of _ n]) simp
  qed
qed simp

lemma find_server_None: "find_server s m = None \<longleftrightarrow> (\<forall>(_, r) \<in> set m. rp_ServerId r \<noteq> s)"
  by (induction m rule: find_server.induct) auto

lemma CountForType_eq: "CountForType stype s = length (ForType stype s)"
proof -
  have "count_type stype m n = n + length (filter (\<lambda>(_, x). srv_Type x = stype) m)" for m n
    by (induction stype m n rule: count_type.induct) auto
  then show ?thesis by (simp add: CountForType_def ForType_def)
qed

section \<open>Messages of a session\<close>

record discover_response =
  dr_Servers :: "(string \<times> bool) list"
  dr_ServiceConfigJson :: string

record register_request =
  rr_Token :: string
  rr_Address :: string
  rr_Type :: int
  rr_Tags :: "string list"

record register_response =
  rs_ServerId :: u64
  rs_ServerName :: string

record hello_request =
  hr_ServerId :: u64
  hr_Address :: string

record hello_response =
  hs_HlcTimestamp :: u64

record config_replica =
  cr_Name :: string
  cr_ServerId :: u64
  cr_State :: int

record config_partition =
  cp_ETag :: string
  cp_Id :: u32
  cp_Replicas :: "(string, config_replica) gomap"

record data_server_config =
  dsc_ETag :: string
  dsc_Partitions :: "(u32, config_partition) gomap"

record api_server_config =
  asc_ETag :: string
  asc_PartitionCount :: u32

record server_address =
  sa_Id :: u64
  sa_Address :: string

record servers_partition =
  sp_ETag :: string
  sp_Id :: u32
  sp_LeaderServerId :: u64
  sp_ReplicaServerIds :: "u64 list"

record data_servers =
  ds_ETag :: string
  ds_Servers :: "(u64, server_address) gomap"
  ds_Partitions :: "(u32, servers_partition) gomap"
  ds_PartitionCount :: u32
  ds_ServiceConfigJson :: string

record api_servers =
  as_ETag :: string
  as_Servers :: "(u64, server_address) gomap"
  as_ServiceConfigJson :: string

record status_replica =
  sr_Name :: string
  sr_IsLeader :: bool
  sr_LeaderTerm :: u64
  sr_CommitedIndex :: u64
  sr_AppliedIndex :: u64
  sr_Ready :: bool

record data_server_status =
  dss_Replicas :: "(u32, status_replica) gomap"

datatype heartbeat_status =
    Heartbeat_ControlServerStatus
  | Heartbeat_DataServerStatus data_server_status
  | Heartbeat_ApiServerStatus
  | Heartbeat_Unknown

record heartbeat =
  hb_ConfigETag :: string
  hb_Status :: "heartbeat_status option"

text \<open>A protobuf timestamp, with the range that \<^verbatim>\<open>IsValid\<close> checks.\<close>

record pb_timestamp =
  tp_Seconds :: int
  tp_Nanos :: int

definition timestamp_IsValid :: "pb_timestamp option \<Rightarrow> bool" where
  "timestamp_IsValid t = (case t of
       None \<Rightarrow> False
     | Some x \<Rightarrow> - 62135596800 \<le> tp_Seconds x \<and> tp_Seconds x \<le> 253402300799 \<and> 0 \<le> tp_Nanos x \<and> tp_Nanos x < 1000000000)"

record timestamp_response =
  tr_RequestTimestamp :: "pb_timestamp option"
  tr_ResponseTimestamp :: "pb_timestamp option"

record timestamp_request =
  tq_RequestTimestamp :: "pb_timestamp option"

datatype session_in =
    SessionIn_Hello hello_request
  | SessionIn_Heartbeat heartbeat
  | SessionIn_GetDataServers string
  | SessionIn_GetApiServers string
  | SessionIn_TimestampResponse timestamp_response
  | SessionIn_Unknown

datatype session_out =
    SessionOut_Hello hello_response
  | SessionOut_DataServerConfig data_server_config
  | SessionOut_ApiServerConfig api_server_config
  | SessionOut_DataServers data_servers
  | SessionOut_ApiServers api_servers
  | SessionOut_TimestampRequest timestamp_request
  | SessionOut_Unknown

section \<open>Validation\<close>

definition ServerType_name :: "(int, string) gomap" where
  "ServerType_name = [(0, ''Unknown''), (1, ''Control''), (2, ''Data''), (3, ''Api'')]"

definition ReplicaState_name :: "(int, string) gomap" where
  "ReplicaState_name = [(0, ''Stopped''), (1, ''Joining''), (2, ''Voter''), (3, ''NonVoter''), (4, ''Leaving'')]"

definition DiscoverResponse_Validate :: "discover_response option \<Rightarrow> err option" where
  "DiscoverResponse_Validate x = (case x of
       None \<Rightarrow> Some (OtherError ''DiscoverResponse is nil'')
     | Some x \<Rightarrow>
         if length (dr_Servers x) = 0 \<or> dr_ServiceConfigJson x = ''''
         then Some (OtherError ''DiscoverResponse has missing fields'') else None)"

definition RegisterRequest_Validate :: "register_request option \<Rightarrow> err option" where
  "RegisterRequest_Validate x = (case x of
       None \<Rightarrow> Some (OtherError ''RegisterRequest is nil'')
     | Some x \<Rightarrow>
         if \<not> IsValidAddress (rr_Address x) \<or> \<not> IsValidToken (rr_Token x) \<or> \<not> IsValidTags (rr_Tags x)
         then Some (OtherError ''RegisterRequest has invalid fields'')
         else if mget ServerType_name (rr_Type x) = None
         then Some (OtherError ''RegisterRequest.ServerType is invalid'') else None)"

definition RegisterResponse_Validate :: "register_response option \<Rightarrow> err option" where
  "RegisterResponse_Validate x = (case x of
       None \<Rightarrow> Some (OtherError ''RegisterResponse is nil'')
     | Some x \<Rightarrow>
         if rs_ServerId x = 0 \<or> rs_ServerName x = ''''
         then Some (OtherError ''RegisterResponse has missing fields'') else None)"

definition HelloRequest_Validate :: "hello_request option \<Rightarrow> err option" where
  "HelloRequest_Validate x = (case x of
       None \<Rightarrow> Some (OtherError ''HelloRequest is nil'')
     | Some x \<Rightarrow>
         if hr_ServerId x = 0 \<or> hr_Address x = ''''
         then Some (OtherError ''HelloRequest has missing fields'') else None)"

definition HelloResponse_Validate :: "hello_response option \<Rightarrow> err option" where
  "HelloResponse_Validate x = (case x of
       None \<Rightarrow> Some (OtherError ''HelloResponse is nil'')
     | Some x \<Rightarrow> if hs_HlcTimestamp x = 0 then Some (OtherError ''HelloResponse has missing fields'') else None)"

definition ConfigReplica_Validate :: "config_replica option \<Rightarrow> err option" where
  "ConfigReplica_Validate x = (case x of
       None \<Rightarrow> Some (OtherError ''Replica is nil'')
     | Some x \<Rightarrow>
         if cr_Name x = '''' \<or> cr_ServerId x = 0 then Some (OtherError ''Replica has missing fields'')
         else if mget ReplicaState_name (cr_State x) = None then Some (OtherError ''Replica.Mode is invalid'')
         else None)"

fun validate_replicas :: "(string, config_replica) gomap \<Rightarrow> err option" where
  "validate_replicas [] = None"
| "validate_replicas ((_, r) # m) =
     (case ConfigReplica_Validate (Some r) of Some e \<Rightarrow> Some e | None \<Rightarrow> validate_replicas m)"

definition ConfigPartition_Validate :: "config_partition option \<Rightarrow> err option" where
  "ConfigPartition_Validate x = (case x of
       None \<Rightarrow> Some (OtherError ''Partition is nil'')
     | Some x \<Rightarrow>
         if cp_ETag x = '''' then Some (OtherError ''Partition has missing fields'')
         else validate_replicas (cp_Replicas x))"

fun validate_partitions :: "(u32, config_partition) gomap \<Rightarrow> err option" where
  "validate_partitions [] = None"
| "validate_partitions ((i, p) # m) =
     (if i \<noteq> cp_Id p then Some (OtherError ''DataServerConfig.Partitions.Id does not match'')
      else case ConfigPartition_Validate (Some p) of
          Some _ \<Rightarrow> Some (OtherError ''DataServerConfig.Partition is invalid'')
        | None \<Rightarrow> validate_partitions m)"

definition DataServerConfig_Validate :: "data_server_config option \<Rightarrow> err option" where
  "DataServerConfig_Validate x = (case x of
       None \<Rightarrow> Some (OtherError ''DataServerConfig is nil'')
     | Some x \<Rightarrow>
         if dsc_ETag x = '''' then Some (OtherError ''DataServerConfig has missing fields'')
         else validate_partitions (dsc_Partitions x))"

definition ApiServerConfig_Validate :: "api_server_config option \<Rightarrow> err option" where
  "ApiServerConfig_Validate x = (case x of
       None \<Rightarrow> Some (OtherError ''ApiServerConfig is nil'')
     | Some x \<Rightarrow> if asc_ETag x = '''' then Some (OtherError ''ApiServerConfig has missing fields'') else None)"

definition ServersServer_Validate :: "server_address option \<Rightarrow> err option" where
  "ServersServer_Validate x = (case x of
       None \<Rightarrow> Some (OtherError ''Server is nil'')
     | Some x \<Rightarrow> if sa_Id x = 0 \<or> sa_Address x = '''' then Some (OtherError ''Server has missing fields'') else None)"

definition ApiServersServer_Validate :: "server_address option \<Rightarrow> err option" where
  "ApiServersServer_Validate x = (case x of
       None \<Rightarrow> Some (OtherError ''Server is nil'')
     | Some x \<Rightarrow> if sa_Id x = 0 \<or> sa_Address x = '''' then Some (OtherError ''Server has missing fields'') else None)"

definition ServersPartition_Validate :: "servers_partition option \<Rightarrow> err option" where
  "ServersPartition_Validate x = (case x of None \<Rightarrow> Some (OtherError ''Partition is nil'') | Some _ \<Rightarrow> None)"

fun validate_servers :: "(u64, server_address) gomap \<Rightarrow> err option" where
  "validate_servers [] = None"
| "validate_servers ((i, s) # m) = (case ServersServer_Validate (Some s) of
       Some e \<Rightarrow> Some e
     | None \<Rightarrow> if i \<noteq> sa_Id s then Some (OtherError ''DataServers.Servers.Id does not match'') else validate_servers m)"

fun validate_read_servers :: "(u64, server_address) gomap \<Rightarrow> u64 list \<Rightarrow> err option" where
  "validate_read_servers srvs [] = None"
| "validate_read_servers srvs (i # is) =
     (if mget srvs i = None then Some (OtherError ''DataServers.Partitions.ReadServer not found in server list'')
      else validate_read_servers srvs is)"

fun validate_routes :: "u32 \<Rightarrow> (u64, server_address) gomap \<Rightarrow> (u32, servers_partition) gomap \<Rightarrow> err option" where
  "validate_routes count srvs [] = None"
| "validate_routes count srvs ((i, p) # m) = (case ServersPartition_Validate (Some p) of
       Some e \<Rightarrow> Some e
     | None \<Rightarrow>
         if i \<noteq> sp_Id p then Some (OtherError ''DataServers.Partitions.Id does not match'')
         else if i \<ge> count then Some (OtherError ''DataServers.Partitions.Id is invalid'')
         else if sp_LeaderServerId p \<noteq> 0 \<and> mget srvs (sp_LeaderServerId p) = None
         then Some (OtherError ''DataServers.Partitions.WriteServer not found in server list'')
         else case validate_read_servers srvs (sp_ReplicaServerIds p) of
             Some e \<Rightarrow> Some e
           | None \<Rightarrow> validate_routes count srvs m)"

definition DataServers_Validate :: "data_servers option \<Rightarrow> err option" where
  "DataServers_Validate x = (case x of
       None \<Rightarrow> Some (OtherError ''DataServers is nil'')
     | Some x \<Rightarrow>
         if ds_ETag x = '''' \<or> length (ds_Servers x) = 0 \<or> length (ds_Partitions x) = 0 \<or> ds_PartitionCount x = 0 \<or>
            ds_ServiceConfigJson x = ''''
         then Some (OtherError ''DataServers has missing fields'')
         else case validate_servers (ds_Servers x) of
             Some e \<Rightarrow> Some e
           | None \<Rightarrow>
               if length (ds_Partitions x) \<noteq> unat (ds_PartitionCount x)
               then Some (OtherError ''DataServers.Partitions count does not match PartitionCount'')
               else validate_routes (ds_PartitionCount x) (ds_Servers x) (ds_Partitions x))"

fun validate_api_servers :: "(u64, server_address) gomap \<Rightarrow> err option" where
  "validate_api_servers [] = None"
| "validate_api_servers ((i, s) # m) = (case ApiServersServer_Validate (Some s) of
       Some e \<Rightarrow> Some e
     | None \<Rightarrow> if i \<noteq> sa_Id s then Some (OtherError ''ApiServers.Servers.Id does not match'') else validate_api_servers m)"

definition ApiServers_Validate :: "api_servers option \<Rightarrow> err option" where
  "ApiServers_Validate x = (case x of
       None \<Rightarrow> Some (OtherError ''ApiServers is nil'')
     | Some x \<Rightarrow>
         if as_ETag x = '''' \<or> length (as_Servers x) = 0 \<or> as_ServiceConfigJson x = ''''
         then Some (OtherError ''ApiServers has missing fields'')
         else validate_api_servers (as_Servers x))"

definition StatusReplica_Validate :: "status_replica option \<Rightarrow> err option" where
  "StatusReplica_Validate x = (case x of None \<Rightarrow> Some (OtherError ''Partition is nil'') | Some _ \<Rightarrow> None)"

fun validate_status_replicas :: "(u32, status_replica) gomap \<Rightarrow> err option" where
  "validate_status_replicas [] = None"
| "validate_status_replicas ((_, r) # m) =
     (case StatusReplica_Validate (Some r) of Some e \<Rightarrow> Some e | None \<Rightarrow> validate_status_replicas m)"

definition DataServerStatus_Validate :: "data_server_status option \<Rightarrow> err option" where
  "DataServerStatus_Validate x = (case x of
       None \<Rightarrow> Some (OtherError ''DataServerStatus is nil'')
     | Some x \<Rightarrow> validate_status_replicas (dss_Replicas x))"

definition Heartbeat_Validate :: "heartbeat option \<Rightarrow> err option" where
  "Heartbeat_Validate x = (case x of
       None \<Rightarrow> Some (OtherError ''Heartbeat is nil'')
     | Some x \<Rightarrow>
         if hb_ConfigETag x = '''' then Some (OtherError ''Heartbeat.ConfigETag is missing'')
         else (case hb_Status x of
             None \<Rightarrow> Some (OtherError ''Heartbeat.Status is nil'')
           | Some Heartbeat_ControlServerStatus \<Rightarrow> None
           | Some (Heartbeat_DataServerStatus s) \<Rightarrow> DataServerStatus_Validate (Some s)
           | Some Heartbeat_ApiServerStatus \<Rightarrow> None
           | Some Heartbeat_Unknown \<Rightarrow> Some (OtherError ''Heartbeat.Status is unknown.'')))"

definition TimestampResponse_Validate :: "timestamp_response option \<Rightarrow> err option" where
  "TimestampResponse_Validate x = (case x of
       None \<Rightarrow> Some (OtherError ''TimestampResponse is nil'')
     | Some x \<Rightarrow>
         if \<not> timestamp_IsValid (tr_RequestTimestamp x) \<or> \<not> timestamp_IsValid (tr_ResponseTimestamp x)
         then Some (OtherError ''TimestampResponse has missing fields'') else None)"

definition TimestampRequest_Validate :: "timestamp_request option \<Rightarrow> err option" where
  "TimestampRequest_Validate x = (case x of
       None \<Rightarrow> Some (OtherError ''TimestampRequest is nil'')
     | Some x \<Rightarrow>
         if \<not> timestamp_IsValid (tq_RequestTimestamp x)
         then Some (OtherError ''TimestampRequest has missing fields'') else None)"

text \<open>The outer option is a nil message, the inner one a message without a payload.\<close>

definition SessionIn_Validate :: "session_in option option \<Rightarrow> err option" where
  "SessionIn_Validate x = (case x of
       None \<Rightarrow> Some (OtherError ''SessionIn is nil'')
     | Some None \<Rightarrow> Some (OtherError ''SessionIn.Payload is nil'')
     | Some (Some (SessionIn_Hello h)) \<Rightarrow> HelloRequest_Validate (Some h)
     | Some (Some (SessionIn_Heartbeat h)) \<Rightarrow> Heartbeat_Validate (Some h)
     | Some (Some (SessionIn_GetDataServers _)) \<Rightarrow> None
     | Some (Some (SessionIn_GetApiServers _)) \<Rightarrow> None
     | Some (Some (SessionIn_TimestampResponse r)) \<Rightarrow> TimestampResponse_Validate (Some r)
     | Some (Some SessionIn_Unknown) \<Rightarrow> Some (OtherError ''SessionIn.Payload is unknown.''))"

definition SessionOut_Validate :: "session_out option option \<Rightarrow> err option" where
  "SessionOut_Validate x = (case x of
       None \<Rightarrow> Some (OtherError ''SessionOut is nil'')
     | Some None \<Rightarrow> Some (OtherError ''SessionOut.Payload is nil'')
     | Some (Some (SessionOut_Hello h)) \<Rightarrow> HelloResponse_Validate (Some h)
     | Some (Some (SessionOut_DataServerConfig c)) \<Rightarrow> DataServerConfig_Validate (Some c)
     | Some (Some (SessionOut_ApiServerConfig c)) \<Rightarrow> ApiServerConfig_Validate (Some c)
     | Some (Some (SessionOut_DataServers s)) \<Rightarrow> DataServers_Validate (Some s)
     | Some (Some (SessionOut_ApiServers s)) \<Rightarrow> ApiServers_Validate (Some s)
     | Some (Some (SessionOut_TimestampRequest r)) \<Rightarrow> TimestampRequest_Validate (Some r)
     | Some (Some SessionOut_Unknown) \<Rightarrow> Some (OtherError ''SessionOut.Payload is unknown.''))"

section \<open>What an accepted routing table looks like\<close>

lemma validate_read_servers_ok:
  "validate_read_servers srvs is = None \<longleftrightarrow> (\<forall>i \<in> set is. mget srvs i \<noteq> None)"
  by (induction srvs "is" rule: validate_read_servers.induct) auto

lemma validate_routes_ok:
  "validate_routes count srvs m = None \<Longrightarrow> (i, p) \<in> set m \<Longrightarrow>
    i = sp_Id p \<and> i < count \<and> (sp_LeaderServerId p \<noteq> 0 \<longrightarrow> mget srvs (sp_LeaderServerId p) \<noteq> None) \<and>
    (\<forall>j \<in> set (sp_ReplicaServerIds p). mget srvs j \<noteq> None)"
  by (induction count srvs m rule: validate_routes.induct)
     (auto simp: validate_read_servers_ok ServersPartition_Validate_def split: if_splits option.splits)

lemma validate_servers_ok:
  "validate_servers m = None \<Longrightarrow> (i, s) \<in> set m \<Longrightarrow> i = sa_Id s \<and> i \<noteq> 0 \<and> sa_Address s \<noteq> ''''"
  by (induction m rule: validate_servers.induct)
     (auto simp: ServersServer_Validate_def split: if_splits option.splits)

text \<open>Distinct words below a bound, as many as the bound: they are all of them.\<close>

lemma card_words_below: "card {i :: 'a::len word. i < n} = unat n"
proof -
  have "{i. i < n} = of_nat ` {..<unat n}"
  proof (intro set_eqI iffI)
    fix i assume "i \<in> {i. i < n}"
    then show "i \<in> of_nat ` {..<unat n}"
      by (intro image_eqI [of _ _ "unat i"]) (simp_all add: word_less_nat_alt)
  next
    fix i :: "'a word" assume "i \<in> of_nat ` {..<unat n}"
    then obtain k where k: "i = of_nat k" "k < unat n" by auto
    have "k < 2 ^ LENGTH('a)" by (rule less_trans [OF k(2) unsigned_less])
    then have "unat (of_nat k :: 'a word) = k" by (simp add: unat_of_nat take_bit_nat_eq_self)
    with k show "i \<in> {i. i < n}" by (simp add: word_less_nat_alt)
  qed
  moreover have "inj_on (of_nat :: nat \<Rightarrow> 'a word) {..<unat n}"
  proof (intro inj_onI)
    fix a b assume ab: "a \<in> {..<unat n}" "b \<in> {..<unat n}" "(of_nat a :: 'a word) = of_nat b"
    have "a < 2 ^ LENGTH('a)" "b < 2 ^ LENGTH('a)"
      using ab(1,2) unsigned_less [of n, where ?'a = nat] by (auto intro: less_trans)
    with ab(3) show "a = b" by (simp add: word_of_nat_eq_iff take_bit_nat_eq_self)
  qed
  ultimately show ?thesis by (simp add: card_image)
qed

lemma keys_all_below:
  fixes n :: "'a::len word"
  assumes "gomap_wf m" "length m = unat n" "\<forall>(i, _) \<in> set m. i < n"
  shows "fst ` set m = {i. i < n}"
proof (rule card_subset_eq)
  show "finite {i. i < n}" by simp
  show "fst ` set m \<subseteq> {i. i < n}" using assms(3) by auto
  show "card (fst ` set m) = card {i. i < n}"
    using assms(1,2) card_words_below [of n] by (metis distinct_card gomap_wf_def length_map list.set_map)
qed

text \<open>
  C19: a routing table that passes validation routes every partition: its partitions are exactly the
  numbers below the partition count, each under its own number, and every leader and every replica
  it names is a server of the table with an address.
\<close>

theorem DataServers_Validate_complete:
  assumes "DataServers_Validate (Some x) = None" "gomap_wf (ds_Partitions x)" "gomap_wf (ds_Servers x)"
  shows "fst ` set (ds_Partitions x) = {i. i < ds_PartitionCount x} \<and>
    (\<forall>(i, p) \<in> set (ds_Partitions x). sp_Id p = i \<and>
      (\<forall>j \<in> set (sp_ReplicaServerIds p) \<union> ({sp_LeaderServerId p} - {0}).
         \<exists>s. mget (ds_Servers x) j = Some s \<and> sa_Id s = j \<and> sa_Address s \<noteq> ''''))"
proof -
  have v: "validate_servers (ds_Servers x) = None" "length (ds_Partitions x) = unat (ds_PartitionCount x)"
    "validate_routes (ds_PartitionCount x) (ds_Servers x) (ds_Partitions x) = None"
    using assms(1) by (auto simp: DataServers_Validate_def split: if_splits option.splits)
  have "\<forall>(i, _) \<in> set (ds_Partitions x). i < ds_PartitionCount x" using validate_routes_ok [OF v(3)] by blast
  then have 1: "fst ` set (ds_Partitions x) = {i. i < ds_PartitionCount x}" by (rule keys_all_below [OF assms(2) v(2)])
  have 2: "\<exists>s. mget (ds_Servers x) j = Some s \<and> sa_Id s = j \<and> sa_Address s \<noteq> ''''"
    if j: "mget (ds_Servers x) j \<noteq> None" for j
  proof -
    obtain s where s: "mget (ds_Servers x) j = Some s" using j by auto
    then show ?thesis using validate_servers_ok [OF v(1) map_of_SomeD [OF s]] by simp
  qed
  have "sp_Id p = i \<and> (\<forall>j \<in> set (sp_ReplicaServerIds p) \<union> ({sp_LeaderServerId p} - {0}).
      \<exists>s. mget (ds_Servers x) j = Some s \<and> sa_Id s = j \<and> sa_Address s \<noteq> '''')"
    if "(i, p) \<in> set (ds_Partitions x)" for i p
    using validate_routes_ok [OF v(3) that] 2 by auto
  with 1 show ?thesis by blast
qed

definition sample_table :: data_servers where
  "sample_table = \<lparr>ds_ETag = ''t'', ds_Servers = [(7, \<lparr>sa_Id = 7, sa_Address = ''a''\<rparr>)],
     ds_Partitions = [(1, \<lparr>sp_ETag = ''e'', sp_Id = 1, sp_LeaderServerId = 7, sp_ReplicaServerIds = [7]\<rparr>),
       (0, \<lparr>sp_ETag = ''e'', sp_Id = 0, sp_LeaderServerId = 0, sp_ReplicaServerIds = [7]\<rparr>)],
     ds_PartitionCount = 2, ds_ServiceConfigJson = ''{}''\<rparr>"

theorem DataServers_Validate_complete_witness:
  "DataServers_Validate (Some sample_table) = None \<and> fst ` set (ds_Partitions sample_table) = {i. i < 2}"
proof -
  have v: "DataServers_Validate (Some sample_table) = None" by code_simp
  from DataServers_Validate_complete [OF this] v show ?thesis by (simp add: sample_table_def gomap_wf_def)
qed

end
