(* ===== verification/Control_Fsm.thy ===== *)
theory Control_Fsm
  imports Control_Data
begin

text \<open>
  The replicated state machine of the control plane (\<^verbatim>\<open>src/internal/control/server/storage\<close>): cluster
  bootstrap, registration of servers, status updates, and the assignment of partition replicas to
  servers. A function that dereferences a nil pointer returns \<open>None\<close>: the process is gone. The
  decoding of a command is a parameter.
\<close>

section \<open>Commands and results\<close>

record boot_server =
  bs_Id :: u64
  bs_Name :: string
  bs_Address :: string
  bs_Tags :: "string list"

record bootstrap =
  bt_ClusterName :: string
  bt_Servers :: "boot_server list"
  bt_PartitionCount :: u32

record register_cmd =
  rg_Type :: server_type
  rg_Token :: string
  rg_Address :: string
  rg_Tags :: "string list"

record status_server =
  us_LastSeen :: gotime
  us_LastAddress :: string

record status_rep =
  ur_LastUpdate :: gotime
  ur_AppliedIndex :: u64
  ur_Ready :: bool

record status_part =
  up_Replicas :: "(string, status_rep) gomap"
  up_Leader :: string
  up_LeaderTerm :: u64
  up_LeaderAppliedIndex :: u64
  up_CommitedIndex :: u64

record update_status =
  ust_Servers :: "(u64, status_server) gomap"
  ust_Partitions :: "(u32, status_part) gomap"

record init_add =
  ia_PartitionId :: u32
  ia_ServerId :: u64
  ia_Voter :: bool

record init_assignments =
  in_Add :: "init_add list"
  in_MaxImbalance :: u32

record asg_add =
  ad_PartitionId :: u32
  ad_ServerId :: u64

record asg_update =
  ud_PartitionId :: u32
  ud_Replica :: string
  ud_State :: replica_state

record asg_remove =
  re_PartitionId :: u32
  re_Replica :: string

record update_assignments =
  ua_IfMatch :: u64
  ua_Add :: "asg_add list"
  ua_Update :: "asg_update list"
  ua_Remove :: "asg_remove list"
  ua_MaxImbalance :: u32

datatype cmd_payload =
    Cmd_Bootstrap bootstrap
  | Cmd_Register register_cmd
  | Cmd_UpdateStatus update_status
  | Cmd_InitAssignments init_assignments
  | Cmd_UpdateAssignments update_assignments
  | Cmd_Unknown

record command =
  cmd_IfMatch :: u64
  cmd_Payload :: cmd_payload

definition newCommand :: "cmd_payload \<Rightarrow> command option" where
  "newCommand p = (case p of Cmd_Unknown \<Rightarrow> None | _ \<Rightarrow> Some \<lparr>cmd_IfMatch = 0, cmd_Payload = p\<rparr>)"

definition getPayload :: "command \<Rightarrow> cmd_payload option" where
  "getPayload cmd = (case cmd_Payload cmd of Cmd_Unknown \<Rightarrow> None | p \<Rightarrow> Some p)"

datatype fsm_result =
    BootstrapResult bool
  | RegisterResult u64 string
  | UpdateResult u64
  | NoResult

definition IsEmpty_update :: "update_assignments \<Rightarrow> bool" where
  "IsEmpty_update u \<longleftrightarrow> length (ua_Add u) = 0 \<and> length (ua_Update u) = 0 \<and> length (ua_Remove u) = 0"

section \<open>State\<close>

record fsm_meters =
  fm_ApplySuccess :: nat
  fm_ApplyError :: nat
  fm_ServerTotal :: nat
  fm_ServerControl :: nat
  fm_ServerData :: nat
  fm_ServerApi :: nat
  fm_ReplicaCount :: nat
  fm_ReplicaJoining :: nat
  fm_ReplicaServing :: nat
  fm_ReplicaLeaving :: nat
  fm_ReplicaMaxImbalance :: nat

record fsm =
  fs_notifyCh :: bool
  fs_meters :: fsm_meters
  fs_index :: u64
  fs_version :: u64
  fs_clusterName :: string
  fs_createdTime :: gotime
  fs_partitionCount :: u32
  fs_servers :: "servers option"
  fs_partitions :: "parts option"

definition newFsmMeters :: fsm_meters where
  "newFsmMeters = \<lparr>fm_ApplySuccess = 0, fm_ApplyError = 0, fm_ServerTotal = 0, fm_ServerControl = 0,
     fm_ServerData = 0, fm_ServerApi = 0, fm_ReplicaCount = 0, fm_ReplicaJoining = 0, fm_ReplicaServing = 0,
     fm_ReplicaLeaving = 0, fm_ReplicaMaxImbalance = 0\<rparr>"

definition NewFSM :: fsm where
  "NewFSM = \<lparr>fs_notifyCh = False, fs_meters = newFsmMeters, fs_index = 0, fs_version = 0, fs_clusterName = '''',
     fs_createdTime = 0, fs_partitionCount = 0, fs_servers = None, fs_partitions = None\<rparr>"

definition fsmMeters_Update :: "fsm \<Rightarrow> fsm option" where
  "fsmMeters_Update f = do {
     ss \<leftarrow> fs_servers f;
     ps \<leftarrow> fs_partitions f;
     Some (f\<lparr>fs_meters := (fs_meters f)\<lparr>
       fm_ServerTotal := length (ss_Items ss),
       fm_ServerControl := CountForType ST_Control ss,
       fm_ServerData := CountForType ST_Data ss,
       fm_ServerApi := CountForType ST_Api ss,
       fm_ReplicaCount := ReplicaCount ps,
       fm_ReplicaJoining := ReplicaCountForState RS_Joining ps,
       fm_ReplicaServing := ServingReplicaCount ps,
       fm_ReplicaLeaving := ReplicaCountForState RS_Leaving ps,
       fm_ReplicaMaxImbalance := unat (ps_MaxImbalance ps)\<rparr>\<rparr>)
   }"

definition notifyStore :: "fsm \<Rightarrow> fsm" where
  "notifyStore f = f\<lparr>fs_notifyCh := True\<rparr>"

definition add_error :: "fsm \<Rightarrow> fsm" where
  "add_error f = f\<lparr>fs_meters := (fs_meters f)\<lparr>fm_ApplyError := fm_ApplyError (fs_meters f) + 1\<rparr>\<rparr>"

definition add_success :: "fsm \<Rightarrow> fsm" where
  "add_success f = f\<lparr>fs_meters := (fs_meters f)\<lparr>fm_ApplySuccess := fm_ApplySuccess (fs_meters f) + 1\<rparr>\<rparr>"

section \<open>Names\<close>

text \<open>The decimal notation of \<^verbatim>\<open>%d\<close>.\<close>

definition digit :: "nat \<Rightarrow> char" where
  "digit d = char_of (48 + d)"

fun decimal :: "nat \<Rightarrow> string" where
  "decimal n = (if n < 10 then [digit n] else decimal (n div 10) @ [digit (n mod 10)])"

declare decimal.simps [simp del]

definition replica_name :: "u32 \<Rightarrow> u64 \<Rightarrow> string" where
  "replica_name pid n = ''p'' @ decimal (unat pid) @ ''_r'' @ decimal (unat n)"

definition serverNamePrefix :: "server_type \<Rightarrow> string" where
  "serverNamePrefix t = (case t of ST_Control \<Rightarrow> ''control_'' | ST_Data \<Rightarrow> ''data_'' | ST_Api \<Rightarrow> ''api_'' | ST_Unknown \<Rightarrow> '''')"

section \<open>Helpers\<close>

definition nextServerID :: "servers \<Rightarrow> u64 \<times> servers" where
  "nextServerID s = (ss_LastId s + 1, s\<lparr>ss_LastId := ss_LastId s + 1\<rparr>)"

definition isValidDataServer :: "servers \<Rightarrow> u64 \<Rightarrow> bool" where
  "isValidDataServer s serverID \<longleftrightarrow> (case mget (ss_Items s) serverID of
       None \<Rightarrow> False | Some x \<Rightarrow> srv_Type x = ST_Data)"

definition isValidPartitionID :: "fsm \<Rightarrow> u32 \<Rightarrow> bool" where
  "isValidPartitionID f pid \<longleftrightarrow> pid < fs_partitionCount f"

definition isValidReplicaName :: "parts \<Rightarrow> u32 \<Rightarrow> string \<Rightarrow> bool option" where
  "isValidReplicaName ps pid replica = do { p \<leftarrow> mget (ps_Items ps) pid; Some (mget (pa_Replicas p) replica \<noteq> None) }"

definition getReplica :: "parts \<Rightarrow> u32 \<Rightarrow> string \<Rightarrow> part_replica option option" where
  "getReplica ps pid replica = do { p \<leftarrow> mget (ps_Items ps) pid; Some (mget (pa_Replicas p) replica) }"

definition getReplicaByServer :: "parts \<Rightarrow> u32 \<Rightarrow> u64 \<Rightarrow> part_replica option option" where
  "getReplicaByServer ps pid serverID = do { p \<leftarrow> mget (ps_Items ps) pid; Some (ReplicaForServer serverID p) }"

definition nextReplicaName :: "part \<Rightarrow> string \<times> part" where
  "nextReplicaName p =
     (let n = pa_LastReplicaId p + 1 in (replica_name (pa_Id p) n, p\<lparr>pa_LastReplicaId := n\<rparr>))"

definition isValidReplicaTransition :: "part_replica option \<Rightarrow> replica_state \<Rightarrow> bool" where
  "isValidReplicaTransition replica nextState = (case nextState of
       RS_Joining \<Rightarrow> replica = None
     | RS_Voter \<Rightarrow> (case replica of None \<Rightarrow> False | Some r \<Rightarrow> rp_State r = RS_Joining \<or> rp_State r = RS_NonVoter)
     | RS_NonVoter \<Rightarrow> (case replica of None \<Rightarrow> False | Some r \<Rightarrow> rp_State r = RS_Joining \<or> rp_State r = RS_Voter)
     | RS_Leaving \<Rightarrow> replica \<noteq> None
     | RS_Stopped \<Rightarrow> False)"

definition put_part :: "u32 \<Rightarrow> part \<Rightarrow> parts \<Rightarrow> parts" where
  "put_part pid p ps = ps\<lparr>ps_Items := mput pid p (ps_Items ps)\<rparr>"

section \<open>Bootstrap, registration, status\<close>

definition boot_add :: "gotime \<Rightarrow> boot_server \<Rightarrow> servers \<Rightarrow> servers" where
  "boot_add appendedAt x s = s\<lparr>ss_LastId := max (ss_LastId s) (bs_Id x),
     ss_Items := mput (bs_Id x) \<lparr>srv_Id = bs_Id x, srv_Name = bs_Name x, srv_Type = ST_Control, srv_Tags = bs_Tags x,
       srv_RegisteredAt = appendedAt, srv_LastSeen = appendedAt, srv_LastAddress = bs_Address x\<rparr> (ss_Items s)\<rparr>"

definition new_part :: "u32 \<Rightarrow> part" where
  "new_part i = \<lparr>pa_Id = i, pa_Replicas = [], pa_LastReplicaId = 0, pa_AssignmentsVersion = 0, pa_Leader = '''',
     pa_LeaderTerm = 0, pa_LeaderAppliedIndex = 0, pa_CommitedIndex = 0\<rparr>"

definition boot_parts :: "u32 \<Rightarrow> (u32, part) gomap" where
  "boot_parts n = map (\<lambda>i. (of_nat i, new_part (of_nat i))) [0..<unat n]"

definition applyBootstrap :: "gotime \<Rightarrow> bootstrap \<Rightarrow> fsm \<Rightarrow> fsm_result \<times> fsm" where
  "applyBootstrap appendedAt cmd f =
     (if fs_clusterName f \<noteq> '''' then (BootstrapResult False, f)
      else (BootstrapResult True,
        f\<lparr>fs_clusterName := bt_ClusterName cmd, fs_createdTime := appendedAt, fs_partitionCount := bt_PartitionCount cmd,
          fs_servers := Some (fold (boot_add appendedAt) (bt_Servers cmd)
            \<lparr>ss_Version = 1, ss_RegisterVersion = 1, ss_Items = [], ss_LastId = 0, ss_Tokens = []\<rparr>),
          fs_partitions := Some \<lparr>ps_Version = 0, ps_AssignmentsVersion = 0,
            ps_Items = boot_parts (bt_PartitionCount cmd), ps_MaxImbalance = 0\<rparr>\<rparr>))"

text \<open>Two days, in nanoseconds.\<close>

definition tokenValidityWindow :: int where
  "tokenValidityWindow = 2 * 24 * 3600 * 1000000000"

definition applyRegister :: "gotime \<Rightarrow> register_cmd \<Rightarrow> fsm \<Rightarrow> ((err + fsm_result) \<times> fsm) option" where
  "applyRegister appendedAt cmd f = do {
     ss \<leftarrow> fs_servers f;
     (case mget (ss_Tokens ss) (rg_Token cmd) of
        Some i \<Rightarrow> do {
          x \<leftarrow> mget (ss_Items ss) i;
          Some (if srv_RegisteredAt x < appendedAt - tokenValidityWindow
                then (Inl (ValidationError ''Token expired.''), f)
                else (Inr (RegisterResult i (srv_Name x)), f))
        }
      | None \<Rightarrow>
          (let (i, ss1) = nextServerID ss;
               name = serverNamePrefix (rg_Type cmd) @ decimal (unat i);
               ss2 = ss1\<lparr>ss_Items := mput i \<lparr>srv_Id = i, srv_Name = name, srv_Type = rg_Type cmd, srv_Tags = rg_Tags cmd,
                             srv_RegisteredAt = appendedAt, srv_LastSeen = appendedAt, srv_LastAddress = rg_Address cmd\<rparr> (ss_Items ss1),
                         ss_Tokens := mput (rg_Token cmd) i (ss_Tokens ss1),
                         ss_RegisterVersion := ss_RegisterVersion ss1 + 1, ss_Version := ss_Version ss1 + 1\<rparr>
           in Some (Inr (RegisterResult i name), f\<lparr>fs_servers := Some ss2\<rparr>)))
   }"

fun status_servers :: "(u64, status_server) gomap \<Rightarrow> (u64, server) gomap \<Rightarrow> (u64, server) gomap" where
  "status_servers [] items = items"
| "status_servers ((i, u) # m) items = status_servers m (case mget items i of
       None \<Rightarrow> items
     | Some s \<Rightarrow> mput i (s\<lparr>srv_LastSeen := us_LastSeen u, srv_LastAddress := us_LastAddress u\<rparr>) items)"

fun status_replicas :: "(string, status_rep) gomap \<Rightarrow> (string, part_replica) gomap \<Rightarrow> (string, part_replica) gomap" where
  "status_replicas [] rs = rs"
| "status_replicas ((n, u) # m) rs = status_replicas m (case mget rs n of
       None \<Rightarrow> rs
     | Some r \<Rightarrow> mput n (r\<lparr>rp_LastUpdate := ur_LastUpdate u, rp_AppliedIndex := ur_AppliedIndex u, rp_Ready := ur_Ready u\<rparr>) rs)"

definition status_part_update :: "status_part \<Rightarrow> part \<Rightarrow> part" where
  "status_part_update u p =
     p\<lparr>pa_Leader := up_Leader u, pa_LeaderTerm := up_LeaderTerm u, pa_LeaderAppliedIndex := up_LeaderAppliedIndex u,
       pa_CommitedIndex := up_CommitedIndex u, pa_Replicas := status_replicas (up_Replicas u) (pa_Replicas p)\<rparr>"

fun status_parts :: "(u32, status_part) gomap \<Rightarrow> parts \<Rightarrow> parts option" where
  "status_parts [] ps = Some ps"
| "status_parts ((pid, u) # m) ps = do {
     p \<leftarrow> mget (ps_Items ps) pid;
     status_parts m (put_part pid (status_part_update u p) ps)
   }"

definition applyUpdateStatus :: "update_status \<Rightarrow> fsm \<Rightarrow> fsm option" where
  "applyUpdateStatus cmd f = do {
     ss \<leftarrow> fs_servers f;
     ps \<leftarrow> fs_partitions f;
     let ss1 = ss\<lparr>ss_Items := status_servers (ust_Servers cmd) (ss_Items ss)\<rparr>;
     ps1 \<leftarrow> status_parts (ust_Partitions cmd) ps;
     Some (f\<lparr>fs_servers := Some (if length (ust_Servers cmd) > 0 then ss1\<lparr>ss_Version := ss_Version ss1 + 1\<rparr> else ss1),
             fs_partitions := Some (if length (ust_Partitions cmd) > 0 then ps1\<lparr>ps_Version := ps_Version ps1 + 1\<rparr> else ps1)\<rparr>)
   }"

section \<open>Assignments\<close>

definition new_replica :: "gotime \<Rightarrow> string \<Rightarrow> u64 \<Rightarrow> replica_state \<Rightarrow> part_replica" where
  "new_replica appendedAt name serverID state =
     \<lparr>rp_Name = name, rp_ServerId = serverID, rp_State = state, rp_CreatedTime = appendedAt,
      rp_StateTransitionTime = appendedAt, rp_LastUpdate = 0, rp_AppliedIndex = 0, rp_Ready = False\<rparr>"

definition add_replica :: "gotime \<Rightarrow> u64 \<Rightarrow> replica_state \<Rightarrow> part \<Rightarrow> part" where
  "add_replica appendedAt serverID state p =
     (let (name, p1) = nextReplicaName p
      in p1\<lparr>pa_Replicas := mput name (new_replica appendedAt name serverID state) (pa_Replicas p1)\<rparr>)"

fun validate_init_loop ::
    "fsm \<Rightarrow> servers \<Rightarrow> init_add list \<Rightarrow> (u32 \<times> u64) list \<Rightarrow> u32 list \<Rightarrow> err + u32 list" where
  "validate_init_loop f ss [] seenPairs seenPart = Inr seenPart"
| "validate_init_loop f ss (x # xs) seenPairs seenPart =
     (if \<not> isValidPartitionID f (ia_PartitionId x) \<or> \<not> isValidDataServer ss (ia_ServerId x)
      then Inl (OtherError ''has invalid fields'')
      else if (ia_PartitionId x, ia_ServerId x) \<in> set seenPairs then Inl (OtherError ''has duplicate entries'')
      else validate_init_loop f ss xs ((ia_PartitionId x, ia_ServerId x) # seenPairs)
             (if ia_PartitionId x \<in> set seenPart then seenPart else ia_PartitionId x # seenPart))"

definition validateInitAssignments :: "fsm \<Rightarrow> servers \<Rightarrow> init_assignments \<Rightarrow> err option" where
  "validateInitAssignments f ss cmd = (case validate_init_loop f ss (in_Add cmd) [] [] of
       Inl e \<Rightarrow> Some e
     | Inr seenPart \<Rightarrow>
         if length seenPart \<noteq> unat (fs_partitionCount f) then Some (OtherError ''has missing partitions'') else None)"

fun init_loop :: "gotime \<Rightarrow> init_add list \<Rightarrow> parts \<Rightarrow> parts option" where
  "init_loop appendedAt [] ps = Some ps"
| "init_loop appendedAt (x # xs) ps = do {
     p \<leftarrow> mget (ps_Items ps) (ia_PartitionId x);
     let p1 = add_replica appendedAt (ia_ServerId x) (if ia_Voter x then RS_Voter else RS_NonVoter) p;
     init_loop appendedAt xs (put_part (ia_PartitionId x) (p1\<lparr>pa_AssignmentsVersion := 1\<rparr>) ps)
   }"

definition applyInitAssignments ::
    "gotime \<Rightarrow> init_assignments \<Rightarrow> fsm \<Rightarrow> ((err + fsm_result) \<times> fsm) option" where
  "applyInitAssignments appendedAt cmd f = do {
     ps \<leftarrow> fs_partitions f;
     ss \<leftarrow> fs_servers f;
     (if HasAssignments ps then Some (Inl InvalidRequest, f)
      else case validateInitAssignments f ss cmd of
          Some e \<Rightarrow> Some (Inl e, f)
        | None \<Rightarrow> do {
            ps1 \<leftarrow> init_loop appendedAt (in_Add cmd) ps;
            Some (Inr (UpdateResult 1), f\<lparr>fs_partitions := Some (ps1\<lparr>ps_MaxImbalance := in_MaxImbalance cmd,
              ps_AssignmentsVersion := 1, ps_Version := 1\<rparr>)\<rparr>)
          })
   }"

text \<open>The three loops of \<^verbatim>\<open>validateUpdateAssignments\<close>; the inner option is the error.\<close>

fun validate_adds :: "fsm \<Rightarrow> servers \<Rightarrow> parts \<Rightarrow> asg_add list \<Rightarrow> err option option" where
  "validate_adds f ss ps [] = Some None"
| "validate_adds f ss ps (x # xs) =
     (if \<not> isValidPartitionID f (ad_PartitionId x) \<or> \<not> isValidDataServer ss (ad_ServerId x)
      then Some (Some (OtherError ''has invalid Add fields''))
      else do {
        r \<leftarrow> getReplicaByServer ps (ad_PartitionId x) (ad_ServerId x);
        (if r \<noteq> None then Some (Some (OtherError ''has partition with replicas on the same server''))
         else validate_adds f ss ps xs)
      })"

fun validate_updates :: "fsm \<Rightarrow> parts \<Rightarrow> asg_update list \<Rightarrow> err option option" where
  "validate_updates f ps [] = Some None"
| "validate_updates f ps (x # xs) =
     (if \<not> isValidPartitionID f (ud_PartitionId x) then Some (Some (OtherError ''has invalid Update fields''))
      else do {
        p \<leftarrow> mget (ps_Items ps) (ud_PartitionId x);
        (case mget (pa_Replicas p) (ud_Replica x) of
           None \<Rightarrow> Some (Some (OtherError ''has invalid Update fields''))
         | Some r \<Rightarrow>
             if \<not> isValidReplicaTransition (Some r) (ud_State x) then Some (Some (OtherError ''has invalid state transition''))
             else if \<not> IsServing (ud_State x) \<and> Part_ServingReplicaCount p = 1 \<and> IsServing (rp_State r)
             then Some (Some (OtherError ''cannot remove last serving replica''))
             else validate_updates f ps xs)
      })"

fun validate_removes :: "fsm \<Rightarrow> parts \<Rightarrow> asg_remove list \<Rightarrow> err option option" where
  "validate_removes f ps [] = Some None"
| "validate_removes f ps (x # xs) =
     (if \<not> isValidPartitionID f (re_PartitionId x) then Some (Some (OtherError ''has invalid Remove fields''))
      else do {
        p \<leftarrow> mget (ps_Items ps) (re_PartitionId x);
        (case mget (pa_Replicas p) (re_Replica x) of
           None \<Rightarrow> Some (Some (OtherError ''has invalid Remove fields''))
         | Some r \<Rightarrow>
             if rp_State r \<noteq> RS_Leaving then Some (Some (OtherError ''cannot remove non-leaving replica''))
             else validate_removes f ps xs)
      })"

definition validateUpdateAssignments :: "fsm \<Rightarrow> servers \<Rightarrow> parts \<Rightarrow> update_assignments \<Rightarrow> err option option" where
  "validateUpdateAssignments f ss ps cmd =
     (if IsEmpty_update cmd then Some (Some (OtherError ''is empty''))
      else do {
        a \<leftarrow> validate_adds f ss ps (ua_Add cmd);
        (case a of Some e \<Rightarrow> Some (Some e) | None \<Rightarrow> do {
           u \<leftarrow> validate_updates f ps (ua_Update cmd);
           (case u of Some e \<Rightarrow> Some (Some e) | None \<Rightarrow> validate_removes f ps (ua_Remove cmd))
         })
      })"

text \<open>The three loops that change the partitions; the set of changed partitions is a list without repetition.\<close>

fun add_loop :: "gotime \<Rightarrow> asg_add list \<Rightarrow> parts \<Rightarrow> parts option" where
  "add_loop appendedAt [] ps = Some ps"
| "add_loop appendedAt (x # xs) ps = do {
     p \<leftarrow> mget (ps_Items ps) (ad_PartitionId x);
     add_loop appendedAt xs (put_part (ad_PartitionId x) (add_replica appendedAt (ad_ServerId x) RS_Joining p) ps)
   }"

definition set_replica_state :: "gotime \<Rightarrow> string \<Rightarrow> replica_state \<Rightarrow> part \<Rightarrow> part option" where
  "set_replica_state appendedAt name state p = do {
     r \<leftarrow> mget (pa_Replicas p) name;
     Some (p\<lparr>pa_Replicas := mput name (r\<lparr>rp_State := state, rp_StateTransitionTime := appendedAt\<rparr>) (pa_Replicas p)\<rparr>)
   }"

fun state_loop :: "gotime \<Rightarrow> asg_update list \<Rightarrow> parts \<Rightarrow> parts option" where
  "state_loop appendedAt [] ps = Some ps"
| "state_loop appendedAt (x # xs) ps = do {
     p \<leftarrow> mget (ps_Items ps) (ud_PartitionId x);
     p1 \<leftarrow> set_replica_state appendedAt (ud_Replica x) (ud_State x) p;
     state_loop appendedAt xs (put_part (ud_PartitionId x) p1 ps)
   }"

fun remove_loop :: "asg_remove list \<Rightarrow> parts \<Rightarrow> parts option" where
  "remove_loop [] ps = Some ps"
| "remove_loop (x # xs) ps = do {
     p \<leftarrow> mget (ps_Items ps) (re_PartitionId x);
     remove_loop xs (put_part (re_PartitionId x) (p\<lparr>pa_Replicas := mdel (re_Replica x) (pa_Replicas p)\<rparr>) ps)
   }"

definition changed_parts :: "update_assignments \<Rightarrow> u32 list" where
  "changed_parts cmd = remdups (map ad_PartitionId (ua_Add cmd) @ map ud_PartitionId (ua_Update cmd) @
     map re_PartitionId (ua_Remove cmd))"

fun version_loop :: "u32 list \<Rightarrow> parts \<Rightarrow> parts option" where
  "version_loop [] ps = Some ps"
| "version_loop (pid # pids) ps = do {
     p \<leftarrow> mget (ps_Items ps) pid;
     version_loop pids (put_part pid (p\<lparr>pa_AssignmentsVersion := pa_AssignmentsVersion p + 1\<rparr>) ps)
   }"

definition applyUpdateAssignments ::
    "gotime \<Rightarrow> update_assignments \<Rightarrow> fsm \<Rightarrow> ((err + fsm_result) \<times> fsm) option" where
  "applyUpdateAssignments appendedAt cmd f = do {
     ps \<leftarrow> fs_partitions f;
     ss \<leftarrow> fs_servers f;
     (if ua_IfMatch cmd \<noteq> 0 \<and> ua_IfMatch cmd \<noteq> ps_AssignmentsVersion ps then Some (Inl FailedPrecondition, f)
      else if \<not> HasAssignments ps then Some (Inl InvalidRequest, f)
      else do {
        v \<leftarrow> validateUpdateAssignments f ss ps cmd;
        (case v of
           Some e \<Rightarrow> Some (Inl e, f)
         | None \<Rightarrow> do {
             ps1 \<leftarrow> add_loop appendedAt (ua_Add cmd) ps;
             ps2 \<leftarrow> state_loop appendedAt (ua_Update cmd) ps1;
             ps3 \<leftarrow> remove_loop (ua_Remove cmd) ps2;
             ps4 \<leftarrow> version_loop (changed_parts cmd) ps3;
             let ps5 = ps4\<lparr>ps_MaxImbalance := ua_MaxImbalance cmd,
               ps_AssignmentsVersion := ps_AssignmentsVersion ps4 + 1, ps_Version := ps_Version ps4 + 1\<rparr>;
             Some (Inr (UpdateResult (ps_AssignmentsVersion ps5)), f\<lparr>fs_partitions := Some ps5\<rparr>)
           })
      })
   }"

section \<open>Applying the log\<close>

definition apply_payload :: "gotime \<Rightarrow> cmd_payload \<Rightarrow> fsm \<Rightarrow> ((err + fsm_result) \<times> fsm) option" where
  "apply_payload appendedAt p f = (case p of
       Cmd_Bootstrap x \<Rightarrow> (let (r, f') = applyBootstrap appendedAt x f in Some (Inr r, f'))
     | Cmd_Register x \<Rightarrow> applyRegister appendedAt x f
     | Cmd_UpdateStatus x \<Rightarrow> do { f' \<leftarrow> applyUpdateStatus x f; Some (Inr NoResult, f') }
     | Cmd_InitAssignments x \<Rightarrow> applyInitAssignments appendedAt x f
     | Cmd_UpdateAssignments x \<Rightarrow> applyUpdateAssignments appendedAt x f
     | Cmd_Unknown \<Rightarrow> None)"

definition applyCommand :: "gotime \<Rightarrow> command \<Rightarrow> fsm \<Rightarrow> ((err + fsm_result) \<times> fsm) option" where
  "applyCommand appendedAt cmd f =
     (if cmd_IfMatch cmd \<noteq> 0 \<and> cmd_IfMatch cmd \<noteq> fs_version f then Some (Inl FailedPrecondition, add_error f)
      else do {
        p \<leftarrow> getPayload cmd;
        (r, f1) \<leftarrow> apply_payload appendedAt p f;
        Some (case r of
            Inl e \<Rightarrow> (Inl e, add_error f1)
          | Inr x \<Rightarrow> (Inr x, add_success (f1\<lparr>fs_version := fs_version f1 + 1\<rparr>)))
      })"

definition FSM_Apply ::
    "(bytes \<Rightarrow> err + command) \<Rightarrow> u64 \<Rightarrow> gotime \<Rightarrow> bytes \<Rightarrow> fsm \<Rightarrow> ((err + fsm_result) \<times> fsm) option" where
  "FSM_Apply unmarshal index appendedAt data f = do {
     (r, f1) \<leftarrow> (case unmarshal data of Inl e \<Rightarrow> Some (Inl e, f) | Inr cmd \<Rightarrow> applyCommand appendedAt cmd f);
     f2 \<leftarrow> fsmMeters_Update (notifyStore (f1\<lparr>fs_index := index\<rparr>));
     Some (r, f2)
   }"

definition FSM_Cluster :: "fsm \<Rightarrow> cluster" where
  "FSM_Cluster f = \<lparr>cl_Index = fs_index f, cl_Version = fs_version f, cl_Name = fs_clusterName f,
     cl_CreatedTime = fs_createdTime f, cl_Servers = fs_servers f, cl_Partitions = fs_partitions f,
     cl_PartitionCount = fs_partitionCount f\<rparr>"

definition FSM_Snapshot :: "(cluster \<Rightarrow> err + bytes) \<Rightarrow> fsm \<Rightarrow> err + bytes" where
  "FSM_Snapshot marshal f = marshal (FSM_Cluster f)"

definition FSM_Restore :: "(bytes \<Rightarrow> err + cluster) \<Rightarrow> bytes \<Rightarrow> fsm \<Rightarrow> (err option \<times> fsm) option" where
  "FSM_Restore unmarshal data f = (case unmarshal data of
       Inl e \<Rightarrow> Some (Some e, f)
     | Inr c \<Rightarrow> do {
         f1 \<leftarrow> fsmMeters_Update (notifyStore (f\<lparr>fs_version := cl_Version c, fs_index := cl_Index c, fs_clusterName := cl_Name c,
           fs_createdTime := cl_CreatedTime c, fs_servers := cl_Servers c, fs_partitions := cl_Partitions c,
           fs_partitionCount := cl_PartitionCount c\<rparr>));
         Some (None, f1)
       })"

end
