(* ===== verification/Control_Fsm_Inv.thy ===== *)
theory Control_Fsm_Inv
  imports Control_Fsm
begin

text \<open>
  The invariant of the cluster state: what holds of servers, partitions and replicas in every state
  that a log of commands can reach, and that no command makes the state machine panic once the
  cluster is bootstrapped.
\<close>

section \<open>Names are unique\<close>

definition undecimal :: "string \<Rightarrow> nat" where
  "undecimal = foldl (\<lambda>a c. a * 10 + (of_char c - 48)) 0"

lemma of_char_digit [simp]: "d < 10 \<Longrightarrow> (of_char (digit d) :: nat) = 48 + d"
  by (simp add: digit_def)

lemma undecimal_decimal: "undecimal (decimal n) = n"
proof (induction n rule: decimal.induct)
  case (1 n)
  show ?case
  proof (cases "n < 10")
    case True
    then show ?thesis by (subst decimal.simps) (simp add: undecimal_def)
  next
    case False
    then have "undecimal (decimal n) = undecimal (decimal (n div 10)) * 10 + n mod 10"
      by (subst decimal.simps) (simp add: undecimal_def)
    then show ?thesis using 1 False by simp
  qed
qed

lemma decimal_inject [simp]: "decimal m = decimal n \<longleftrightarrow> m = n"
  using undecimal_decimal by metis

lemma replica_name_inject [simp]: "replica_name pid m = replica_name pid n \<longleftrightarrow> m = n"
  by (simp add: replica_name_def word_unat_eq_iff)

section \<open>The invariant\<close>

definition replica_ok :: "servers \<Rightarrow> u32 \<Rightarrow> u64 \<Rightarrow> string \<Rightarrow> part_replica \<Rightarrow> bool" where
  "replica_ok ss pid lastId name r \<longleftrightarrow> rp_Name r = name \<and> (\<exists>n. n \<le> lastId \<and> name = replica_name pid n) \<and>
     isValidDataServer ss (rp_ServerId r) \<and> rp_State r \<noteq> RS_Stopped"

definition part_ok :: "servers \<Rightarrow> u32 \<Rightarrow> part \<Rightarrow> bool" where
  "part_ok ss pid p \<longleftrightarrow> pa_Id p = pid \<and> gomap_wf (pa_Replicas p) \<and>
     (\<forall>name r. mget (pa_Replicas p) name = Some r \<longrightarrow> replica_ok ss pid (pa_LastReplicaId p) name r)"

definition parts_ok :: "servers \<Rightarrow> u32 \<Rightarrow> parts \<Rightarrow> bool" where
  "parts_ok ss count ps \<longleftrightarrow> gomap_wf (ps_Items ps) \<and> fst ` set (ps_Items ps) = {i. i < count} \<and>
     (\<forall>pid p. mget (ps_Items ps) pid = Some p \<longrightarrow> part_ok ss pid p)"

definition servers_ok :: "servers \<Rightarrow> bool" where
  "servers_ok ss \<longleftrightarrow> gomap_wf (ss_Items ss) \<and>
     (\<forall>i s. mget (ss_Items ss) i = Some s \<longrightarrow> srv_Id s = i \<and> i \<le> ss_LastId ss) \<and>
     (\<forall>t i. mget (ss_Tokens ss) t = Some i \<longrightarrow> mget (ss_Items ss) i \<noteq> None)"

definition cluster_ok :: "fsm \<Rightarrow> bool" where
  "cluster_ok f \<longleftrightarrow> (case (fs_servers f, fs_partitions f) of
       (Some ss, Some ps) \<Rightarrow> servers_ok ss \<and> parts_ok ss (fs_partitionCount f) ps
     | (None, None) \<Rightarrow> fs_clusterName f = ''''
     | _ \<Rightarrow> False)"

text \<open>
  Counters are 64 bits wide and would wrap; a command is in range when none of them does. A status
  update names partitions that exist. The first command bootstraps the cluster.
\<close>

definition room :: "nat \<Rightarrow> parts \<Rightarrow> bool" where
  "room k ps \<longleftrightarrow> (\<forall>pid p. mget (ps_Items ps) pid = Some p \<longrightarrow> unat (pa_LastReplicaId p) + k < 2 ^ 64)"

definition in_range :: "cmd_payload \<Rightarrow> servers \<Rightarrow> parts \<Rightarrow> u32 \<Rightarrow> bool" where
  "in_range c ss ps count \<longleftrightarrow> (case c of
       Cmd_Bootstrap _ \<Rightarrow> True
     | Cmd_Register _ \<Rightarrow> ss_LastId ss < max_u64
     | Cmd_UpdateStatus u \<Rightarrow> (\<forall>(pid, _) \<in> set (ust_Partitions u). pid < count)
     | Cmd_InitAssignments a \<Rightarrow> room (length (in_Add a)) ps
     | Cmd_UpdateAssignments a \<Rightarrow> room (length (ua_Add a)) ps
     | Cmd_Unknown \<Rightarrow> False)"

definition acceptable :: "command \<Rightarrow> fsm \<Rightarrow> bool" where
  "acceptable c f \<longleftrightarrow> (case (fs_servers f, fs_partitions f) of
       (Some ss, Some ps) \<Rightarrow> in_range (cmd_Payload c) ss ps (fs_partitionCount f)
     | _ \<Rightarrow> cmd_IfMatch c = 0 \<and> (case cmd_Payload c of Cmd_Bootstrap _ \<Rightarrow> True | _ \<Rightarrow> False))"

section \<open>Partitions\<close>

lemma parts_ok_get: "parts_ok ss count ps \<Longrightarrow> pid < count \<Longrightarrow> \<exists>p. mget (ps_Items ps) pid = Some p \<and> part_ok ss pid p"
  unfolding parts_ok_def by (metis (mono_tags, lifting) mem_Collect_eq mget_None_iff option.exhaust)

lemma parts_ok_below: "parts_ok ss count ps \<Longrightarrow> mget (ps_Items ps) pid = Some p \<Longrightarrow> pid < count"
  unfolding parts_ok_def by (metis (mono_tags, lifting) mem_Collect_eq mget_None_iff option.distinct(1))

lemma parts_ok_put:
  assumes "parts_ok ss count ps" "pid < count" "part_ok ss pid p"
  shows "parts_ok ss count (put_part pid p ps)"
  using assms by (auto simp: parts_ok_def put_part_def dom_update)

lemma mget_put_part: "mget (ps_Items (put_part pid p ps)) i = (if i = pid then Some p else mget (ps_Items ps) i)"
  by (simp add: put_part_def)

lemma replica_ok_mono: "replica_ok ss pid l name r \<Longrightarrow> l \<le> l' \<Longrightarrow> replica_ok ss pid l' name r"
  unfolding replica_ok_def using order_trans by blast

lemma part_ok_add_replica:
  assumes "part_ok ss pid p" "isValidDataServer ss sid" "st \<noteq> RS_Stopped" "unat (pa_LastReplicaId p) + 1 < 2 ^ 64"
  shows "part_ok ss pid (add_replica at sid st p)"
    and "unat (pa_LastReplicaId (add_replica at sid st p)) = unat (pa_LastReplicaId p) + 1"
proof -
  let ?n = "pa_LastReplicaId p"
  show last: "unat (pa_LastReplicaId (add_replica at sid st p)) = unat ?n + 1"
    using assms(4) by (simp add: add_replica_def nextReplicaName_def Let_def unat_word_ariths)
  then have "?n \<le> ?n + 1" by (simp add: add_replica_def nextReplicaName_def Let_def word_le_nat_alt)
  then have old: "replica_ok ss pid (?n + 1) name r" if "mget (pa_Replicas p) name = Some r" for name r
    using that assms(1) replica_ok_mono unfolding part_ok_def by blast
  have new: "replica_ok ss pid (?n + 1) (replica_name pid (?n + 1)) (new_replica at (replica_name pid (?n + 1)) sid st)"
    using assms(2,3) by (auto simp: replica_ok_def new_replica_def)
  show "part_ok ss pid (add_replica at sid st p)"
    using assms(1) old new by (simp add: part_ok_def add_replica_def nextReplicaName_def Let_def)
qed

text \<open>One pattern covers all loops: each step replaces a partition that exists by one that is well formed.\<close>

lemma room_put:
  assumes "room k ps" "unat (pa_LastReplicaId p) + j < 2 ^ 64" "j \<le> k"
  shows "room j (put_part pid p ps)"
  unfolding room_def mget_put_part
proof (intro allI impI)
  fix i q assume q: "(if i = pid then Some p else mget (ps_Items ps) i) = Some q"
  show "unat (pa_LastReplicaId q) + j < 2 ^ 64"
  proof (cases "i = pid")
    case False
    then have "unat (pa_LastReplicaId q) + k < 2 ^ 64" using assms(1) q unfolding room_def by simp
    with assms(3) show ?thesis by linarith
  qed (use q assms(2) in simp)
qed

lemma add_loop_ok:
  assumes "parts_ok ss count ps" "room (length xs) ps"
    and "\<forall>x \<in> set xs. ad_PartitionId x < count \<and> isValidDataServer ss (ad_ServerId x)"
  shows "\<exists>ps'. add_loop at xs ps = Some ps' \<and> parts_ok ss count ps' \<and>
    (\<forall>pid p n. mget (ps_Items ps) pid = Some p \<longrightarrow> mget (pa_Replicas p) n \<noteq> None \<longrightarrow>
       (\<exists>p'. mget (ps_Items ps') pid = Some p' \<and> mget (pa_Replicas p') n \<noteq> None))"
  using assms
proof (induction xs arbitrary: ps)
  case (Cons x xs)
  have x: "ad_PartitionId x < count" "isValidDataServer ss (ad_ServerId x)" using Cons.prems(3) by auto
  obtain p where p: "mget (ps_Items ps) (ad_PartitionId x) = Some p" "part_ok ss (ad_PartitionId x) p"
    using parts_ok_get [OF Cons.prems(1) x(1)] by blast
  let ?p = "add_replica at (ad_ServerId x) RS_Joining p"
  let ?ps = "put_part (ad_PartitionId x) ?p ps"
  have r: "unat (pa_LastReplicaId p) + length (x # xs) < 2 ^ 64" using Cons.prems(2) p(1) unfolding room_def by blast
  then have "unat (pa_LastReplicaId p) + 1 < 2 ^ 64" by simp
  note ok = part_ok_add_replica [OF p(2) x(2) _ this, of RS_Joining at, simplified]
  have "parts_ok ss count ?ps" by (rule parts_ok_put [OF Cons.prems(1) x(1) ok(1)])
  moreover have "room (length xs) ?ps" using Cons.prems(2) ok(2) r by (intro room_put [of "length (x # xs)"]) simp_all
  ultimately obtain ps' where ps': "add_loop at xs ?ps = Some ps'" "parts_ok ss count ps'"
    "\<forall>pid p n. mget (ps_Items ?ps) pid = Some p \<longrightarrow> mget (pa_Replicas p) n \<noteq> None \<longrightarrow>
       (\<exists>p'. mget (ps_Items ps') pid = Some p' \<and> mget (pa_Replicas p') n \<noteq> None)"
    using Cons.IH [of ?ps] Cons.prems(3) by auto
  have keep: "mget (pa_Replicas ?p) n \<noteq> None" if "mget (pa_Replicas p) n \<noteq> None" for n
    using that by (simp add: add_replica_def nextReplicaName_def Let_def)
  have "\<exists>p'. mget (ps_Items ps') pid = Some p' \<and> mget (pa_Replicas p') n \<noteq> None"
    if "mget (ps_Items ps) pid = Some q" "mget (pa_Replicas q) n \<noteq> None" for pid q n
    using ps'(3) that keep p(1) by (cases "pid = ad_PartitionId x") (auto simp: mget_put_part)
  with ps'(1,2) p(1) show ?case by auto
qed simp

lemma init_loop_ok:
  assumes "parts_ok ss count ps" "room (length xs) ps"
    and "\<forall>x \<in> set xs. ia_PartitionId x < count \<and> isValidDataServer ss (ia_ServerId x)"
  shows "\<exists>ps'. init_loop at xs ps = Some ps' \<and> parts_ok ss count ps'"
  using assms
proof (induction xs arbitrary: ps)
  case (Cons x xs)
  have x: "ia_PartitionId x < count" "isValidDataServer ss (ia_ServerId x)" using Cons.prems(3) by auto
  obtain p where p: "mget (ps_Items ps) (ia_PartitionId x) = Some p" "part_ok ss (ia_PartitionId x) p"
    using parts_ok_get [OF Cons.prems(1) x(1)] by blast
  let ?st = "if ia_Voter x then RS_Voter else RS_NonVoter"
  let ?q = "add_replica at (ia_ServerId x) ?st p"
  let ?p = "?q\<lparr>pa_AssignmentsVersion := 1\<rparr>"
  let ?ps = "put_part (ia_PartitionId x) ?p ps"
  have r: "unat (pa_LastReplicaId p) + length (x # xs) < 2 ^ 64" using Cons.prems(2) p(1) unfolding room_def by blast
  then have "unat (pa_LastReplicaId p) + 1 < 2 ^ 64" by simp
  note ok = part_ok_add_replica [OF p(2) x(2) _ this, of ?st at]
  have "part_ok ss (ia_PartitionId x) ?p" using ok(1) by (simp add: part_ok_def split: if_splits)
  then have "parts_ok ss count ?ps" by (rule parts_ok_put [OF Cons.prems(1) x(1)])
  moreover have "room (length xs) ?ps"
    using Cons.prems(2) ok(2) r by (intro room_put [of "length (x # xs)"]) (simp_all split: if_splits)
  ultimately show ?case using Cons.IH [of ?ps] Cons.prems(3) p(1) by (simp add: Let_def)
qed simp

lemma part_ok_set_state:
  assumes "part_ok ss pid p" "set_replica_state at name st p = Some p'" "st \<noteq> RS_Stopped"
  shows "part_ok ss pid p'"
  using assms by (auto simp: part_ok_def set_replica_state_def replica_ok_def split: bind_splits if_splits)

lemma state_loop_ok:
  assumes "parts_ok ss count ps"
    and "\<forall>x \<in> set xs. ud_PartitionId x < count \<and> ud_State x \<noteq> RS_Stopped \<and>
      (\<exists>p. mget (ps_Items ps) (ud_PartitionId x) = Some p \<and> mget (pa_Replicas p) (ud_Replica x) \<noteq> None)"
  shows "\<exists>ps'. state_loop at xs ps = Some ps' \<and> parts_ok ss count ps'"
  using assms
proof (induction xs arbitrary: ps)
  case (Cons x xs)
  obtain p where p: "mget (ps_Items ps) (ud_PartitionId x) = Some p" "mget (pa_Replicas p) (ud_Replica x) \<noteq> None"
    using Cons.prems(2) by auto
  then obtain p1 where p1: "set_replica_state at (ud_Replica x) (ud_State x) p = Some p1"
    by (auto simp: set_replica_state_def)
  have keep: "mget (pa_Replicas p1) n \<noteq> None" if "mget (pa_Replicas p) n \<noteq> None" for n
    using p1 that by (auto simp: set_replica_state_def split: bind_splits)
  have x: "ud_PartitionId x < count" "ud_State x \<noteq> RS_Stopped" using Cons.prems(2) by auto
  have "part_ok ss (ud_PartitionId x) p" using Cons.prems(1) p(1) by (simp add: parts_ok_def)
  then have "parts_ok ss count (put_part (ud_PartitionId x) p1 ps)"
    using parts_ok_put [OF Cons.prems(1) x(1)] part_ok_set_state p1 x(2) by blast
  moreover have "\<exists>q. mget (ps_Items (put_part (ud_PartitionId x) p1 ps)) (ud_PartitionId y) = Some q \<and>
      mget (pa_Replicas q) (ud_Replica y) \<noteq> None" if "y \<in> set xs" for y
  proof -
    obtain q where "mget (ps_Items ps) (ud_PartitionId y) = Some q" "mget (pa_Replicas q) (ud_Replica y) \<noteq> None"
      using Cons.prems(2) \<open>y \<in> set xs\<close> by auto
    then show ?thesis using keep p(1) by (auto simp: mget_put_part)
  qed
  ultimately show ?case using Cons.IH [of "put_part (ud_PartitionId x) p1 ps"] Cons.prems(2) p(1) p1 by simp
qed simp

lemma remove_loop_ok:
  assumes "parts_ok ss count ps" "\<forall>x \<in> set xs. re_PartitionId x < count"
  shows "\<exists>ps'. remove_loop xs ps = Some ps' \<and> parts_ok ss count ps'"
  using assms
proof (induction xs arbitrary: ps)
  case (Cons x xs)
  obtain p where p: "mget (ps_Items ps) (re_PartitionId x) = Some p" "part_ok ss (re_PartitionId x) p"
    using parts_ok_get [OF Cons.prems(1)] Cons.prems(2) by auto
  let ?p = "p\<lparr>pa_Replicas := mdel (re_Replica x) (pa_Replicas p)\<rparr>"
  have "part_ok ss (re_PartitionId x) ?p" using p(2) by (auto simp: part_ok_def split: if_splits)
  then have "parts_ok ss count (put_part (re_PartitionId x) ?p ps)" using parts_ok_put [OF Cons.prems(1)] Cons.prems(2) by simp
  with Cons.IH [of "put_part (re_PartitionId x) ?p ps"] Cons.prems(2) p(1) show ?case by simp
qed simp

lemma version_loop_ok:
  assumes "parts_ok ss count ps" "\<forall>pid \<in> set pids. pid < count"
  shows "\<exists>ps'. version_loop pids ps = Some ps' \<and> parts_ok ss count ps'"
  using assms
proof (induction pids arbitrary: ps)
  case (Cons pid pids)
  obtain p where p: "mget (ps_Items ps) pid = Some p" "part_ok ss pid p"
    using parts_ok_get [OF Cons.prems(1)] Cons.prems(2) by auto
  let ?p = "p\<lparr>pa_AssignmentsVersion := pa_AssignmentsVersion p + 1\<rparr>"
  have "part_ok ss pid ?p" using p(2) by (simp add: part_ok_def)
  then have "parts_ok ss count (put_part pid ?p ps)" using parts_ok_put [OF Cons.prems(1)] Cons.prems(2) by simp
  with Cons.IH [of "put_part pid ?p ps"] Cons.prems(2) p(1) show ?case by simp
qed simp

lemma status_replicas_ok:
  "(\<forall>name r. mget rs name = Some r \<longrightarrow> replica_ok ss pid l name r) \<Longrightarrow> gomap_wf rs \<Longrightarrow>
    gomap_wf (status_replicas m rs) \<and> (\<forall>name r. mget (status_replicas m rs) name = Some r \<longrightarrow> replica_ok ss pid l name r)"
proof (induction m arbitrary: rs)
  case (Cons x m)
  obtain n u where x: "x = (n, u)" by (cases x)
  show ?case
  proof (cases "mget rs n")
    case (Some r)
    let ?rs = "mput n (r\<lparr>rp_LastUpdate := ur_LastUpdate u, rp_AppliedIndex := ur_AppliedIndex u, rp_Ready := ur_Ready u\<rparr>) rs"
    have "\<forall>name r. mget ?rs name = Some r \<longrightarrow> replica_ok ss pid l name r"
      using Cons.prems(1) Some by (auto simp: replica_ok_def split: if_splits)
    with Cons.IH [of ?rs] Cons.prems(2) x Some show ?thesis by simp
  qed (use Cons x in simp)
qed simp

lemma status_parts_ok:
  assumes "parts_ok ss count ps" "\<forall>(pid, _) \<in> set m. pid < count"
  shows "\<exists>ps'. status_parts m ps = Some ps' \<and> parts_ok ss count ps'"
  using assms
proof (induction m arbitrary: ps)
  case (Cons x m)
  obtain pid u where x: "x = (pid, u)" by (cases x)
  have pid: "pid < count" using Cons.prems(2) x by simp
  obtain p where p: "mget (ps_Items ps) pid = Some p" "part_ok ss pid p"
    using parts_ok_get [OF Cons.prems(1) pid] by blast
  have "part_ok ss pid (status_part_update u p)"
    using p(2) status_replicas_ok [of "pa_Replicas p" ss pid "pa_LastReplicaId p" "up_Replicas u"]
    by (simp add: part_ok_def status_part_update_def)
  from Cons.IH [OF parts_ok_put [OF Cons.prems(1) pid this]] Cons.prems(2) x p(1) show ?case by simp
qed simp

section \<open>Servers\<close>

text \<open>Replicas stay valid as long as no data server goes away.\<close>

lemma parts_ok_servers:
  assumes "parts_ok ss count ps" "\<And>i. isValidDataServer ss i \<Longrightarrow> isValidDataServer ss' i"
  shows "parts_ok ss' count ps"
  using assms by (auto simp: parts_ok_def part_ok_def replica_ok_def)

lemma status_servers_ok:
  "gomap_wf items \<Longrightarrow> gomap_wf (status_servers m items) \<and>
    map_option (\<lambda>s. (srv_Id s, srv_Type s)) (mget (status_servers m items) j) =
    map_option (\<lambda>s. (srv_Id s, srv_Type s)) (mget items j)"
proof (induction m arbitrary: items)
  case (Cons x m)
  obtain i u where x: "x = (i, u)" by (cases x)
  show ?case
  proof (cases "mget items i")
    case (Some s)
    let ?items = "mput i (s\<lparr>srv_LastSeen := us_LastSeen u, srv_LastAddress := us_LastAddress u\<rparr>) items"
    from Cons.IH [of ?items] Cons.prems x Some show ?thesis by simp
  qed (use Cons x in simp)
qed simp

lemma boot_servers_ok:
  "servers_ok ss \<Longrightarrow> ss_Tokens ss = [] \<Longrightarrow> servers_ok (fold (boot_add at) xs ss)"
proof (induction xs arbitrary: ss)
  case (Cons x xs)
  have "servers_ok (boot_add at x ss)"
    using Cons.prems by (auto simp: servers_ok_def boot_add_def le_max_iff_disj)
  moreover have "ss_Tokens (boot_add at x ss) = []" using Cons.prems(2) by (simp add: boot_add_def)
  ultimately show ?case using Cons.IH by simp
qed simp

lemma boot_parts_ok: "parts_ok ss n \<lparr>ps_Version = v, ps_AssignmentsVersion = a, ps_Items = boot_parts n, ps_MaxImbalance = k\<rparr>"
proof -
  have inj: "inj_on (of_nat :: nat \<Rightarrow> u32) {0..<unat n}"
    using unsigned_less [of n, where ?'a = nat] by (intro inj_onI) (simp add: word_of_nat_eq_iff take_bit_nat_eq_self)
  have wf: "gomap_wf (boot_parts n)" using inj by (simp add: gomap_wf_def boot_parts_def distinct_map comp_def)
  have "fst ` set (boot_parts n) = {i. i < n}"
  proof (rule keys_all_below [OF wf])
    show "length (boot_parts n) = unat n" by (simp add: boot_parts_def)
    have "of_nat k < n" if "k < unat n" for k
    proof -
      have "k < 2 ^ 32" using less_trans [OF that unsigned_less] by simp
      with that show ?thesis by (simp add: word_less_nat_alt unat_of_nat)
    qed
    then show "\<forall>(i, _) \<in> set (boot_parts n). i < n" by (auto simp: boot_parts_def)
  qed
  moreover have "part_ok ss pid p" if "mget (boot_parts n) pid = Some p" for pid p
    using map_of_SomeD [OF that] by (auto simp: boot_parts_def part_ok_def new_part_def)
  ultimately show ?thesis using wf by (simp add: parts_ok_def)
qed

section \<open>Validation\<close>

lemma validate_adds_ok:
  assumes "parts_ok ss (fs_partitionCount f) ps"
  shows "\<exists>v. validate_adds f ss ps xs = Some v \<and> (v = None \<longrightarrow> (\<forall>x \<in> set xs.
    ad_PartitionId x < fs_partitionCount f \<and> isValidDataServer ss (ad_ServerId x)))"
proof (induction xs)
  case (Cons x xs)
  show ?case
  proof (cases "isValidPartitionID f (ad_PartitionId x) \<and> isValidDataServer ss (ad_ServerId x)")
    case True
    then obtain p where "mget (ps_Items ps) (ad_PartitionId x) = Some p"
      using parts_ok_get [OF assms] by (auto simp: isValidPartitionID_def)
    with Cons True show ?thesis by (auto simp: getReplicaByServer_def isValidPartitionID_def)
  qed auto
qed simp

lemma validate_updates_ok:
  assumes "parts_ok ss (fs_partitionCount f) ps"
  shows "\<exists>v. validate_updates f ps xs = Some v \<and> (v = None \<longrightarrow> (\<forall>x \<in> set xs.
    ud_PartitionId x < fs_partitionCount f \<and> ud_State x \<noteq> RS_Stopped \<and>
    (\<exists>p. mget (ps_Items ps) (ud_PartitionId x) = Some p \<and> mget (pa_Replicas p) (ud_Replica x) \<noteq> None)))"
proof (induction xs)
  case (Cons x xs)
  show ?case
  proof (cases "isValidPartitionID f (ud_PartitionId x)")
    case True
    then obtain p where p: "mget (ps_Items ps) (ud_PartitionId x) = Some p"
      using parts_ok_get [OF assms] by (auto simp: isValidPartitionID_def)
    show ?thesis
    proof (cases "mget (pa_Replicas p) (ud_Replica x)")
      case (Some r)
      have "ud_State x \<noteq> RS_Stopped" if "isValidReplicaTransition (Some r) (ud_State x)"
        using that by (auto simp: isValidReplicaTransition_def)
      with Cons True p Some show ?thesis by (auto simp: isValidPartitionID_def)
    qed (use True p in simp)
  qed simp
qed simp

lemma validate_removes_ok:
  assumes "parts_ok ss (fs_partitionCount f) ps"
  shows "\<exists>v. validate_removes f ps xs = Some v \<and> (v = None \<longrightarrow> (\<forall>x \<in> set xs. re_PartitionId x < fs_partitionCount f))"
proof (induction xs)
  case (Cons x xs)
  show ?case
  proof (cases "isValidPartitionID f (re_PartitionId x)")
    case True
    then obtain p where "mget (ps_Items ps) (re_PartitionId x) = Some p"
      using parts_ok_get [OF assms] by (auto simp: isValidPartitionID_def)
    with Cons True show ?thesis by (auto simp: isValidPartitionID_def split: option.splits)
  qed simp
qed simp

lemma validate_init_loop_ok:
  "validate_init_loop f ss xs seenPairs seenPart = Inr s \<Longrightarrow>
    \<forall>x \<in> set xs. ia_PartitionId x < fs_partitionCount f \<and> isValidDataServer ss (ia_ServerId x)"
proof (induction xs arbitrary: seenPairs seenPart)
  case (Cons x xs)
  have v: "isValidPartitionID f (ia_PartitionId x)" "isValidDataServer ss (ia_ServerId x)"
    "(ia_PartitionId x, ia_ServerId x) \<notin> set seenPairs"
    using Cons.prems by (simp_all only: validate_init_loop.simps split: if_split_asm) simp_all
  with Cons.prems have "validate_init_loop f ss xs ((ia_PartitionId x, ia_ServerId x) # seenPairs)
      (if ia_PartitionId x \<in> set seenPart then seenPart else ia_PartitionId x # seenPart) = Inr s"
    by (simp only: validate_init_loop.simps) simp
  from Cons.IH [OF this] v show ?case by (simp add: isValidPartitionID_def)
qed simp

section \<open>Every command keeps the invariant\<close>

lemma cluster_okI [intro]:
  "fs_servers f = Some ss \<Longrightarrow> fs_partitions f = Some ps \<Longrightarrow> servers_ok ss \<Longrightarrow> parts_ok ss (fs_partitionCount f) ps \<Longrightarrow> cluster_ok f"
  by (simp add: cluster_ok_def)

lemma cluster_ok_booted:
  "cluster_ok f \<Longrightarrow> fs_servers f = Some ss \<Longrightarrow> \<exists>ps. fs_partitions f = Some ps \<and> servers_ok ss \<and> parts_ok ss (fs_partitionCount f) ps"
  by (auto simp: cluster_ok_def split: option.splits)

lemma applyBootstrap_ok:
  assumes "cluster_ok f"
  shows "cluster_ok (snd (applyBootstrap at b f)) \<and> fs_servers (snd (applyBootstrap at b f)) \<noteq> None"
proof (cases "fs_clusterName f = ''''")
  case True
  have "servers_ok (fold (boot_add at) (bt_Servers b)
      \<lparr>ss_Version = 1, ss_RegisterVersion = 1, ss_Items = [], ss_LastId = 0, ss_Tokens = []\<rparr>)"
    by (rule boot_servers_ok) (simp_all add: servers_ok_def)
  with True boot_parts_ok show ?thesis by (simp add: applyBootstrap_def cluster_ok_def)
next
  case False
  with assms show ?thesis by (auto simp: applyBootstrap_def cluster_ok_def split: option.splits)
qed

lemma word_less_succ:
  fixes x :: u64
  assumes "x < max_u64"
  shows "x < x + 1"
proof -
  have "unat x + 1 \<noteq> 2 ^ 64"
  proof
    assume "unat x + 1 = 2 ^ 64"
    then have "of_nat (unat x) = (of_nat (2 ^ 64 - 1) :: u64)" by simp
    with assms show False by simp
  qed
  moreover have "unat x < 2 ^ 64" using unsigned_less [of x, where ?'a = nat] by simp
  ultimately have "unat x + 1 < 2 ^ 64" by linarith
  then have "unat (x + 1) = unat x + 1" by (simp add: unat_word_ariths)
  then show ?thesis by (simp add: word_less_nat_alt)
qed

lemma applyRegister_ok:
  assumes "cluster_ok f" "fs_servers f = Some ss" "ss_LastId ss < max_u64"
  shows "\<exists>r f'. applyRegister at c f = Some (r, f') \<and> cluster_ok f' \<and> fs_servers f' \<noteq> None"
proof -
  obtain ps where ps: "fs_partitions f = Some ps" "servers_ok ss" "parts_ok ss (fs_partitionCount f) ps"
    using cluster_ok_booted [OF assms(1,2)] by blast
  show ?thesis
  proof (cases "mget (ss_Tokens ss) (rg_Token c)")
    case (Some i)
    then have "mget (ss_Items ss) i \<noteq> None" using ps(2) unfolding servers_ok_def by blast
    then obtain x where "mget (ss_Items ss) i = Some x" by blast
    with Some assms(1,2) show ?thesis by (simp add: applyRegister_def)
  next
    case None
    let ?i = "ss_LastId ss + 1"
    have less: "ss_LastId ss < ?i" by (rule word_less_succ [OF assms(3)])
    have fresh: "mget (ss_Items ss) ?i = None"
    proof (cases "mget (ss_Items ss) ?i")
      case (Some s)
      then have "?i \<le> ss_LastId ss" using ps(2) unfolding servers_ok_def by blast
      with less show ?thesis by simp
    qed
    obtain ss' where ss': "applyRegister at c f = Some (Inr (RegisterResult ?i (serverNamePrefix (rg_Type c) @ decimal (unat ?i))), f\<lparr>fs_servers := Some ss'\<rparr>)"
      "ss_Items ss' = mput ?i \<lparr>srv_Id = ?i, srv_Name = serverNamePrefix (rg_Type c) @ decimal (unat ?i), srv_Type = rg_Type c, srv_Tags = rg_Tags c,
          srv_RegisteredAt = at, srv_LastSeen = at, srv_LastAddress = rg_Address c\<rparr> (ss_Items ss)"
      "ss_LastId ss' = ?i" "ss_Tokens ss' = mput (rg_Token c) ?i (ss_Tokens ss)"
      using None assms(2) by (simp add: applyRegister_def nextServerID_def Let_def)
    have "i \<le> ?i" if "i \<le> ss_LastId ss" for i using that less by (simp add: le_less_trans order.strict_implies_order)
    then have "servers_ok ss'" using ps(2) unfolding servers_ok_def ss'(2-4) by auto
    moreover have "isValidDataServer ss' i" if "isValidDataServer ss i" for i
      using that fresh by (auto simp: isValidDataServer_def ss'(2) split: option.splits)
    then have "parts_ok ss' (fs_partitionCount f) ps" by (rule parts_ok_servers [OF ps(3)])
    ultimately show ?thesis using ss'(1) ps(1) by (auto simp: cluster_ok_def)
  qed
qed

lemma applyUpdateStatus_ok:
  assumes "cluster_ok f" "fs_servers f = Some ss" "\<forall>(pid, _) \<in> set (ust_Partitions u). pid < fs_partitionCount f"
  shows "\<exists>f'. applyUpdateStatus u f = Some f' \<and> cluster_ok f' \<and> fs_servers f' \<noteq> None"
proof -
  obtain ps where ps: "fs_partitions f = Some ps" "servers_ok ss" "parts_ok ss (fs_partitionCount f) ps"
    using cluster_ok_booted [OF assms(1,2)] by blast
  let ?items = "status_servers (ust_Servers u) (ss_Items ss)"
  have it: "gomap_wf ?items" "map_option (\<lambda>s. (srv_Id s, srv_Type s)) (mget ?items j) =
      map_option (\<lambda>s. (srv_Id s, srv_Type s)) (mget (ss_Items ss) j)" for j
    using status_servers_ok [of "ss_Items ss"] ps(2) by (auto simp: servers_ok_def)
  have get: "\<exists>s0. mget (ss_Items ss) j = Some s0 \<and> srv_Id s0 = srv_Id s \<and> srv_Type s0 = srv_Type s"
    if "mget ?items j = Some s" for j s
    using it(2) [of j] that by (cases "mget (ss_Items ss) j") auto
  have none: "mget ?items j = None \<longleftrightarrow> mget (ss_Items ss) j = None" for j
    using it(2) [of j] by (cases "mget (ss_Items ss) j"; cases "mget ?items j") auto
  have valid: "isValidDataServer ss' j" if "isValidDataServer ss j" "ss_Items ss' = ?items" for j ss'
    using it(2) [of j] that by (auto simp: isValidDataServer_def split: option.splits)
  have sok: "servers_ok ss'" if "ss_Items ss' = ?items" "ss_LastId ss' = ss_LastId ss" "ss_Tokens ss' = ss_Tokens ss" for ss'
    unfolding servers_ok_def that
  proof (intro conjI allI impI)
    show "gomap_wf ?items" by (rule it(1))
    fix i s assume "mget ?items i = Some s"
    then obtain s0 where "mget (ss_Items ss) i = Some s0" "srv_Id s0 = srv_Id s" using get by blast
    then show "srv_Id s = i" "i \<le> ss_LastId ss" using ps(2) by (auto simp: servers_ok_def)
  next
    fix t i assume "mget (ss_Tokens ss) t = Some i"
    then show "mget ?items i \<noteq> None" using ps(2) none by (simp add: servers_ok_def)
  qed
  obtain ps1 where ps1: "status_parts (ust_Partitions u) ps = Some ps1" "parts_ok ss (fs_partitionCount f) ps1"
    using status_parts_ok [OF ps(3) assms(3)] by blast
  let ?ss = "if length (ust_Servers u) > 0 then ss\<lparr>ss_Items := ?items, ss_Version := ss_Version ss + 1\<rparr> else ss\<lparr>ss_Items := ?items\<rparr>"
  let ?ps = "if length (ust_Partitions u) > 0 then ps1\<lparr>ps_Version := ps_Version ps1 + 1\<rparr> else ps1"
  have "applyUpdateStatus u f = Some (f\<lparr>fs_servers := Some ?ss, fs_partitions := Some ?ps\<rparr>)"
    using assms(2) ps(1) ps1(1) by (simp add: applyUpdateStatus_def Let_def)
  moreover have "servers_ok ?ss" by (rule sok) auto
  moreover have "parts_ok ?ss (fs_partitionCount f) ps1" by (rule parts_ok_servers [OF ps1(2)]) (rule valid; simp)
  then have "parts_ok ?ss (fs_partitionCount f) ?ps" by (simp add: parts_ok_def)
  ultimately show ?thesis by (auto simp: cluster_ok_def)
qed

lemma applyInitAssignments_ok:
  assumes "cluster_ok f" "fs_servers f = Some ss" "fs_partitions f = Some ps" "room (length (in_Add c)) ps"
  shows "\<exists>r f'. applyInitAssignments at c f = Some (r, f') \<and> cluster_ok f' \<and> fs_servers f' \<noteq> None"
proof -
  have ok: "servers_ok ss" "parts_ok ss (fs_partitionCount f) ps" using cluster_ok_booted [OF assms(1,2)] assms(3) by auto
  show ?thesis
  proof (cases "HasAssignments ps \<or> validateInitAssignments f ss c \<noteq> None")
    case True
    then show ?thesis using assms by (auto simp: applyInitAssignments_def split: option.splits)
  next
    case False
    then obtain s where "validate_init_loop f ss (in_Add c) [] [] = Inr s"
      by (auto simp: validateInitAssignments_def split: sum.splits)
    from init_loop_ok [OF ok(2) assms(4) validate_init_loop_ok [OF this], of at]
    obtain ps' where ps': "init_loop at (in_Add c) ps = Some ps'" "parts_ok ss (fs_partitionCount f) ps'" by blast
    then have "parts_ok ss (fs_partitionCount f) (ps'\<lparr>ps_MaxImbalance := in_MaxImbalance c, ps_AssignmentsVersion := 1, ps_Version := 1\<rparr>)"
      by (simp add: parts_ok_def)
    with False ps'(1) assms(2,3) ok(1) show ?thesis by (auto simp: applyInitAssignments_def cluster_ok_def)
  qed
qed

lemma validateUpdate_ok:
  assumes "parts_ok ss (fs_partitionCount f) ps"
  shows "\<exists>v. validateUpdateAssignments f ss ps c = Some v \<and> (v = None \<longrightarrow>
    validate_adds f ss ps (ua_Add c) = Some None \<and> validate_updates f ps (ua_Update c) = Some None \<and>
    validate_removes f ps (ua_Remove c) = Some None)"
  using validate_adds_ok [OF assms, of "ua_Add c"] validate_updates_ok [OF assms, of "ua_Update c"]
    validate_removes_ok [OF assms, of "ua_Remove c"]
  by (elim exE conjE) (auto simp: validateUpdateAssignments_def split: option.splits)

lemma applyUpdateAssignments_ok:
  assumes "cluster_ok f" "fs_servers f = Some ss" "fs_partitions f = Some ps" "room (length (ua_Add c)) ps"
  shows "\<exists>r f'. applyUpdateAssignments at c f = Some (r, f') \<and> cluster_ok f' \<and> fs_servers f' \<noteq> None"
proof -
  have ok: "servers_ok ss" "parts_ok ss (fs_partitionCount f) ps" using cluster_ok_booted [OF assms(1,2)] assms(3) by auto
  obtain v where v: "validateUpdateAssignments f ss ps c = Some v"
    "v = None \<longrightarrow> validate_adds f ss ps (ua_Add c) = Some None \<and> validate_updates f ps (ua_Update c) = Some None \<and>
      validate_removes f ps (ua_Remove c) = Some None"
    using validateUpdate_ok [OF ok(2)] by blast
  show ?thesis
  proof (cases "(ua_IfMatch c \<noteq> 0 \<and> ua_IfMatch c \<noteq> ps_AssignmentsVersion ps) \<or> \<not> HasAssignments ps \<or> v \<noteq> None")
    case True
    then show ?thesis using assms(1-3) v(1) by (auto simp: applyUpdateAssignments_def)
  next
    case False
    then have none: "validate_adds f ss ps (ua_Add c) = Some None" "validate_updates f ps (ua_Update c) = Some None"
      "validate_removes f ps (ua_Remove c) = Some None" using v(2) by auto
    have a: "\<forall>x \<in> set (ua_Add c). ad_PartitionId x < fs_partitionCount f \<and> isValidDataServer ss (ad_ServerId x)"
      using validate_adds_ok [OF ok(2), of "ua_Add c"] none(1) by auto
    have u: "\<forall>x \<in> set (ua_Update c). ud_PartitionId x < fs_partitionCount f \<and> ud_State x \<noteq> RS_Stopped \<and>
        (\<exists>p. mget (ps_Items ps) (ud_PartitionId x) = Some p \<and> mget (pa_Replicas p) (ud_Replica x) \<noteq> None)"
      using validate_updates_ok [OF ok(2), of "ua_Update c"] none(2) by auto
    have r: "\<forall>x \<in> set (ua_Remove c). re_PartitionId x < fs_partitionCount f"
      using validate_removes_ok [OF ok(2), of "ua_Remove c"] none(3) by auto
    obtain ps1 where ps1: "add_loop at (ua_Add c) ps = Some ps1" "parts_ok ss (fs_partitionCount f) ps1"
      "\<forall>pid p n. mget (ps_Items ps) pid = Some p \<longrightarrow> mget (pa_Replicas p) n \<noteq> None \<longrightarrow>
         (\<exists>p'. mget (ps_Items ps1) pid = Some p' \<and> mget (pa_Replicas p') n \<noteq> None)"
      using add_loop_ok [OF ok(2) assms(4) a, of at] by (elim exE conjE)
    have u1: "\<forall>x \<in> set (ua_Update c). ud_PartitionId x < fs_partitionCount f \<and> ud_State x \<noteq> RS_Stopped \<and>
        (\<exists>p. mget (ps_Items ps1) (ud_PartitionId x) = Some p \<and> mget (pa_Replicas p) (ud_Replica x) \<noteq> None)"
      using u ps1(3) by blast
    obtain ps2 where ps2: "state_loop at (ua_Update c) ps1 = Some ps2" "parts_ok ss (fs_partitionCount f) ps2"
      using state_loop_ok [OF ps1(2) u1, of at] by (elim exE conjE)
    obtain ps3 where ps3: "remove_loop (ua_Remove c) ps2 = Some ps3" "parts_ok ss (fs_partitionCount f) ps3"
      using remove_loop_ok [OF ps2(2) r] by (elim exE conjE)
    have ch: "\<forall>pid \<in> set (changed_parts c). pid < fs_partitionCount f" using a u r by (auto simp: changed_parts_def)
    obtain ps4 where ps4: "version_loop (changed_parts c) ps3 = Some ps4" "parts_ok ss (fs_partitionCount f) ps4"
      using version_loop_ok [OF ps3(2) ch] by (elim exE conjE)
    have "parts_ok ss (fs_partitionCount f) (ps4\<lparr>ps_MaxImbalance := ua_MaxImbalance c,
        ps_AssignmentsVersion := ps_AssignmentsVersion ps4 + 1, ps_Version := ps_Version ps4 + 1\<rparr>)"
      using ps4(2) by (simp add: parts_ok_def)
    with False v(1) ps1(1) ps2(1) ps3(1) ps4(1) assms(2,3) ok(1) show ?thesis
      by (auto simp: applyUpdateAssignments_def cluster_ok_def Let_def)
  qed
qed

lemma apply_payload_ok:
  assumes "cluster_ok f" "acceptable cmd f"
  shows "\<exists>r f'. apply_payload at (cmd_Payload cmd) f = Some (r, f') \<and> cluster_ok f' \<and> fs_servers f' \<noteq> None"
proof (cases "fs_servers f")
  case None
  then obtain b where "cmd_Payload cmd = Cmd_Bootstrap b" using assms(2) by (auto simp: acceptable_def split: cmd_payload.splits)
  with applyBootstrap_ok [OF assms(1), of at b] show ?thesis by (simp add: apply_payload_def case_prod_beta)
next
  case (Some ss)
  then obtain ps where ps: "fs_partitions f = Some ps" using cluster_ok_booted [OF assms(1)] by blast
  have rng: "in_range (cmd_Payload cmd) ss ps (fs_partitionCount f)" using assms(2) Some ps by (simp add: acceptable_def)
  show ?thesis
  proof (cases "cmd_Payload cmd")
    case (Cmd_Bootstrap b)
    with applyBootstrap_ok [OF assms(1), of at b] show ?thesis by (simp add: apply_payload_def case_prod_beta)
  next
    case (Cmd_Register x)
    with applyRegister_ok [OF assms(1) Some, of at x] rng show ?thesis by (simp add: apply_payload_def in_range_def)
  next
    case (Cmd_UpdateStatus x)
    with applyUpdateStatus_ok [OF assms(1) Some, of x] rng show ?thesis by (auto simp: apply_payload_def in_range_def)
  next
    case (Cmd_InitAssignments x)
    with applyInitAssignments_ok [OF assms(1) Some ps, of x at] rng show ?thesis by (simp add: apply_payload_def in_range_def)
  next
    case (Cmd_UpdateAssignments x)
    with applyUpdateAssignments_ok [OF assms(1) Some ps, of x at] rng show ?thesis by (simp add: apply_payload_def in_range_def)
  next
    case Cmd_Unknown
    with rng show ?thesis by (simp add: in_range_def)
  qed
qed

text \<open>Meters, the index, the version and the notification do not matter for the invariant.\<close>

lemma cluster_ok_cong:
  "fs_servers f' = fs_servers f \<Longrightarrow> fs_partitions f' = fs_partitions f \<Longrightarrow> fs_partitionCount f' = fs_partitionCount f \<Longrightarrow>
    fs_clusterName f' = fs_clusterName f \<Longrightarrow> cluster_ok f' = cluster_ok f"
  by (auto simp: cluster_ok_def split: option.splits)

lemma fsmMeters_Update_ok:
  assumes "cluster_ok f" "fs_servers f \<noteq> None"
  shows "\<exists>f'. fsmMeters_Update f = Some f' \<and> cluster_ok f' \<and> fs_servers f' = fs_servers f"
proof -
  obtain ss ps where s: "fs_servers f = Some ss" "fs_partitions f = Some ps"
    using assms cluster_ok_booted [OF assms(1)] by blast
  obtain m where m: "fsmMeters_Update f = Some (f\<lparr>fs_meters := m\<rparr>)" using s by (simp add: fsmMeters_Update_def)
  have "cluster_ok (f\<lparr>fs_meters := m\<rparr>)" using assms(1) by (subst cluster_ok_cong [of _ f]) simp_all
  with m show ?thesis by simp
qed

lemma FSM_Apply_ok:
  assumes "cluster_ok f" "unmarshal data = Inr cmd" "acceptable cmd f"
  shows "\<exists>r f'. FSM_Apply unmarshal index at data f = Some (r, f') \<and> cluster_ok f' \<and> fs_servers f' \<noteq> None"
proof -
  have "\<exists>r f1. applyCommand at cmd f = Some (r, f1) \<and> cluster_ok f1 \<and> fs_servers f1 \<noteq> None"
  proof (cases "cmd_IfMatch cmd \<noteq> 0 \<and> cmd_IfMatch cmd \<noteq> fs_version f")
    case True
    have "cluster_ok (add_error f)" using assms(1) by (subst cluster_ok_cong [of _ f]) (simp_all add: add_error_def)
    moreover have "fs_servers (add_error f) \<noteq> None"
      using assms(3) True by (auto simp: add_error_def acceptable_def split: option.splits)
    ultimately show ?thesis using True by (simp add: applyCommand_def)
  next
    case False
    obtain r f' where f': "apply_payload at (cmd_Payload cmd) f = Some (r, f')" "cluster_ok f'" "fs_servers f' \<noteq> None"
      using apply_payload_ok [OF assms(1,3)] by blast
    have p: "getPayload cmd = Some (cmd_Payload cmd)"
      using assms(3) by (auto simp: getPayload_def acceptable_def in_range_def split: cmd_payload.splits option.splits)
    have "cluster_ok (add_error f')" using f'(2) by (subst cluster_ok_cong [of _ f']) (simp_all add: add_error_def)
    moreover have "cluster_ok (add_success (f'\<lparr>fs_version := fs_version f' + 1\<rparr>))"
      using f'(2) by (subst cluster_ok_cong [of _ f']) (simp_all add: add_success_def)
    ultimately show ?thesis using False f'(1,3) p
      by (cases r) (auto simp: applyCommand_def add_error_def add_success_def)
  qed
  then obtain r f1 where f1: "applyCommand at cmd f = Some (r, f1)" "cluster_ok f1" "fs_servers f1 \<noteq> None" by blast
  let ?f = "notifyStore (f1\<lparr>fs_index := index\<rparr>)"
  have "cluster_ok ?f" using f1(2) by (subst cluster_ok_cong [of _ f1]) (simp_all add: notifyStore_def)
  then obtain f2 where "fsmMeters_Update ?f = Some f2" "cluster_ok f2" "fs_servers f2 \<noteq> None"
    using fsmMeters_Update_ok [of ?f] f1(3) by (auto simp: notifyStore_def)
  with f1(1) assms(2) show ?thesis by (simp add: FSM_Apply_def)
qed

section \<open>Reachable states\<close>

text \<open>
  The states of a control server: a new one, the ones after an entry of the log, and the ones restored
  from the snapshot of another server. Decoding gives a nil map for a map that was empty when the
  snapshot was taken, and a later write to it panics; the snapshots considered here have no empty map
  among those that commands write to.
\<close>

definition no_empty_map :: "fsm \<Rightarrow> bool" where
  "no_empty_map f \<longleftrightarrow> (case (fs_servers f, fs_partitions f) of
       (Some ss, Some ps) \<Rightarrow> ss_Items ss \<noteq> [] \<and> ss_Tokens ss \<noteq> [] \<and> list_all (\<lambda>(_, p). pa_Replicas p \<noteq> []) (ps_Items ps)
     | _ \<Rightarrow> False)"

inductive control_reach :: "(bytes \<Rightarrow> err + command) \<Rightarrow> (bytes \<Rightarrow> err + cluster) \<Rightarrow> fsm \<Rightarrow> bool"
  for unmarshal :: "bytes \<Rightarrow> err + command" and unmarshalC :: "bytes \<Rightarrow> err + cluster" where
  New: "control_reach unmarshal unmarshalC NewFSM"
| Apply: "\<lbrakk>control_reach unmarshal unmarshalC f; unmarshal data = Inr cmd; acceptable cmd f;
    FSM_Apply unmarshal index at data f = Some (r, f')\<rbrakk> \<Longrightarrow> control_reach unmarshal unmarshalC f'"
| Restore: "\<lbrakk>control_reach unmarshal unmarshalC f; control_reach unmarshal unmarshalC f0; no_empty_map f0;
    unmarshalC data = Inr (FSM_Cluster f0); FSM_Restore unmarshalC data f = Some (None, f')\<rbrakk> \<Longrightarrow> control_reach unmarshal unmarshalC f'"

inductive_cases control_reach_cases: "control_reach unmarshal unmarshalC f"

lemma control_reach_ok: "control_reach unmarshal unmarshalC f \<Longrightarrow> cluster_ok f"
proof (induction rule: control_reach.induct)
  case New
  show ?case by (simp add: cluster_ok_def NewFSM_def)
next
  case (Apply f data cmd index at r f')
  from FSM_Apply_ok [of f unmarshal data cmd index at, OF Apply.IH Apply.hyps(2,3)] Apply.hyps(4) show ?case by auto
next
  case (Restore f f0 data f')
  then have "fs_servers f' = fs_servers f0" "fs_partitions f' = fs_partitions f0"
    "fs_partitionCount f' = fs_partitionCount f0" "fs_clusterName f' = fs_clusterName f0"
    by (auto simp: FSM_Restore_def FSM_Cluster_def fsmMeters_Update_def notifyStore_def split: bind_splits)
  then show ?case using Restore.IH(2) by (subst cluster_ok_cong [of _ f0]) simp_all
qed

text \<open>
  C16: the cluster state is always well formed, and a control server does not panic on a command that
  is in range: the first one bootstraps, no counter wraps, a status names partitions that exist. In
  every state that a log reaches, with restores of snapshots whose maps are not empty in between, each
  partition below the partition count exists under its own number, every replica has the name of its partition with a number not yet given out again, sits
  on a registered data server and is in one of the four real states, and every token belongs to a
  registered server. The next command is applied and keeps all of this.
\<close>

theorem control_state_wf:
  assumes "control_reach unmarshal unmarshalC f" "unmarshal data = Inr cmd" "acceptable cmd f"
  shows "cluster_ok f \<and> (\<exists>r f'. FSM_Apply unmarshal index at data f = Some (r, f') \<and> cluster_ok f' \<and>
    control_reach unmarshal unmarshalC f')"
proof -
  have ok: "cluster_ok f" by (rule control_reach_ok [OF assms(1)])
  from FSM_Apply_ok [of f unmarshal data cmd index at, OF ok assms(2,3)]
  obtain r f' where "FSM_Apply unmarshal index at data f = Some (r, f')" "cluster_ok f'" by (elim exE conjE)
  with ok control_reach.Apply [OF assms(1-3)] show ?thesis by blast
qed

text \<open>A cluster of one control server, two data servers and two partitions, with replicas assigned.\<close>

definition demo_commands :: "cmd_payload list" where
  "demo_commands =
     [Cmd_Bootstrap \<lparr>bt_ClusterName = ''c'', bt_Servers = [\<lparr>bs_Id = 1, bs_Name = ''control_1'', bs_Address = ''a'', bs_Tags = []\<rparr>],
        bt_PartitionCount = 2\<rparr>,
      Cmd_Register \<lparr>rg_Type = ST_Data, rg_Token = ''t2'', rg_Address = ''b'', rg_Tags = []\<rparr>,
      Cmd_Register \<lparr>rg_Type = ST_Data, rg_Token = ''t3'', rg_Address = ''c'', rg_Tags = []\<rparr>,
      Cmd_InitAssignments \<lparr>in_Add = [\<lparr>ia_PartitionId = 0, ia_ServerId = 2, ia_Voter = True\<rparr>,
        \<lparr>ia_PartitionId = 0, ia_ServerId = 3, ia_Voter = True\<rparr>, \<lparr>ia_PartitionId = 1, ia_ServerId = 2, ia_Voter = True\<rparr>], in_MaxImbalance = 1\<rparr>]"

definition demo_unmarshal :: "bytes \<Rightarrow> err + command" where
  "demo_unmarshal data = (case data of
       [n] \<Rightarrow> if unat n < length demo_commands then Inr \<lparr>cmd_IfMatch = 0, cmd_Payload = demo_commands ! unat n\<rparr>
              else Inl InvalidRequest
     | _ \<Rightarrow> Inl InvalidRequest)"

definition demo_unmarshalC :: "bytes \<Rightarrow> err + cluster" where
  "demo_unmarshalC _ = Inl InvalidRequest"

fun demo_run :: "nat \<Rightarrow> fsm" where
  "demo_run 0 = NewFSM"
| "demo_run (Suc n) = (case FSM_Apply demo_unmarshal (of_nat n + 1) 5 [of_nat n] (demo_run n) of Some (_, f) \<Rightarrow> f | None \<Rightarrow> demo_run n)"

definition roomy :: "fsm \<Rightarrow> bool" where
  "roomy f \<longleftrightarrow> (case (fs_servers f, fs_partitions f) of
       (Some ss, Some ps) \<Rightarrow> ss_LastId ss < max_u64 \<and> list_all (\<lambda>(_, p). pa_LastReplicaId p < 9) (ps_Items ps)
     | _ \<Rightarrow> False)"

lemma roomy_acceptable:
  assumes "roomy f" "0 < n" "n < 4"
  shows "acceptable \<lparr>cmd_IfMatch = 0, cmd_Payload = demo_commands ! n\<rparr> f"
proof -
  obtain ss ps where s: "fs_servers f = Some ss" "fs_partitions f = Some ps" "ss_LastId ss < max_u64"
    "list_all (\<lambda>(_, p). pa_LastReplicaId p < 9) (ps_Items ps)"
    using assms(1) by (auto simp: roomy_def split: option.splits)
  then have "room 3 ps" by (fastforce simp: room_def list_all_iff word_less_nat_alt dest!: map_of_SomeD)
  moreover have "n = 1 \<or> n = 2 \<or> n = 3" using assms(2,3) by auto
  ultimately show ?thesis using s by (auto simp: acceptable_def in_range_def demo_commands_def numeral_2_eq_2 numeral_3_eq_3)
qed

lemma demo_roomy: "roomy (demo_run 1)" "roomy (demo_run 2)" "roomy (demo_run 3)"
  by code_simp+

lemma demo_unmarshals: "n < 4 \<Longrightarrow> demo_unmarshal [of_nat n] = Inr \<lparr>cmd_IfMatch = 0, cmd_Payload = demo_commands ! n\<rparr>"
  by (simp add: demo_unmarshal_def unat_of_nat demo_commands_def)

lemma demo_reach_step:
  assumes "control_reach demo_unmarshal demo_unmarshalC (demo_run n)" "n < 4"
    "acceptable \<lparr>cmd_IfMatch = 0, cmd_Payload = demo_commands ! n\<rparr> (demo_run n)"
  shows "control_reach demo_unmarshal demo_unmarshalC (demo_run (Suc n))"
  using control_reach.Apply [OF assms(1) demo_unmarshals [OF assms(2)] assms(3), of "of_nat n + 1" 5] assms(1)
  by (auto split: option.splits)

lemma demo_reach: "control_reach demo_unmarshal demo_unmarshalC (demo_run 3)"
proof -
  have "control_reach demo_unmarshal demo_unmarshalC (demo_run 1)"
    using demo_reach_step [of 0] control_reach.New by (simp add: acceptable_def NewFSM_def demo_commands_def)
  then have "control_reach demo_unmarshal demo_unmarshalC (demo_run 2)"
    using demo_reach_step [of 1] roomy_acceptable [OF demo_roomy(1), of 1] by (simp add: numeral_2_eq_2)
  then show ?thesis
    using demo_reach_step [of 2] roomy_acceptable [OF demo_roomy(2), of 2] by (simp add: numeral_3_eq_3 numeral_2_eq_2)
qed

theorem control_state_wf_witness:
  "control_reach demo_unmarshal demo_unmarshalC (demo_run 3) \<and>
   cluster_ok (demo_run 3) \<and> (\<exists>r f'. FSM_Apply demo_unmarshal 4 5 [3] (demo_run 3) = Some (r, f') \<and> cluster_ok f') \<and>
   map_option (\<lambda>ps. map (\<lambda>(pid, p). (pid, map fst (pa_Replicas p))) (ps_Items ps)) (fs_partitions (demo_run 4)) =
     Some [(0, [''p0_r1'', ''p0_r2'']), (1, [''p1_r1''])]"
proof -
  have "map_option (\<lambda>ps. map (\<lambda>(pid, p). (pid, map fst (pa_Replicas p))) (ps_Items ps)) (fs_partitions (demo_run 4)) =
     Some [(0, [''p0_r1'', ''p0_r2'']), (1, [''p1_r1''])]" by code_simp
  with control_state_wf [OF demo_reach _ roomy_acceptable [OF demo_roomy(3)], of "[3]" 3 4 5] demo_unmarshals [of 3] demo_reach
  show ?thesis by auto
qed

end
