(* ===== verification/Control_Placement.thy ===== *)
theory Control_Placement
  imports Control_Fsm Ordering
begin

text \<open>
  The placement of partition replicas on data servers (\<^verbatim>\<open>src/internal/control/server/leader/partitions\<close>):
  the leader of the control plane reads the cluster state, computes the next placement, and turns the
  difference into a command for the state machine.

  A map to \<^verbatim>\<open>true\<close> that is used as a set is the list of its keys. \<open>None\<close> is a panic: a write to the nil
  map of a missing server or partition, or a missing replica that is dereferenced. The order in which
  Go ranges over a map, and a shuffle, are the functions of an \<open>orders\<close> record. Sorting with the
  comparison functions of the code is \<open>sort_sort\<close>; elements that compare equal come in the order given.
\<close>

section \<open>State\<close>

record server_state =
  sv_Id :: u64
  sv_Serving :: "u32 list"
  sv_Joining :: "u32 list"
  sv_Leaving :: "u32 list"

record partition_state =
  qs_Id :: u32
  qs_Serving :: "u64 list"
  qs_Joining :: "u64 list"
  qs_Leaving :: "u64 list"

record rep_state =
  rk_Pid :: u32
  rk_Name :: string
  rk_CreatedTime :: gotime
  rk_Ready :: bool

record place =
  st_Serv :: "(u64, server_state) gomap"
  st_Part :: "(u32, partition_state) gomap"
  st_Replica :: "(u64 \<times> u32, rep_state) gomap"
  st_Joining :: int

definition NewState :: place where
  "NewState = \<lparr>st_Serv = [], st_Part = [], st_Replica = [], st_Joining = 0\<rparr>"

definition AddServer :: "u64 \<Rightarrow> place \<Rightarrow> place" where
  "AddServer sid s = (if mget (st_Serv s) sid = None
     then s\<lparr>st_Serv := mput sid \<lparr>sv_Id = sid, sv_Serving = [], sv_Joining = [], sv_Leaving = []\<rparr> (st_Serv s)\<rparr> else s)"

definition AddPartition :: "u32 \<Rightarrow> place \<Rightarrow> place" where
  "AddPartition pid s = (if mget (st_Part s) pid = None
     then s\<lparr>st_Part := mput pid \<lparr>qs_Id = pid, qs_Serving = [], qs_Joining = [], qs_Leaving = []\<rparr> (st_Part s)\<rparr> else s)"

definition ServerState_Clone :: "server_state \<Rightarrow> server_state" where
  "ServerState_Clone x = \<lparr>sv_Id = sv_Id x, sv_Serving = sv_Serving x, sv_Joining = sv_Joining x, sv_Leaving = sv_Leaving x\<rparr>"

definition PartitionState_Clone :: "partition_state \<Rightarrow> partition_state" where
  "PartitionState_Clone x = \<lparr>qs_Id = qs_Id x, qs_Serving = qs_Serving x, qs_Joining = qs_Joining x, qs_Leaving = qs_Leaving x\<rparr>"

definition State_Clone :: "place \<Rightarrow> place" where
  "State_Clone s = \<lparr>st_Serv = map (\<lambda>(i, x). (i, ServerState_Clone x)) (st_Serv s),
     st_Part = map (\<lambda>(i, x). (i, PartitionState_Clone x)) (st_Part s),
     st_Replica = CloneMap (st_Replica s), st_Joining = st_Joining s\<rparr>"

definition on_serv :: "u64 \<Rightarrow> (server_state \<Rightarrow> server_state) \<Rightarrow> place \<Rightarrow> place option" where
  "on_serv sid f s = (case mget (st_Serv s) sid of
     None \<Rightarrow> None | Some x \<Rightarrow> Some (s\<lparr>st_Serv := mput sid (f x) (st_Serv s)\<rparr>))"

definition on_part :: "u32 \<Rightarrow> (partition_state \<Rightarrow> partition_state) \<Rightarrow> place \<Rightarrow> place option" where
  "on_part pid f s = (case mget (st_Part s) pid of
     None \<Rightarrow> None | Some x \<Rightarrow> Some (s\<lparr>st_Part := mput pid (f x) (st_Part s)\<rparr>))"

definition AddServing :: "u64 \<Rightarrow> u32 \<Rightarrow> place \<Rightarrow> place option" where
  "AddServing sid pid s = do {
     s1 \<leftarrow> on_serv sid (\<lambda>x. x\<lparr>sv_Serving := List.insert pid (sv_Serving x)\<rparr>) s;
     on_part pid (\<lambda>x. x\<lparr>qs_Serving := List.insert sid (qs_Serving x)\<rparr>) s1
   }"

definition AddJoining :: "u64 \<Rightarrow> u32 \<Rightarrow> place \<Rightarrow> place option" where
  "AddJoining sid pid s = do {
     s1 \<leftarrow> on_serv sid (\<lambda>x. x\<lparr>sv_Joining := List.insert pid (sv_Joining x)\<rparr>) s;
     s2 \<leftarrow> on_part pid (\<lambda>x. x\<lparr>qs_Joining := List.insert sid (qs_Joining x)\<rparr>) s1;
     Some (s2\<lparr>st_Joining := st_Joining s2 + 1\<rparr>)
   }"

definition AddLeaving :: "u64 \<Rightarrow> u32 \<Rightarrow> place \<Rightarrow> place option" where
  "AddLeaving sid pid s = do {
     s1 \<leftarrow> on_serv sid (\<lambda>x. x\<lparr>sv_Leaving := List.insert pid (sv_Leaving x)\<rparr>) s;
     on_part pid (\<lambda>x. x\<lparr>qs_Leaving := List.insert sid (qs_Leaving x)\<rparr>) s1
   }"

definition TransitionJoiningToServing :: "u64 \<Rightarrow> u32 \<Rightarrow> place \<Rightarrow> place option" where
  "TransitionJoiningToServing sid pid s = do {
     s1 \<leftarrow> on_serv sid (\<lambda>x. x\<lparr>sv_Serving := List.insert pid (sv_Serving x), sv_Joining := removeAll pid (sv_Joining x)\<rparr>) s;
     s2 \<leftarrow> on_part pid (\<lambda>x. x\<lparr>qs_Serving := List.insert sid (qs_Serving x), qs_Joining := removeAll sid (qs_Joining x)\<rparr>) s1;
     Some (s2\<lparr>st_Joining := st_Joining s2 - 1\<rparr>)
   }"

definition TransitionServingToLeaving :: "u64 \<Rightarrow> u32 \<Rightarrow> place \<Rightarrow> place option" where
  "TransitionServingToLeaving sid pid s = do {
     s1 \<leftarrow> on_serv sid (\<lambda>x. x\<lparr>sv_Leaving := List.insert pid (sv_Leaving x), sv_Serving := removeAll pid (sv_Serving x)\<rparr>) s;
     on_part pid (\<lambda>x. x\<lparr>qs_Leaving := List.insert sid (qs_Leaving x), qs_Serving := removeAll sid (qs_Serving x)\<rparr>) s1
   }"

text \<open>Deleting from a nil map does nothing.\<close>

definition RemoveLeaving :: "u64 \<Rightarrow> u32 \<Rightarrow> place \<Rightarrow> place" where
  "RemoveLeaving sid pid s =
     (let s1 = (case on_serv sid (\<lambda>x. x\<lparr>sv_Leaving := removeAll pid (sv_Leaving x)\<rparr>) s of Some y \<Rightarrow> y | None \<Rightarrow> s)
      in (case on_part pid (\<lambda>x. x\<lparr>qs_Leaving := removeAll sid (qs_Leaving x)\<rparr>) s1 of Some y \<Rightarrow> y | None \<Rightarrow> s1))"

definition AddReplica :: "u64 \<Rightarrow> u32 \<Rightarrow> rep_state \<Rightarrow> place \<Rightarrow> place" where
  "AddReplica sid pid state s = s\<lparr>st_Replica := mput (sid, pid) state (st_Replica s)\<rparr>"

definition GetReplica :: "u64 \<Rightarrow> u32 \<Rightarrow> place \<Rightarrow> rep_state option" where
  "GetReplica sid pid s = mget (st_Replica s) (sid, pid)"

definition Serv_TotalCount :: "server_state \<Rightarrow> int" where
  "Serv_TotalCount x = int (length (sv_Joining x)) + int (length (sv_Serving x))"

definition Serv_JoiningCount :: "server_state \<Rightarrow> int" where
  "Serv_JoiningCount x = int (length (sv_Joining x))"

definition Serv_ServingCount :: "server_state \<Rightarrow> int" where
  "Serv_ServingCount x = int (length (sv_Serving x))"

definition Part_TotalCount :: "partition_state \<Rightarrow> int" where
  "Part_TotalCount x = int (length (qs_Joining x)) + int (length (qs_Serving x))"

definition Part_JoiningCount :: "partition_state \<Rightarrow> int" where
  "Part_JoiningCount x = int (length (qs_Joining x))"

definition Part_ServingCount :: "partition_state \<Rightarrow> int" where
  "Part_ServingCount x = int (length (qs_Serving x))"

definition max_int :: int where
  "max_int = 9223372036854775807"

fun imbalance_loop :: "(u64, server_state) gomap \<Rightarrow> int \<Rightarrow> int \<Rightarrow> int \<times> int" where
  "imbalance_loop [] minCount maxCount = (minCount, maxCount)"
| "imbalance_loop ((_, x) # m) minCount maxCount =
     imbalance_loop m (min minCount (Serv_TotalCount x)) (max maxCount (Serv_TotalCount x))"

definition MaxImbalance :: "place \<Rightarrow> int" where
  "MaxImbalance s = (let (minCount, maxCount) = imbalance_loop (st_Serv s) max_int 0 in maxCount - minCount)"

definition ServerCount :: "place \<Rightarrow> nat" where
  "ServerCount s = length (st_Serv s)"

definition PartitionCount :: "place \<Rightarrow> nat" where
  "PartitionCount s = length (st_Part s)"

text \<open>Reading a missing entry of a map of structs gives the zero struct.\<close>

definition serv_at :: "place \<Rightarrow> u64 \<Rightarrow> server_state" where
  "serv_at s sid = (case mget (st_Serv s) sid of
     Some x \<Rightarrow> x | None \<Rightarrow> \<lparr>sv_Id = 0, sv_Serving = [], sv_Joining = [], sv_Leaving = []\<rparr>)"

definition part_at :: "place \<Rightarrow> u32 \<Rightarrow> partition_state" where
  "part_at s pid = (case mget (st_Part s) pid of
     Some x \<Rightarrow> x | None \<Rightarrow> \<lparr>qs_Id = 0, qs_Serving = [], qs_Joining = [], qs_Leaving = []\<rparr>)"

definition HasReplica :: "u64 \<Rightarrow> u32 \<Rightarrow> place \<Rightarrow> bool" where
  "HasReplica sid pid s =
     (let part = part_at s pid in
      GetReplica sid pid s \<noteq> None \<or> sid \<in> set (qs_Joining part) \<or> sid \<in> set (qs_Serving part) \<or> sid \<in> set (qs_Leaving part))"

section \<open>The next placement\<close>

record part_config =
  pg_ReplicationFactor :: int
  pg_MaxJoining :: int
  pg_MaxJoiningForServer :: int
  pg_MaxJoiningForPartition :: int

record orders =
  or_sids :: "u64 list \<Rightarrow> u64 list"
  or_pids :: "u32 list \<Rightarrow> u32 list"
  or_shuffle :: "u32 list \<Rightarrow> u32 list"

definition canAddReplica :: "part_config \<Rightarrow> place \<Rightarrow> u64 \<Rightarrow> u32 \<Rightarrow> bool" where
  "canAddReplica cfg s sid pid \<longleftrightarrow>
     st_Joining s < pg_MaxJoining cfg \<and>
     int (length (sv_Joining (serv_at s sid))) < pg_MaxJoiningForServer cfg \<and>
     int (length (qs_Joining (part_at s pid))) < pg_MaxJoiningForPartition cfg \<and>
     \<not> HasReplica sid pid s"

fun serving_pids :: "u64 \<Rightarrow> u32 list \<Rightarrow> place \<Rightarrow> place option" where
  "serving_pids sid [] s = Some s"
| "serving_pids sid (pid # pids) s = do {
     replica \<leftarrow> GetReplica sid pid s;
     s1 \<leftarrow> (if rk_Ready replica then TransitionJoiningToServing sid pid s else Some s);
     serving_pids sid pids s1
   }"

fun serving_servers :: "orders \<Rightarrow> u64 list \<Rightarrow> place \<Rightarrow> place option" where
  "serving_servers ord [] s = Some s"
| "serving_servers ord (i # is) s = do {
     let server = serv_at s i;
     s1 \<leftarrow> serving_pids (sv_Id server) (or_pids ord (sv_Joining server)) s;
     serving_servers ord is s1
   }"

definition transitionToServing :: "orders \<Rightarrow> place \<Rightarrow> place option" where
  "transitionToServing ord s = serving_servers ord (or_sids ord (map fst (st_Serv s))) s"

fun leaving_pids :: "u64 \<Rightarrow> u32 list \<Rightarrow> place \<Rightarrow> place option" where
  "leaving_pids sid [] s = Some s"
| "leaving_pids sid (pid # pids) s = do {
     replica \<leftarrow> GetReplica sid pid s;
     leaving_pids sid pids (if rk_Ready replica then RemoveLeaving sid pid s else s)
   }"

fun leaving_servers :: "orders \<Rightarrow> u64 list \<Rightarrow> place \<Rightarrow> place option" where
  "leaving_servers ord [] s = Some s"
| "leaving_servers ord (i # is) s = do {
     let server = serv_at s i;
     s1 \<leftarrow> leaving_pids (sv_Id server) (or_pids ord (sv_Leaving server)) s;
     leaving_servers ord is s1
   }"

definition removeLeaving :: "orders \<Rightarrow> place \<Rightarrow> place option" where
  "removeLeaving ord s = leaving_servers ord (or_sids ord (map fst (st_Serv s))) s"

definition less_loaded :: "place \<Rightarrow> u64 \<Rightarrow> u64 \<Rightarrow> bool" where
  "less_loaded s i j =
     (let s1 = serv_at s i; s2 = serv_at s j; x = Serv_TotalCount s1 - Serv_TotalCount s2
      in if x \<noteq> 0 then x < 0 else Serv_JoiningCount s1 - Serv_JoiningCount s2 < 0)"

fun add_candidates :: "part_config \<Rightarrow> u32 \<Rightarrow> u64 list \<Rightarrow> int \<Rightarrow> place \<Rightarrow> place option" where
  "add_candidates cfg pid [] count s = Some s"
| "add_candidates cfg pid (sid # sids) count s =
     (if count \<le> 0 then Some s
      else if canAddReplica cfg s sid pid then do {
        s1 \<leftarrow> AddJoining sid pid s;
        add_candidates cfg pid sids (count - 1) s1
      }
      else add_candidates cfg pid sids count s)"

definition addMissing :: "orders \<Rightarrow> part_config \<Rightarrow> u32 \<Rightarrow> place \<Rightarrow> place option" where
  "addMissing ord cfg pid s =
     (let part = part_at s pid;
          count = min (pg_ReplicationFactor cfg - Part_TotalCount part)
                      (pg_MaxJoiningForPartition cfg - Part_JoiningCount part)
      in if count \<le> 0 then Some s
         else (let candidates = filter (\<lambda>sid. \<not> HasReplica sid pid s) (or_sids ord (map fst (st_Serv s)))
               in if candidates = [] then Some s
                  else add_candidates cfg pid (sort_sort (less_loaded s) candidates) count s))"

text \<open>
  Servers with more replicas come first, then older replicas. The comparison of two replicas panics
  when one of them is unknown; the model panics as soon as one of the candidates has no replica.
\<close>

definition more_loaded :: "place \<Rightarrow> u32 \<Rightarrow> u64 \<Rightarrow> u64 \<Rightarrow> bool" where
  "more_loaded s pid i j =
     (let s1 = serv_at s i; s2 = serv_at s j; x = Serv_TotalCount s2 - Serv_TotalCount s1
      in if x \<noteq> 0 then x < 0
         else (case (GetReplica (sv_Id s1) pid s, GetReplica (sv_Id s2) pid s) of
             (Some r1, Some r2) \<Rightarrow> rk_CreatedTime r1 - rk_CreatedTime r2 < 0
           | _ \<Rightarrow> False))"

fun leave_candidates :: "u32 \<Rightarrow> u64 list \<Rightarrow> int \<Rightarrow> place \<Rightarrow> place option" where
  "leave_candidates pid [] count s = Some s"
| "leave_candidates pid (sid # sids) count s =
     (if count \<le> 0 then Some s
      else do {
        s1 \<leftarrow> TransitionServingToLeaving sid pid s;
        leave_candidates pid sids (count - 1) s1
      })"

definition removeExtra :: "orders \<Rightarrow> part_config \<Rightarrow> u32 \<Rightarrow> place \<Rightarrow> place option" where
  "removeExtra ord cfg pid s =
     (let part = part_at s pid; count = Part_ServingCount part - pg_ReplicationFactor cfg
      in if count \<le> 0 then Some s
         else (let candidates = or_sids ord (qs_Serving part)
               in if \<not> list_all (\<lambda>sid. GetReplica sid pid s \<noteq> None) candidates then None
                  else leave_candidates pid (sort_sort (more_loaded s pid) candidates) count s))"

text \<open>
  One round of \<^verbatim>\<open>rebalance\<close> looks for a replica to move: the destinations of a source are tried from
  the least loaded one, and are given up when the difference is at most one.
\<close>

fun try_dests :: "orders \<Rightarrow> part_config \<Rightarrow> place \<Rightarrow> server_state \<Rightarrow> server_state list \<Rightarrow> (u64 \<times> u32) option" where
  "try_dests ord cfg s src [] = None"
| "try_dests ord cfg s src (dest # dests) =
     (if Serv_TotalCount src - Serv_TotalCount dest \<le> 1 then None
      else (case filter (\<lambda>pid. canAddReplica cfg s (sv_Id dest) pid) (or_pids ord (sv_Serving src)) of
          [] \<Rightarrow> try_dests ord cfg s src dests
        | pid # pids \<Rightarrow> Some (sv_Id dest, hd (or_shuffle ord (pid # pids)))))"

fun try_sources :: "orders \<Rightarrow> part_config \<Rightarrow> place \<Rightarrow> server_state list \<Rightarrow> (u64 \<times> u32) option" where
  "try_sources ord cfg s [] = None"
| "try_sources ord cfg s (src # servers) = (case try_dests ord cfg s src (rev servers) of
       Some move \<Rightarrow> Some move
     | None \<Rightarrow> try_sources ord cfg s servers)"

definition find_move :: "orders \<Rightarrow> part_config \<Rightarrow> place \<Rightarrow> (u64 \<times> u32) option" where
  "find_move ord cfg s =
     try_sources ord cfg s (sort_sort (\<lambda>s1 s2. Serv_TotalCount s2 - Serv_TotalCount s1 < 0)
       (map (serv_at s) (or_sids ord (map fst (st_Serv s)))))"

lemma try_dests_joining: "try_dests ord cfg s src ds = Some mv \<Longrightarrow> st_Joining s < pg_MaxJoining cfg"
proof (induction ord cfg s src ds rule: try_dests.induct)
  case (2 ord cfg s src dest dests)
  show ?case
  proof (cases "filter (\<lambda>pid. canAddReplica cfg s (sv_Id dest) pid) (or_pids ord (sv_Serving src))")
    case Nil
    then show ?thesis using 2 by (auto split: if_splits)
  next
    case (Cons pid pids)
    then have "pid \<in> set (filter (\<lambda>pid. canAddReplica cfg s (sv_Id dest) pid) (or_pids ord (sv_Serving src)))" by simp
    then show ?thesis by (simp add: canAddReplica_def)
  qed
qed simp

lemma find_move_joining: "find_move ord cfg s = Some mv \<Longrightarrow> st_Joining s < pg_MaxJoining cfg"
proof -
  have "try_sources ord cfg s ss = Some mv \<Longrightarrow> st_Joining s < pg_MaxJoining cfg" for ss
    by (induction ss) (auto split: option.splits dest: try_dests_joining)
  then show "find_move ord cfg s = Some mv \<Longrightarrow> st_Joining s < pg_MaxJoining cfg" by (auto simp: find_move_def)
qed

lemma AddJoining_count: "AddJoining sid pid s = Some s' \<Longrightarrow> st_Joining s' = st_Joining s + 1"
  by (auto simp: AddJoining_def on_serv_def on_part_def split: bind_splits option.splits)

text \<open>The loop ends: every round adds a joining replica, and none is added at the limit.\<close>

function rebalance :: "orders \<Rightarrow> part_config \<Rightarrow> place \<Rightarrow> place option" where
  "rebalance ord cfg s = (case find_move ord cfg s of
       None \<Rightarrow> Some s
     | Some (sid, pid) \<Rightarrow> do { s1 \<leftarrow> AddJoining sid pid s; rebalance ord cfg s1 })"
  by pat_completeness auto
termination
  by (relation "measure (\<lambda>(_, cfg, s). nat (pg_MaxJoining cfg - st_Joining s))")
     (auto dest!: find_move_joining AddJoining_count)

declare rebalance.simps [simp del]

fun each_part :: "(u32 \<Rightarrow> place \<Rightarrow> place option) \<Rightarrow> u32 list \<Rightarrow> place \<Rightarrow> place option" where
  "each_part f [] s = Some s"
| "each_part f (pid # pids) s = do { s1 \<leftarrow> f pid s; each_part f pids s1 }"

text \<open>Ranging over \<^verbatim>\<open>rand.Perm(n)\<close> with one variable gives its indices, in order.\<close>

definition Next_place :: "orders \<Rightarrow> part_config \<Rightarrow> place \<Rightarrow> place option" where
  "Next_place ord cfg cur = do {
     let pids = map of_nat [0..<PartitionCount cur];
     s1 \<leftarrow> removeLeaving ord (State_Clone cur);
     s2 \<leftarrow> transitionToServing ord s1;
     s3 \<leftarrow> each_part (addMissing ord cfg) pids s2;
     s4 \<leftarrow> each_part (removeExtra ord cfg) pids s3;
     (if MaxImbalance s4 > 1 then rebalance ord cfg s4 else Some s4)
   }"

section \<open>From the cluster state and back\<close>

fun make_replicas :: "u32 \<Rightarrow> (string, part_replica) gomap \<Rightarrow> place \<Rightarrow> place option" where
  "make_replicas pid [] s = Some s"
| "make_replicas pid ((name, replica) # m) s = do {
     let sid = rp_ServerId replica;
     s1 \<leftarrow> (if IsServing (rp_State replica) then AddServing sid pid s
            else if rp_State replica = RS_Joining then AddJoining sid pid s
            else if rp_State replica = RS_Leaving then AddLeaving sid pid s
            else None);
     make_replicas pid m (AddReplica sid pid
       \<lparr>rk_Pid = pid, rk_Name = name, rk_CreatedTime = rp_CreatedTime replica, rk_Ready = rp_Ready replica\<rparr> s1)
   }"

fun make_parts :: "(u32, part) gomap \<Rightarrow> place \<Rightarrow> place option" where
  "make_parts [] s = Some s"
| "make_parts ((pid, part) # m) s = do {
     s1 \<leftarrow> make_replicas pid (pa_Replicas part) (AddPartition pid s);
     make_parts m s1
   }"

definition makeState :: "servers \<Rightarrow> parts \<Rightarrow> place option" where
  "makeState ss ps = make_parts (ps_Items ps) (fold (\<lambda>(sid, _). AddServer sid) (Servers_DataServers ss) NewState)"

fun update_names :: "place \<Rightarrow> u32 \<Rightarrow> replica_state \<Rightarrow> u64 list \<Rightarrow> asg_update list option" where
  "update_names s pid st [] = Some []"
| "update_names s pid st (sid # sids) = do {
     replica \<leftarrow> GetReplica sid pid s;
     us \<leftarrow> update_names s pid st sids;
     Some (\<lparr>ud_PartitionId = pid, ud_Replica = rk_Name replica, ud_State = st\<rparr> # us)
   }"

fun remove_names :: "place \<Rightarrow> u32 \<Rightarrow> u64 list \<Rightarrow> asg_remove list option" where
  "remove_names s pid [] = Some []"
| "remove_names s pid (sid # sids) = do {
     replica \<leftarrow> GetReplica sid pid s;
     rs \<leftarrow> remove_names s pid sids;
     Some (\<lparr>re_PartitionId = pid, re_Replica = rk_Name replica\<rparr> # rs)
   }"

definition part_changes :: "orders \<Rightarrow> place \<Rightarrow> place \<Rightarrow> u32 \<Rightarrow> (asg_add list \<times> asg_update list \<times> asg_remove list) option" where
  "part_changes ord cur next pid =
     (let currPart = part_at cur pid; nextPart = part_at next pid;
          adds = map (\<lambda>sid. \<lparr>ad_PartitionId = pid, ad_ServerId = sid\<rparr>)
                   (filter (\<lambda>sid. sid \<notin> set (qs_Joining currPart)) (or_sids ord (qs_Joining nextPart)))
      in do {
        u1 \<leftarrow> update_names next pid RS_Voter (filter (\<lambda>sid. sid \<notin> set (qs_Serving currPart)) (or_sids ord (qs_Serving nextPart)));
        u2 \<leftarrow> update_names next pid RS_Leaving (filter (\<lambda>sid. sid \<notin> set (qs_Leaving currPart)) (or_sids ord (qs_Leaving nextPart)));
        rs \<leftarrow> remove_names next pid (filter (\<lambda>sid. sid \<notin> set (qs_Leaving nextPart)) (or_sids ord (qs_Leaving currPart)));
        Some (adds, u1 @ u2, rs)
      })"

fun all_changes :: "orders \<Rightarrow> place \<Rightarrow> place \<Rightarrow> u32 list \<Rightarrow> (asg_add list \<times> asg_update list \<times> asg_remove list) option" where
  "all_changes ord cur next [] = Some ([], [], [])"
| "all_changes ord cur next (pid # pids) = do {
     (as, us, rs) \<leftarrow> part_changes ord cur next pid;
     (as', us', rs') \<leftarrow> all_changes ord cur next pids;
     Some (as @ as', us @ us', rs @ rs')
   }"

definition makeUpdateAssignments :: "orders \<Rightarrow> u64 \<Rightarrow> place \<Rightarrow> place \<Rightarrow> update_assignments option" where
  "makeUpdateAssignments ord version cur next = do {
     (as, us, rs) \<leftarrow> all_changes ord cur next (or_pids ord (map fst (st_Part next)));
     Some \<lparr>ua_IfMatch = version, ua_Add = as, ua_Update = us, ua_Remove = rs,
           ua_MaxImbalance = word_of_int (MaxImbalance next)\<rparr>
   }"

text \<open>The command that a round of the assigner submits, if there is anything to change.\<close>

definition updateAssignments :: "orders \<Rightarrow> part_config \<Rightarrow> servers \<Rightarrow> parts \<Rightarrow> update_assignments option option" where
  "updateAssignments ord cfg ss ps = do {
     cur \<leftarrow> makeState ss ps;
     next \<leftarrow> Next_place ord cfg cur;
     cmd \<leftarrow> makeUpdateAssignments ord (ps_AssignmentsVersion ps) cur next;
     Some (if IsEmpty_update cmd then None else Some cmd)
   }"

section \<open>The first placement\<close>

text \<open>
  Dealing replicas like cards: \<open>deal_server\<close> goes round the servers, at most once, from the one after
  the last that got a replica.
\<close>

fun deal_server :: "nat \<Rightarrow> u64 list \<Rightarrow> nat \<Rightarrow> u32 \<Rightarrow> place \<Rightarrow> nat \<times> u64 option" where
  "deal_server 0 serverIDs idx pid s = (idx, None)"
| "deal_server (Suc k) serverIDs idx pid s =
     (let idx = (idx + 1) mod length serverIDs; sid = serverIDs ! idx
      in if \<not> HasReplica sid pid s then (idx, Some sid) else deal_server k serverIDs idx pid s)"

fun deal_replicas :: "nat \<Rightarrow> u64 list \<Rightarrow> u32 \<Rightarrow> nat \<Rightarrow> place \<Rightarrow> (nat \<times> place) option" where
  "deal_replicas 0 serverIDs pid idx s = Some (idx, s)"
| "deal_replicas (Suc n) serverIDs pid idx s = (case deal_server (length serverIDs) serverIDs idx pid s of
       (idx, None) \<Rightarrow> Some (idx, s)
     | (idx, Some sid) \<Rightarrow> do { s1 \<leftarrow> AddJoining sid pid s; deal_replicas n serverIDs pid idx s1 })"

fun deal_parts :: "nat \<Rightarrow> u64 list \<Rightarrow> u32 list \<Rightarrow> nat \<Rightarrow> place \<Rightarrow> (nat \<times> place) option" where
  "deal_parts replicationFactor serverIDs [] idx s = Some (idx, s)"
| "deal_parts replicationFactor serverIDs (pid # pids) idx s = do {
     (idx, s1) \<leftarrow> deal_replicas replicationFactor serverIDs pid idx s;
     deal_parts replicationFactor serverIDs pids idx s1
   }"

definition init_adds :: "place \<Rightarrow> init_add list" where
  "init_adds s = concat (map (\<lambda>(pid, part). map (\<lambda>sid. \<lparr>ia_PartitionId = pid, ia_ServerId = sid, ia_Voter = True\<rparr>)
     (qs_Joining part)) (st_Part s))"

definition initAssignments :: "orders \<Rightarrow> part_config \<Rightarrow> servers \<Rightarrow> u32 \<Rightarrow> init_assignments option" where
  "initAssignments ord cfg ss partitionCount = do {
     let serverIDs = or_sids ord (MakeKeySlice (Servers_DataServers ss));
     let pids = map of_nat [0..<unat partitionCount];
     let s = fold AddPartition pids (fold AddServer serverIDs NewState);
     (_, s1) \<leftarrow> deal_parts (nat (pg_ReplicationFactor cfg)) serverIDs pids 0 s;
     Some \<lparr>in_Add = init_adds s1, in_MaxImbalance = word_of_int (MaxImbalance s1)\<rparr>
   }"

section \<open>The loop of the assigner\<close>

text \<open>
  The loop waits for one of two timers at a time. \<open>assign_fire\<close> is what it does when that timer fires:
  the command it submits, if any, and the timer it waits for next. The result of a submitted command
  is only logged.
\<close>

datatype assign_timer = InitTimer | RebalanceTicker

datatype assign_cmd = AsgInit init_assignments | AsgUpdate update_assignments

definition assign_start :: "parts \<Rightarrow> assign_timer" where
  "assign_start ps = (if \<not> HasAssignments ps then InitTimer else RebalanceTicker)"

definition assign_fire ::
    "orders \<Rightarrow> part_config \<Rightarrow> u32 \<Rightarrow> servers \<Rightarrow> parts \<Rightarrow> assign_timer \<Rightarrow> (assign_cmd option \<times> assign_timer) option" where
  "assign_fire ord cfg partitionCount ss ps t = (case t of
       InitTimer \<Rightarrow> do { c \<leftarrow> initAssignments ord cfg ss partitionCount; Some (Some (AsgInit c), RebalanceTicker) }
     | RebalanceTicker \<Rightarrow>
         if \<not> HasAssignments ps then do { c \<leftarrow> initAssignments ord cfg ss partitionCount; Some (Some (AsgInit c), RebalanceTicker) }
         else do { c \<leftarrow> updateAssignments ord cfg ss ps; Some (map_option AsgUpdate c, RebalanceTicker) })"

end
