(* ===== verification/Control_Placement_Inv.thy ===== *)
theory Control_Placement_Inv
  imports Control_Placement "HOL-Library.Multiset"
begin

text \<open>
  What a round of placement keeps and achieves: the two sides of the state, servers and partitions,
  always agree, and each of the five steps of a round changes the sets of a partition in its own way.
\<close>

section \<open>The invariant\<close>

abbreviation serving :: "place \<Rightarrow> u32 \<Rightarrow> u64 set" where
  "serving s pid \<equiv> set (qs_Serving (part_at s pid))"

abbreviation joining :: "place \<Rightarrow> u32 \<Rightarrow> u64 set" where
  "joining s pid \<equiv> set (qs_Joining (part_at s pid))"

abbreviation leaving :: "place \<Rightarrow> u32 \<Rightarrow> u64 set" where
  "leaving s pid \<equiv> set (qs_Leaving (part_at s pid))"

abbreviation known :: "place \<Rightarrow> u64 \<Rightarrow> u32 \<Rightarrow> bool" where
  "known s sid pid \<equiv> GetReplica sid pid s \<noteq> None"

definition ready :: "place \<Rightarrow> u32 \<Rightarrow> u64 set" where
  "ready s pid = {sid. \<exists>r. GetReplica sid pid s = Some r \<and> rk_Ready r}"

definition reorders :: "orders \<Rightarrow> bool" where
  "reorders ord \<longleftrightarrow> (\<forall>xs. mset (or_sids ord xs) = mset xs) \<and> (\<forall>xs. mset (or_pids ord xs) = mset xs) \<and>
     (\<forall>xs. mset (or_shuffle ord xs) = mset xs)"

definition keys_ok :: "place \<Rightarrow> bool" where
  "keys_ok s \<longleftrightarrow> gomap_wf (st_Serv s) \<and> gomap_wf (st_Part s) \<and>
     (\<forall>sid. mget (st_Serv s) sid \<noteq> None \<longrightarrow> sv_Id (serv_at s sid) = sid) \<and>
     (\<forall>sid. distinct (sv_Serving (serv_at s sid)) \<and> distinct (sv_Joining (serv_at s sid)) \<and> distinct (sv_Leaving (serv_at s sid))) \<and>
     (\<forall>pid. distinct (qs_Serving (part_at s pid)) \<and> distinct (qs_Joining (part_at s pid)) \<and> distinct (qs_Leaving (part_at s pid)))"

definition twins :: "place \<Rightarrow> bool" where
  "twins s \<longleftrightarrow> (\<forall>sid pid. (pid \<in> set (sv_Serving (serv_at s sid)) \<longleftrightarrow> sid \<in> serving s pid) \<and>
     (pid \<in> set (sv_Joining (serv_at s sid)) \<longleftrightarrow> sid \<in> joining s pid) \<and>
     (pid \<in> set (sv_Leaving (serv_at s sid)) \<longleftrightarrow> sid \<in> leaving s pid))"

definition apart :: "place \<Rightarrow> bool" where
  "apart s \<longleftrightarrow> (\<forall>pid. serving s pid \<inter> joining s pid = {} \<and> serving s pid \<inter> leaving s pid = {} \<and>
     joining s pid \<inter> leaving s pid = {}) \<and>
     (\<forall>pid. \<forall>sid \<in> serving s pid \<union> leaving s pid. known s sid pid)"

text \<open>The joining replicas: all of them, with server and partition, and the partitions of one server.\<close>

definition joins :: "place \<Rightarrow> (u64 \<times> u32) set" where
  "joins s = {(sid, pid). sid \<in> joining s pid}"

definition joins_of :: "place \<Rightarrow> u64 \<Rightarrow> u32 set" where
  "joins_of s sid = {pid. sid \<in> joining s pid}"

definition counted :: "place \<Rightarrow> bool" where
  "counted s \<longleftrightarrow> st_Joining s = int (card (joins s))"

definition place_ok :: "place \<Rightarrow> bool" where
  "place_ok s \<longleftrightarrow> keys_ok s \<and> twins s \<and> apart s \<and> counted s"

lemma joins_cong: "(\<And>p. joining s' p = joining s p) \<Longrightarrow> joins s' = joins s \<and> joins_of s' = joins_of s"
  by (simp add: joins_def joins_of_def fun_eq_iff)

lemma counted_same: "counted s \<Longrightarrow> (\<And>p. joining s' p = joining s p) \<Longrightarrow> st_Joining s' = st_Joining s \<Longrightarrow> counted s'"
  using joins_cong [of s' s] by (simp add: counted_def)

lemma counted_insert:
  assumes "counted s" "sid \<notin> joining s pid" "\<And>p. joining s' p = joining s p \<union> (if p = pid then {sid} else {})"
    and "st_Joining s' = st_Joining s + 1"
  shows "counted s'"
proof -
  have "joins s' = insert (sid, pid) (joins s)" "(sid, pid) \<notin> joins s"
    using assms(2,3) by (auto simp: joins_def split: if_splits)
  then show ?thesis using assms(1,4) by (simp add: counted_def)
qed

lemma counted_remove:
  assumes "counted s" "sid \<in> joining s pid" "\<And>p. joining s' p = joining s p - (if p = pid then {sid} else {})"
    and "st_Joining s' = st_Joining s - 1"
  shows "counted s'"
proof -
  have "joins s = insert (sid, pid) (joins s')" "(sid, pid) \<notin> joins s'"
    using assms(2,3) by (auto simp: joins_def split: if_splits)
  then show ?thesis using assms(1,4) by (simp add: counted_def)
qed

text \<open>The servers, the partitions and the known replicas stay the same.\<close>

definition same_frame :: "place \<Rightarrow> place \<Rightarrow> bool" where
  "same_frame s s' \<longleftrightarrow> map fst (st_Serv s') = map fst (st_Serv s) \<and> map fst (st_Part s') = map fst (st_Part s) \<and>
     st_Replica s' = st_Replica s"

lemma same_frame_refl [simp]: "same_frame s s"
  by (simp add: same_frame_def)

lemma same_frame_trans [trans]: "same_frame s s1 \<Longrightarrow> same_frame s1 s2 \<Longrightarrow> same_frame s s2"
  by (simp add: same_frame_def)

lemma mget_keys: "mget m k \<noteq> None \<longleftrightarrow> k \<in> set (map fst m)"
  by (simp add: map_of_eq_None_iff)

lemma same_frame_simps:
  assumes "same_frame s s'"
  shows "mget (st_Serv s') sid = None \<longleftrightarrow> mget (st_Serv s) sid = None"
    and "mget (st_Part s') pid = None \<longleftrightarrow> mget (st_Part s) pid = None"
    and "GetReplica sid pid s' = GetReplica sid pid s" and "ready s' pid = ready s pid"
  using assms mget_keys by (auto simp: same_frame_def GetReplica_def ready_def map_of_eq_None_iff simp flip: set_map)

lemma reorders_set:
  assumes "reorders ord"
  shows "set (or_sids ord xs) = set xs" "set (or_pids ord ys) = set ys" "set (or_shuffle ord zs) = set zs"
    "distinct (or_sids ord xs) = distinct xs" "distinct (or_pids ord ys) = distinct ys" "length (or_sids ord xs) = length xs"
  using assms mset_eq_setD mset_eq_imp_distinct_iff mset_eq_length unfolding reorders_def by metis+

section \<open>One change\<close>

text \<open>All operations change one server and one partition.\<close>

definition edit :: "u64 \<Rightarrow> (server_state \<Rightarrow> server_state) \<Rightarrow> u32 \<Rightarrow> (partition_state \<Rightarrow> partition_state) \<Rightarrow> int \<Rightarrow> place \<Rightarrow> place" where
  "edit sid f pid g k s = s\<lparr>st_Serv := mput sid (f (serv_at s sid)) (st_Serv s), st_Part := mput pid (g (part_at s pid)) (st_Part s),
     st_Joining := st_Joining s + k\<rparr>"

lemma edit_simps [simp]:
  "serv_at (edit sid f pid g k s) i = (if i = sid then f (serv_at s sid) else serv_at s i)"
  "part_at (edit sid f pid g k s) p = (if p = pid then g (part_at s pid) else part_at s p)"
  "GetReplica i p (edit sid f pid g k s) = GetReplica i p s"
  "st_Joining (edit sid f pid g k s) = st_Joining s + k"
  by (auto simp: edit_def serv_at_def part_at_def GetReplica_def)

lemma edit_frame:
  "mget (st_Serv s) sid \<noteq> None \<Longrightarrow> mget (st_Part s) pid \<noteq> None \<Longrightarrow> same_frame s (edit sid f pid g k s)"
  by (simp add: same_frame_def edit_def update_keys map_of_eq_None_iff)

lemma edit_keys:
  assumes "keys_ok s" "mget (st_Serv s) sid \<noteq> None" "mget (st_Part s) pid \<noteq> None"
    and "\<And>x. sv_Id (f x) = sv_Id x"
    and "\<And>x. distinct (sv_Serving x) \<and> distinct (sv_Joining x) \<and> distinct (sv_Leaving x) \<Longrightarrow>
      distinct (sv_Serving (f x)) \<and> distinct (sv_Joining (f x)) \<and> distinct (sv_Leaving (f x))"
    and "\<And>x. distinct (qs_Serving x) \<and> distinct (qs_Joining x) \<and> distinct (qs_Leaving x) \<Longrightarrow>
      distinct (qs_Serving (g x)) \<and> distinct (qs_Joining (g x)) \<and> distinct (qs_Leaving (g x))"
  shows "keys_ok (edit sid f pid g k s)"
proof -
  have wf: "gomap_wf (st_Serv (edit sid f pid g k s))" "gomap_wf (st_Part (edit sid f pid g k s))"
    using assms(1) by (simp_all add: keys_ok_def edit_def)
  have fr: "same_frame s (edit sid f pid g k s)" by (rule edit_frame [OF assms(2,3)])
  show ?thesis unfolding keys_ok_def same_frame_simps [OF fr]
    using assms wf by (simp add: keys_ok_def)
qed

lemma AddJoining_edit:
  "mget (st_Serv s) sid \<noteq> None \<Longrightarrow> mget (st_Part s) pid \<noteq> None \<Longrightarrow> AddJoining sid pid s = Some
     (edit sid (\<lambda>x. x\<lparr>sv_Joining := List.insert pid (sv_Joining x)\<rparr>) pid (\<lambda>x. x\<lparr>qs_Joining := List.insert sid (qs_Joining x)\<rparr>) 1 s)"
  by (auto simp: AddJoining_def on_serv_def on_part_def edit_def serv_at_def part_at_def)

lemma AddServing_edit:
  "mget (st_Serv s) sid \<noteq> None \<Longrightarrow> mget (st_Part s) pid \<noteq> None \<Longrightarrow> AddServing sid pid s = Some
     (edit sid (\<lambda>x. x\<lparr>sv_Serving := List.insert pid (sv_Serving x)\<rparr>) pid (\<lambda>x. x\<lparr>qs_Serving := List.insert sid (qs_Serving x)\<rparr>) 0 s)"
  by (auto simp: AddServing_def on_serv_def on_part_def edit_def serv_at_def part_at_def)

lemma AddLeaving_edit:
  "mget (st_Serv s) sid \<noteq> None \<Longrightarrow> mget (st_Part s) pid \<noteq> None \<Longrightarrow> AddLeaving sid pid s = Some
     (edit sid (\<lambda>x. x\<lparr>sv_Leaving := List.insert pid (sv_Leaving x)\<rparr>) pid (\<lambda>x. x\<lparr>qs_Leaving := List.insert sid (qs_Leaving x)\<rparr>) 0 s)"
  by (auto simp: AddLeaving_def on_serv_def on_part_def edit_def serv_at_def part_at_def)

lemma ToServing_edit:
  "mget (st_Serv s) sid \<noteq> None \<Longrightarrow> mget (st_Part s) pid \<noteq> None \<Longrightarrow> TransitionJoiningToServing sid pid s = Some
     (edit sid (\<lambda>x. x\<lparr>sv_Serving := List.insert pid (sv_Serving x), sv_Joining := removeAll pid (sv_Joining x)\<rparr>)
           pid (\<lambda>x. x\<lparr>qs_Serving := List.insert sid (qs_Serving x), qs_Joining := removeAll sid (qs_Joining x)\<rparr>) (- 1) s)"
  by (auto simp: TransitionJoiningToServing_def on_serv_def on_part_def edit_def serv_at_def part_at_def)

lemma ToLeaving_edit:
  "mget (st_Serv s) sid \<noteq> None \<Longrightarrow> mget (st_Part s) pid \<noteq> None \<Longrightarrow> TransitionServingToLeaving sid pid s = Some
     (edit sid (\<lambda>x. x\<lparr>sv_Leaving := List.insert pid (sv_Leaving x), sv_Serving := removeAll pid (sv_Serving x)\<rparr>)
           pid (\<lambda>x. x\<lparr>qs_Leaving := List.insert sid (qs_Leaving x), qs_Serving := removeAll sid (qs_Serving x)\<rparr>) 0 s)"
  by (auto simp: TransitionServingToLeaving_def on_serv_def on_part_def edit_def serv_at_def part_at_def)

lemma RemoveLeaving_edit:
  "mget (st_Serv s) sid \<noteq> None \<Longrightarrow> mget (st_Part s) pid \<noteq> None \<Longrightarrow> RemoveLeaving sid pid s =
     edit sid (\<lambda>x. x\<lparr>sv_Leaving := removeAll pid (sv_Leaving x)\<rparr>) pid (\<lambda>x. x\<lparr>qs_Leaving := removeAll sid (qs_Leaving x)\<rparr>) 0 s"
  by (auto simp: RemoveLeaving_def on_serv_def on_part_def edit_def serv_at_def part_at_def)

text \<open>A member of a set of a partition is a server of the state, in a partition of the state.\<close>

lemma member_exists:
  assumes "twins s" "sid \<in> serving s pid \<or> sid \<in> joining s pid \<or> sid \<in> leaving s pid"
  shows "mget (st_Serv s) sid \<noteq> None" "mget (st_Part s) pid \<noteq> None"
proof -
  show "mget (st_Part s) pid \<noteq> None" using assms(2) by (auto simp: part_at_def split: option.splits)
  have "pid \<in> set (sv_Serving (serv_at s sid)) \<or> pid \<in> set (sv_Joining (serv_at s sid)) \<or> pid \<in> set (sv_Leaving (serv_at s sid))"
    using assms unfolding twins_def by blast
  then show "mget (st_Serv s) sid \<noteq> None" by (auto simp: serv_at_def split: option.splits)
qed

lemma AddJoining_ok:
  assumes "place_ok s" "mget (st_Serv s) sid \<noteq> None" "mget (st_Part s) pid \<noteq> None" "\<not> HasReplica sid pid s"
  shows "\<exists>s'. AddJoining sid pid s = Some s' \<and> place_ok s' \<and> same_frame s s' \<and>
    (\<forall>p. qs_Serving (part_at s' p) = qs_Serving (part_at s p) \<and> qs_Leaving (part_at s' p) = qs_Leaving (part_at s p) \<and>
      qs_Joining (part_at s' p) = (if p = pid then sid # qs_Joining (part_at s p) else qs_Joining (part_at s p)))"
proof -
  have n: "sid \<notin> joining s pid" "sid \<notin> serving s pid" "sid \<notin> leaving s pid"
    using assms(4) by (auto simp: HasReplica_def Let_def)
  let ?s = "edit sid (\<lambda>x. x\<lparr>sv_Joining := List.insert pid (sv_Joining x)\<rparr>) pid (\<lambda>x. x\<lparr>qs_Joining := List.insert sid (qs_Joining x)\<rparr>) 1 s"
  have "keys_ok ?s" by (rule edit_keys [OF _ assms(2,3)]) (use assms(1) in \<open>auto simp: place_ok_def\<close>)
  moreover have "twins ?s" using assms(1) unfolding place_ok_def twins_def by auto
  moreover have "apart ?s" using assms(1) n unfolding place_ok_def apart_def by auto
  moreover have "counted ?s" by (rule counted_insert [OF _ n(1)]) (use assms(1) in \<open>auto simp: place_ok_def\<close>)
  ultimately have "place_ok ?s" by (simp add: place_ok_def)
  with AddJoining_edit [OF assms(2,3)] edit_frame [OF assms(2,3)] n(1) show ?thesis by auto
qed

lemma ToServing_ok:
  assumes "place_ok s" "sid \<in> joining s pid" "known s sid pid"
  shows "\<exists>s'. TransitionJoiningToServing sid pid s = Some s' \<and> place_ok s' \<and> same_frame s s' \<and> st_Joining s' = st_Joining s - 1 \<and>
    (\<forall>p. leaving s' p = leaving s p \<and> serving s' p = serving s p \<union> (if p = pid then {sid} else {}) \<and>
      joining s' p = joining s p - (if p = pid then {sid} else {}))"
proof -
  have ex: "mget (st_Serv s) sid \<noteq> None" "mget (st_Part s) pid \<noteq> None"
    using member_exists [of s sid pid] assms(1,2) by (auto simp: place_ok_def)
  let ?s = "edit sid (\<lambda>x. x\<lparr>sv_Serving := List.insert pid (sv_Serving x), sv_Joining := removeAll pid (sv_Joining x)\<rparr>)
           pid (\<lambda>x. x\<lparr>qs_Serving := List.insert sid (qs_Serving x), qs_Joining := removeAll sid (qs_Joining x)\<rparr>) (- 1) s"
  have "keys_ok ?s" by (rule edit_keys [OF _ ex]) (use assms(1) in \<open>auto simp: place_ok_def distinct_removeAll\<close>)
  moreover have "twins ?s" using assms(1) unfolding place_ok_def twins_def by auto
  moreover have "apart ?s" using assms unfolding place_ok_def apart_def by auto
  moreover have "counted ?s" by (rule counted_remove [OF _ assms(2)]) (use assms(1) in \<open>auto simp: place_ok_def\<close>)
  ultimately have "place_ok ?s" by (simp add: place_ok_def)
  with ToServing_edit [OF ex] edit_frame [OF ex] show ?thesis by auto
qed

lemma ToLeaving_ok:
  assumes "place_ok s" "sid \<in> serving s pid"
  shows "\<exists>s'. TransitionServingToLeaving sid pid s = Some s' \<and> place_ok s' \<and> same_frame s s' \<and> st_Joining s' = st_Joining s \<and>
    (\<forall>p. joining s' p = joining s p \<and> leaving s' p = leaving s p \<union> (if p = pid then {sid} else {}) \<and>
      serving s' p = serving s p - (if p = pid then {sid} else {}))"
proof -
  have ex: "mget (st_Serv s) sid \<noteq> None" "mget (st_Part s) pid \<noteq> None"
    using member_exists [of s sid pid] assms by (auto simp: place_ok_def)
  let ?s = "edit sid (\<lambda>x. x\<lparr>sv_Leaving := List.insert pid (sv_Leaving x), sv_Serving := removeAll pid (sv_Serving x)\<rparr>)
           pid (\<lambda>x. x\<lparr>qs_Leaving := List.insert sid (qs_Leaving x), qs_Serving := removeAll sid (qs_Serving x)\<rparr>) 0 s"
  have "keys_ok ?s" by (rule edit_keys [OF _ ex]) (use assms(1) in \<open>auto simp: place_ok_def distinct_removeAll\<close>)
  moreover have "twins ?s" using assms(1) unfolding place_ok_def twins_def by auto
  moreover have "apart ?s" using assms unfolding place_ok_def apart_def by auto
  moreover have "counted ?s" by (rule counted_same [of s]) (use assms(1) in \<open>auto simp: place_ok_def\<close>)
  ultimately have "place_ok ?s" by (simp add: place_ok_def)
  with ToLeaving_edit [OF ex] edit_frame [OF ex] show ?thesis by auto
qed

lemma RemoveLeaving_ok:
  assumes "place_ok s" "sid \<in> leaving s pid"
  shows "place_ok (RemoveLeaving sid pid s) \<and> same_frame s (RemoveLeaving sid pid s) \<and>
    st_Joining (RemoveLeaving sid pid s) = st_Joining s \<and>
    (\<forall>p. joining (RemoveLeaving sid pid s) p = joining s p \<and> serving (RemoveLeaving sid pid s) p = serving s p \<and>
      leaving (RemoveLeaving sid pid s) p = leaving s p - (if p = pid then {sid} else {}))"
proof -
  have ex: "mget (st_Serv s) sid \<noteq> None" "mget (st_Part s) pid \<noteq> None"
    using member_exists [of s sid pid] assms by (auto simp: place_ok_def)
  let ?s = "edit sid (\<lambda>x. x\<lparr>sv_Leaving := removeAll pid (sv_Leaving x)\<rparr>) pid (\<lambda>x. x\<lparr>qs_Leaving := removeAll sid (qs_Leaving x)\<rparr>) 0 s"
  have "keys_ok ?s" by (rule edit_keys [OF _ ex]) (use assms(1) in \<open>auto simp: place_ok_def distinct_removeAll\<close>)
  moreover have "twins ?s" using assms(1) unfolding place_ok_def twins_def by auto
  moreover have "apart ?s" using assms unfolding place_ok_def apart_def by auto
  moreover have "counted ?s" by (rule counted_same [of s]) (use assms(1) in \<open>auto simp: place_ok_def\<close>)
  ultimately have "place_ok ?s" by (simp add: place_ok_def)
  with RemoveLeaving_edit [OF ex] edit_frame [OF ex] show ?thesis by auto
qed

section \<open>The steps of a round\<close>

subsection \<open>Removing replicas that left\<close>

definition left_only :: "place \<Rightarrow> place \<Rightarrow> bool" where
  "left_only s s' \<longleftrightarrow> place_ok s' \<and> same_frame s s' \<and> st_Joining s' = st_Joining s \<and>
     (\<forall>p. joining s' p = joining s p \<and> serving s' p = serving s p \<and> leaving s' p \<subseteq> leaving s p)"

lemma left_only_refl: "place_ok s \<Longrightarrow> left_only s s"
  by (simp add: left_only_def)

lemma left_only_trans: "left_only s s1 \<Longrightarrow> left_only s1 s2 \<Longrightarrow> left_only s s2"
proof -
  assume a: "left_only s s1" "left_only s1 s2"
  have "leaving s2 p \<subseteq> leaving s p" for p
  proof -
    have "leaving s2 p \<subseteq> leaving s1 p" using a(2) by (simp add: left_only_def)
    also have "\<dots> \<subseteq> leaving s p" using a(1) by (simp add: left_only_def)
    finally show ?thesis .
  qed
  with a same_frame_trans [of s s1 s2] show "left_only s s2" by (simp add: left_only_def)
qed

lemma leaving_pids_ok:
  "place_ok s \<Longrightarrow> distinct pids \<Longrightarrow> \<forall>pid \<in> set pids. sid \<in> leaving s pid \<Longrightarrow>
    \<exists>s'. leaving_pids sid pids s = Some s' \<and> left_only s s'"
proof (induction pids arbitrary: s)
  case (Cons pid pids)
  then have m: "sid \<in> leaving s pid" by simp
  then obtain r where r: "GetReplica sid pid s = Some r"
    using Cons.prems(1) unfolding place_ok_def apart_def by blast
  let ?s = "if rk_Ready r then RemoveLeaving sid pid s else s"
  note rl = RemoveLeaving_ok [OF Cons.prems(1) m]
  have lo: "left_only s ?s" using rl left_only_refl [OF Cons.prems(1)] by (auto simp: left_only_def)
  have "\<forall>p \<in> set pids. sid \<in> leaving ?s p" using Cons.prems(2,3) rl by auto
  with Cons.IH [of ?s] lo Cons.prems(2) obtain s' where "leaving_pids sid pids ?s = Some s'" "left_only ?s s'"
    by (auto simp: left_only_def)
  with r left_only_trans [OF lo] show ?case by auto
qed (simp add: left_only_refl)

lemma serv_at_missing: "mget (st_Serv s) i = None \<Longrightarrow> sv_Joining (serv_at s i) = [] \<and> sv_Serving (serv_at s i) = [] \<and> sv_Leaving (serv_at s i) = []"
  by (simp add: serv_at_def)

lemma or_pids_Nil: "reorders ord \<Longrightarrow> or_pids ord [] = []"
  using reorders_set(2) [of ord "[]"] by simp

lemma leaving_servers_ok:
  "reorders ord \<Longrightarrow> place_ok s \<Longrightarrow> \<exists>s'. leaving_servers ord is s = Some s' \<and> left_only s s'"
proof (induction "is" arbitrary: s)
  case (Cons i "is")
  have "\<exists>s1. leaving_pids (sv_Id (serv_at s i)) (or_pids ord (sv_Leaving (serv_at s i))) s = Some s1 \<and> left_only s s1"
  proof (cases "mget (st_Serv s) i")
    case None
    then show ?thesis using serv_at_missing [OF None] or_pids_Nil [OF Cons.prems(1)] left_only_refl [OF Cons.prems(2)] by simp
  next
    case (Some x)
    then have "sv_Id (serv_at s i) = i" "distinct (sv_Leaving (serv_at s i))"
      using Cons.prems(2) by (auto simp: place_ok_def keys_ok_def)
    moreover have "\<forall>pid \<in> set (sv_Leaving (serv_at s i)). i \<in> leaving s pid"
      using Cons.prems(2) unfolding place_ok_def twins_def by blast
    ultimately show ?thesis using leaving_pids_ok [OF Cons.prems(2)] reorders_set(2,5) [OF Cons.prems(1)] by simp
  qed
  then obtain s1 where s1: "leaving_pids (sv_Id (serv_at s i)) (or_pids ord (sv_Leaving (serv_at s i))) s = Some s1" "left_only s s1"
    by blast
  with Cons.IH [OF Cons.prems(1), of s1] obtain s' where "leaving_servers ord is s1 = Some s'" "left_only s1 s'"
    by (auto simp: left_only_def)
  with s1 left_only_trans show ?case by (auto simp: Let_def)
qed (simp add: left_only_refl)

subsection \<open>Serving replicas that are ready\<close>

text \<open>Every server of \<open>T p\<close> that is ready becomes a serving one of partition \<open>p\<close>.\<close>

definition served :: "(u32 \<Rightarrow> u64 set) \<Rightarrow> place \<Rightarrow> place \<Rightarrow> bool" where
  "served T s s' \<longleftrightarrow> place_ok s' \<and> same_frame s s' \<and> st_Joining s' \<le> st_Joining s \<and>
     (\<forall>p. leaving s' p = leaving s p \<and> serving s' p = serving s p \<union> (joining s p \<inter> ready s p \<inter> T p) \<and>
       joining s' p = joining s p - (ready s p \<inter> T p))"

lemma served_refl: "place_ok s \<Longrightarrow> (\<And>p. joining s p \<inter> T p = {}) \<Longrightarrow> served T s s"
  unfolding served_def by auto

lemma served_trans: "served T s s1 \<Longrightarrow> served U s1 s2 \<Longrightarrow> served (\<lambda>p. T p \<union> U p) s s2"
proof -
  assume a: "served T s s1" "served U s1 s2"
  have f: "same_frame s s1" "same_frame s1 s2" using a by (simp_all add: served_def)
  have "leaving s2 p = leaving s p \<and> serving s2 p = serving s p \<union> (joining s p \<inter> ready s p \<inter> (T p \<union> U p)) \<and>
    joining s2 p = joining s p - (ready s p \<inter> (T p \<union> U p))" for p
    using a same_frame_simps(4) [OF f(1)] by (auto simp: served_def)
  then show "served (\<lambda>p. T p \<union> U p) s s2"
    using a same_frame_trans [OF f] by (simp add: served_def)
qed

lemma served_cong: "served T s s' \<Longrightarrow> (\<And>p. joining s p \<inter> T p = joining s p \<inter> U p) \<Longrightarrow> served U s s'"
  unfolding served_def by blast

lemma ready_iff: "GetReplica sid pid s = Some r \<Longrightarrow> sid \<in> ready s pid \<longleftrightarrow> rk_Ready r"
  by (simp add: ready_def)

lemma serving_pids_ok:
  "place_ok s \<Longrightarrow> distinct pids \<Longrightarrow> \<forall>pid \<in> set pids. sid \<in> joining s pid \<and> known s sid pid \<Longrightarrow>
    \<exists>s'. serving_pids sid pids s = Some s' \<and> served (\<lambda>p. if p \<in> set pids then {sid} else {}) s s'"
proof (induction pids arbitrary: s)
  case (Cons pid pids)
  then have m: "sid \<in> joining s pid" "known s sid pid" by auto
  then obtain r where r: "GetReplica sid pid s = Some r" by blast
  obtain s1 where s1: "(if rk_Ready r then TransitionJoiningToServing sid pid s else Some s) = Some s1"
    "served (\<lambda>p. if p = pid then {sid} else {}) s s1" "\<forall>p. p \<noteq> pid \<longrightarrow> joining s1 p = joining s p"
  proof (cases "rk_Ready r")
    case True
    obtain s1 where t: "TransitionJoiningToServing sid pid s = Some s1" "place_ok s1" "same_frame s s1" "st_Joining s1 = st_Joining s - 1"
      "\<forall>p. leaving s1 p = leaving s p \<and> serving s1 p = serving s p \<union> (if p = pid then {sid} else {}) \<and>
        joining s1 p = joining s p - (if p = pid then {sid} else {})"
      using ToServing_ok [OF Cons.prems(1) m] by (elim exE conjE)
    have "served (\<lambda>p. if p = pid then {sid} else {}) s s1"
      unfolding served_def using t(2-5) m(1) True ready_iff [OF r] by auto
    with True t that show ?thesis by simp
  next
    case False
    then have "served (\<lambda>p. if p = pid then {sid} else {}) s s"
      unfolding served_def using Cons.prems(1) ready_iff [OF r] by auto
    with False that show ?thesis by simp
  qed
  have "\<forall>p \<in> set pids. sid \<in> joining s1 p \<and> known s1 sid p"
    using Cons.prems(2,3) s1(2,3) same_frame_simps(3) [of s s1] by (auto simp: served_def)
  with Cons.IH [of s1] s1(2) Cons.prems(2)
  obtain s' where s': "serving_pids sid pids s1 = Some s'" "served (\<lambda>p. if p \<in> set pids then {sid} else {}) s1 s'"
    by (auto simp: served_def)
  have "served (\<lambda>p. if p \<in> set (pid # pids) then {sid} else {}) s s'"
    by (rule served_cong [OF served_trans [OF s1(2) s'(2)]]) auto
  with r s1(1) s'(1) show ?case by auto
qed (simp add: served_refl)

lemma serving_servers_ok:
  "reorders ord \<Longrightarrow> place_ok s \<Longrightarrow> \<forall>p. \<forall>sid \<in> joining s p. known s sid p \<Longrightarrow>
    \<exists>s'. serving_servers ord is s = Some s' \<and> served (\<lambda>_. set is) s s'"
proof (induction "is" arbitrary: s)
  case (Cons i "is")
  have tw: "pid \<in> set (sv_Joining (serv_at s i)) \<longleftrightarrow> i \<in> joining s pid" for pid
    using Cons.prems(2) unfolding place_ok_def twins_def by blast
  have "\<exists>s1. serving_pids (sv_Id (serv_at s i)) (or_pids ord (sv_Joining (serv_at s i))) s = Some s1 \<and> served (\<lambda>_. {i}) s s1"
  proof (cases "mget (st_Serv s) i")
    case None
    then have "joining s p \<inter> {i} = {}" for p using tw [of p] serv_at_missing [OF None] by auto
    then show ?thesis
      using serv_at_missing [OF None] or_pids_Nil [OF Cons.prems(1)] served_refl [OF Cons.prems(2), of "\<lambda>_. {i}"] by simp
  next
    case (Some x)
    then have i: "sv_Id (serv_at s i) = i" "distinct (sv_Joining (serv_at s i))"
      using Cons.prems(2) by (auto simp: place_ok_def keys_ok_def)
    have "\<forall>pid \<in> set (or_pids ord (sv_Joining (serv_at s i))). i \<in> joining s pid \<and> known s i pid"
      using tw Cons.prems(3) reorders_set(2) [OF Cons.prems(1)] by auto
    from serving_pids_ok [OF Cons.prems(2) _ this] i reorders_set(5) [OF Cons.prems(1)]
    obtain s1 where s1: "serving_pids (sv_Id (serv_at s i)) (or_pids ord (sv_Joining (serv_at s i))) s = Some s1"
      "served (\<lambda>p. if p \<in> set (or_pids ord (sv_Joining (serv_at s i))) then {i} else {}) s s1" by auto
    have "served (\<lambda>_. {i}) s s1"
      by (rule served_cong [OF s1(2)]) (use tw reorders_set(2) [OF Cons.prems(1)] in auto)
    with s1(1) show ?thesis by blast
  qed
  then obtain s1 where s1: "serving_pids (sv_Id (serv_at s i)) (or_pids ord (sv_Joining (serv_at s i))) s = Some s1" "served (\<lambda>_. {i}) s s1"
    by blast
  have "\<forall>p. \<forall>sid \<in> joining s1 p. known s1 sid p"
    using s1(2) Cons.prems(3) same_frame_simps(3) [of s s1] by (auto simp: served_def)
  with Cons.IH [OF Cons.prems(1), of s1] s1(2)
  obtain s' where s': "serving_servers ord is s1 = Some s'" "served (\<lambda>_. set is) s1 s'" by (auto simp: served_def)
  have "served (\<lambda>_. set (i # is)) s s'" using served_trans [OF s1(2) s'(2)] by simp
  with s1(1) s'(1) show ?case by (auto simp: Let_def)
qed (simp add: served_refl)

subsection \<open>Adding replicas within the limits\<close>

definition grown :: "part_config \<Rightarrow> place \<Rightarrow> place \<Rightarrow> bool" where
  "grown cfg s s' \<longleftrightarrow> place_ok s' \<and> same_frame s s' \<and> st_Joining s' \<le> max (pg_MaxJoining cfg) (st_Joining s) \<and>
     (\<forall>sid. card (joins_of s' sid) \<le> max (nat (pg_MaxJoiningForServer cfg)) (card (joins_of s sid))) \<and>
     (\<forall>p. serving s' p = serving s p \<and> leaving s' p = leaving s p \<and> joining s p \<subseteq> joining s' p \<and>
       (\<forall>sid \<in> joining s' p - joining s p. \<not> known s sid p \<and> mget (st_Serv s) sid \<noteq> None) \<and>
       card (joining s' p) \<le> max (nat (pg_MaxJoiningForPartition cfg)) (card (joining s p)))"

lemma grown_refl: "place_ok s \<Longrightarrow> grown cfg s s"
  by (simp add: grown_def)

lemma grown_trans:
  assumes "grown cfg s s1" "grown cfg s1 s2"
  shows "grown cfg s s2"
proof -
  have f: "same_frame s s1" "same_frame s1 s2" using assms by (simp_all add: grown_def)
  have j: "joining s p \<subseteq> joining s1 p" "joining s1 p \<subseteq> joining s2 p"
    "card (joining s1 p) \<le> max (nat (pg_MaxJoiningForPartition cfg)) (card (joining s p))"
    "card (joining s2 p) \<le> max (nat (pg_MaxJoiningForPartition cfg)) (card (joining s1 p))" for p
    using assms by (simp_all add: grown_def)
  have n: "\<forall>sid \<in> joining s1 p - joining s p. \<not> known s sid p \<and> mget (st_Serv s) sid \<noteq> None"
    "\<forall>sid \<in> joining s2 p - joining s1 p. \<not> known s sid p \<and> mget (st_Serv s) sid \<noteq> None" for p
    using assms unfolding grown_def same_frame_simps [OF f(1)] by simp_all
  have k: "st_Joining s2 \<le> max (pg_MaxJoining cfg) (st_Joining s)"
    using assms unfolding grown_def by linarith
  have "card (joins_of s1 sid) \<le> max (nat (pg_MaxJoiningForServer cfg)) (card (joins_of s sid))"
    "card (joins_of s2 sid) \<le> max (nat (pg_MaxJoiningForServer cfg)) (card (joins_of s1 sid))" for sid
    using assms by (simp_all add: grown_def)
  then have v: "card (joins_of s2 sid) \<le> max (nat (pg_MaxJoiningForServer cfg)) (card (joins_of s sid))" for sid
    by (meson le_max_iff_disj order_trans)
  have "\<forall>sid \<in> joining s2 p - joining s p. \<not> known s sid p \<and> mget (st_Serv s) sid \<noteq> None" for p
    using n [of p] by blast
  moreover have "card (joining s2 p) \<le> max (nat (pg_MaxJoiningForPartition cfg)) (card (joining s p))" for p
    using j(3,4) [of p] by linarith
  moreover have "joining s p \<subseteq> joining s2 p" for p using j(1,2) [of p] by (rule subset_trans)
  ultimately show ?thesis using assms k v same_frame_trans [OF f] by (simp add: grown_def)
qed

lemma AddJoining_grown:
  assumes ok: "place_ok s" and ex: "mget (st_Serv s) sid \<noteq> None" "mget (st_Part s) pid \<noteq> None"
    and can: "canAddReplica cfg s sid pid"
  shows "\<exists>s'. AddJoining sid pid s = Some s' \<and> grown cfg s s'"
proof -
  have no: "\<not> HasReplica sid pid s" and lim: "st_Joining s < pg_MaxJoining cfg"
    "int (length (qs_Joining (part_at s pid))) < pg_MaxJoiningForPartition cfg"
    "int (length (sv_Joining (serv_at s sid))) < pg_MaxJoiningForServer cfg" using can by (simp_all add: canAddReplica_def)
  obtain s' where s': "AddJoining sid pid s = Some s'" "place_ok s'" "same_frame s s'"
    "\<forall>p. qs_Serving (part_at s' p) = qs_Serving (part_at s p) \<and> qs_Leaving (part_at s' p) = qs_Leaving (part_at s p) \<and>
      qs_Joining (part_at s' p) = (if p = pid then sid # qs_Joining (part_at s p) else qs_Joining (part_at s p))"
    using AddJoining_ok [OF ok ex no] by (elim exE conjE)
  have "card (joining s pid) \<le> length (qs_Joining (part_at s pid))" by (rule card_length)
  then have "Suc (card (joining s pid)) \<le> nat (pg_MaxJoiningForPartition cfg)" using lim(2) by linarith
  moreover have "card (insert sid (joining s pid)) \<le> Suc (card (joining s pid))" by (rule card_insert_le_m1) simp_all
  ultimately have "card (insert sid (joining s pid)) \<le> nat (pg_MaxJoiningForPartition cfg)" by linarith
  moreover have "\<not> known s sid pid" using no by (simp add: HasReplica_def Let_def)
  moreover have "card (joins_of s' i) \<le> max (nat (pg_MaxJoiningForServer cfg)) (card (joins_of s i))" for i
  proof (cases "i = sid")
    case True
    have "joins_of s sid = set (sv_Joining (serv_at s sid))" using ok by (auto simp: joins_of_def place_ok_def twins_def)
    then have "card (joins_of s sid) \<le> length (sv_Joining (serv_at s sid))" by (simp add: card_length)
    then have "Suc (card (joins_of s sid)) \<le> nat (pg_MaxJoiningForServer cfg)" using lim(3) by linarith
    moreover have "joins_of s' sid = insert pid (joins_of s sid)" using s'(4) by (auto simp: joins_of_def split: if_splits)
    moreover have "card (insert pid (joins_of s sid)) \<le> Suc (card (joins_of s sid))" by (rule card_insert_le_m1) simp_all
    ultimately show ?thesis using True by simp
  next
    case False
    then have "joins_of s' i = joins_of s i" using s'(4) by (auto simp: joins_of_def split: if_splits)
    then show ?thesis by simp
  qed
  ultimately have "grown cfg s s'" using s' ex(1) AddJoining_count [OF s'(1)] lim(1) by (auto simp: grown_def)
  with s'(1) show ?thesis by blast
qed

lemma add_candidates_ok:
  "place_ok s \<Longrightarrow> mget (st_Part s) pid \<noteq> None \<Longrightarrow> \<forall>sid \<in> set sids. mget (st_Serv s) sid \<noteq> None \<Longrightarrow>
    \<exists>s'. add_candidates cfg pid sids n s = Some s' \<and> grown cfg s s'"
proof (induction sids arbitrary: s n)
  case (Cons sid sids)
  show ?case
  proof (cases "n \<le> 0 \<or> \<not> canAddReplica cfg s sid pid")
    case True
    then show ?thesis using Cons grown_refl by auto
  next
    case False
    then obtain s1 where s1: "AddJoining sid pid s = Some s1" "grown cfg s s1"
      using AddJoining_grown [OF Cons.prems(1) _ Cons.prems(2), of sid cfg] Cons.prems(3) by auto
    then have f: "same_frame s s1" "place_ok s1" by (simp_all add: grown_def)
    have "\<exists>s'. add_candidates cfg pid sids (n - 1) s1 = Some s' \<and> grown cfg s1 s'"
      by (rule Cons.IH) (use f Cons.prems same_frame_simps [OF f(1)] in auto)
    with False s1 grown_trans [OF s1(2)] show ?thesis by auto
  qed
qed (simp add: grown_refl)

text \<open>Whether a replica can be added depends on the sets; what cannot be added stays so when they grow.\<close>

definition wider :: "place \<Rightarrow> place \<Rightarrow> bool" where
  "wider s s' \<longleftrightarrow> place_ok s \<and> place_ok s' \<and> same_frame s s' \<and>
     (\<forall>p. joining s p \<subseteq> joining s' p \<and> serving s p \<union> leaving s p \<subseteq> serving s' p \<union> leaving s' p)"

lemma grown_wider: "place_ok s \<Longrightarrow> grown cfg s s' \<Longrightarrow> wider s s'"
  by (simp add: grown_def wider_def)

lemma canAddReplica_cards:
  assumes "place_ok s"
  shows "canAddReplica cfg s sid pid \<longleftrightarrow> int (card (joins s)) < pg_MaxJoining cfg \<and>
    int (card (joins_of s sid)) < pg_MaxJoiningForServer cfg \<and> int (card (joining s pid)) < pg_MaxJoiningForPartition cfg \<and>
    \<not> known s sid pid \<and> sid \<notin> joining s pid \<and> sid \<notin> serving s pid \<union> leaving s pid"
proof -
  have d: "distinct (sv_Joining (serv_at s sid))" "distinct (qs_Joining (part_at s pid))" "st_Joining s = int (card (joins s))"
    using assms by (simp_all add: place_ok_def keys_ok_def counted_def)
  have "joins_of s sid = set (sv_Joining (serv_at s sid))" using assms by (auto simp: joins_of_def place_ok_def twins_def)
  with d show ?thesis by (simp add: canAddReplica_def HasReplica_def Let_def distinct_card)
qed

lemma canAddReplica_wider:
  assumes "wider s s'" "canAddReplica cfg s' sid pid"
  shows "canAddReplica cfg s sid pid"
proof -
  have ok: "place_ok s" "place_ok s'" and fr: "same_frame s s'"
    and j: "joining s p \<subseteq> joining s' p" and l: "serving s p \<union> leaving s p \<subseteq> serving s' p \<union> leaving s' p" for p
    using assms(1) by (simp_all add: wider_def)
  have "joins s \<subseteq> joins s'" "joins_of s sid \<subseteq> joins_of s' sid" using j by (auto simp: joins_def joins_of_def)
  then have c: "card (joins s) \<le> card (joins s')" "card (joins_of s sid) \<le> card (joins_of s' sid)"
    "card (joining s pid) \<le> card (joining s' pid)" using j by (simp_all add: card_mono)
  have a: "int (card (joins s')) < pg_MaxJoining cfg" "int (card (joins_of s' sid)) < pg_MaxJoiningForServer cfg"
    "int (card (joining s' pid)) < pg_MaxJoiningForPartition cfg" "\<not> known s sid pid" "sid \<notin> joining s' pid"
    "sid \<notin> serving s' pid \<union> leaving s' pid"
    using assms(2) unfolding canAddReplica_cards [OF ok(2)] same_frame_simps(3) [OF fr] by blast+
  have "sid \<notin> joining s pid" "sid \<notin> serving s pid \<union> leaving s pid" using a(5,6) j l by blast+
  with a(1-4) c show ?thesis unfolding canAddReplica_cards [OF ok(1)] by linarith
qed

text \<open>The partition has as many replicas as wanted, or the limits allow no further one.\<close>

definition filled :: "part_config \<Rightarrow> place \<Rightarrow> u32 \<Rightarrow> bool" where
  "filled cfg s pid \<longleftrightarrow> pg_ReplicationFactor cfg \<le> int (card (joining s pid)) + int (card (serving s pid)) \<or>
     (\<forall>sid. mget (st_Serv s) sid \<noteq> None \<longrightarrow> \<not> canAddReplica cfg s sid pid)"

lemma filled_grown:
  assumes "place_ok s" "grown cfg s s'" "filled cfg s pid"
  shows "filled cfg s' pid"
proof -
  note w = grown_wider [OF assms(1,2)]
  have f: "same_frame s s'" and se: "serving s' pid = serving s pid" "joining s pid \<subseteq> joining s' pid"
    using assms(2) by (simp_all add: grown_def)
  then have "card (joining s pid) \<le> card (joining s' pid)" by (simp add: card_mono)
  then show ?thesis using assms(3) canAddReplica_wider [OF w]
    unfolding filled_def same_frame_simps(1) [OF f] se(1) by (meson add_right_mono of_nat_mono order_trans)
qed

lemma add_candidates_full:
  "place_ok s \<Longrightarrow> mget (st_Part s) pid \<noteq> None \<Longrightarrow> \<forall>sid \<in> set sids. mget (st_Serv s) sid \<noteq> None \<Longrightarrow>
    add_candidates cfg pid sids n s = Some s' \<Longrightarrow>
    int (card (joining s pid)) + n \<le> int (card (joining s' pid)) \<or> (\<forall>sid \<in> set sids. \<not> canAddReplica cfg s' sid pid)"
proof (induction sids arbitrary: s n)
  case (Cons sid sids)
  have gr: "grown cfg s s'" using add_candidates_ok [OF Cons.prems(1-3), of cfg n] Cons.prems(4) by auto
  consider "n \<le> 0" | "\<not> canAddReplica cfg s sid pid" "0 < n" | "canAddReplica cfg s sid pid" "0 < n" by linarith
  then show ?case
  proof cases
    case 1
    moreover have "card (joining s pid) \<le> card (joining s' pid)" using gr by (simp add: grown_def card_mono)
    ultimately show ?thesis by linarith
  next
    case 2
    have "\<not> canAddReplica cfg s' sid pid" using canAddReplica_wider [OF grown_wider [OF Cons.prems(1) gr]] 2(1) by blast
    then show ?thesis using Cons.IH [OF Cons.prems(1,2)] Cons.prems(3,4) 2 by simp
  next
    case 3
    then have no: "\<not> HasReplica sid pid s" by (simp add: canAddReplica_def)
    have ex: "mget (st_Serv s) sid \<noteq> None" using Cons.prems(3) by simp
    obtain s1 where s1: "AddJoining sid pid s = Some s1" "place_ok s1" "same_frame s s1"
      "\<forall>p. qs_Serving (part_at s1 p) = qs_Serving (part_at s p) \<and> qs_Leaving (part_at s1 p) = qs_Leaving (part_at s p) \<and>
        qs_Joining (part_at s1 p) = (if p = pid then sid # qs_Joining (part_at s p) else qs_Joining (part_at s p))"
      using AddJoining_ok [OF Cons.prems(1) ex Cons.prems(2) no] by (elim exE conjE)
    then have c: "card (joining s1 pid) = Suc (card (joining s pid))" "sid \<in> joining s1 pid"
      using no by (simp_all add: HasReplica_def Let_def)
    have r: "add_candidates cfg pid sids (n - 1) s1 = Some s'" using Cons.prems(4) 3 s1(1) by simp
    have p: "mget (st_Part s1) pid \<noteq> None" "\<forall>i \<in> set sids. mget (st_Serv s1) i \<noteq> None"
      using Cons.prems(2,3) same_frame_simps(1,2) [OF s1(3)] by simp_all
    have "grown cfg s1 s'" using add_candidates_ok [OF s1(2) p, of cfg "n - 1"] r by auto
    then have "\<not> canAddReplica cfg s' sid pid"
      using c(2) canAddReplica_wider [OF grown_wider [OF s1(2)]] unfolding canAddReplica_cards [OF s1(2)] by blast
    with Cons.IH [OF s1(2) p r] c(1) show ?thesis by auto
  qed
qed simp

lemma addMissing_ok:
  assumes "reorders ord" "place_ok s" "mget (st_Part s) pid \<noteq> None"
  shows "\<exists>s'. addMissing ord cfg pid s = Some s' \<and> grown cfg s s'"
proof -
  have "\<forall>sid \<in> set (sort_sort (less_loaded s) (filter (\<lambda>sid. \<not> HasReplica sid pid s) (or_sids ord (map fst (st_Serv s))))).
      mget (st_Serv s) sid \<noteq> None"
    using reorders_set(1) [OF assms(1)] by (auto simp: map_of_eq_None_iff)
  from add_candidates_ok [OF assms(2,3) this] show ?thesis
    using grown_refl [OF assms(2)] by (simp add: addMissing_def Let_def)
qed

lemma distinct_sort_sort [simp]: "distinct (sort_sort lt xs) \<longleftrightarrow> distinct xs"
  using distinct_map_sort_sort [of id lt xs] by simp

lemma length_sort_sort [simp]: "length (sort_sort lt xs) = length xs"
proof -
  have i: "length (insert_by lt x ys) = Suc (length ys)" for x ys by (induction ys) auto
  show ?thesis unfolding sort_sort_def by (induction xs) (auto simp: i)
qed

lemma sort_sort_Nil: "sort_sort lt xs = [] \<longleftrightarrow> xs = []"
  using length_sort_sort [of lt xs] by (metis length_0_conv)

lemma addMissing_filled:
  assumes ord: "reorders ord" and ok: "place_ok s" and ex: "mget (st_Part s) pid \<noteq> None" and s': "addMissing ord cfg pid s = Some s'"
  shows "filled cfg s' pid"
proof -
  let ?cs = "sort_sort (less_loaded s) (filter (\<lambda>sid. \<not> HasReplica sid pid s) (or_sids ord (map fst (st_Serv s))))"
  let ?n = "min (pg_ReplicationFactor cfg - Part_TotalCount (part_at s pid)) (pg_MaxJoiningForPartition cfg - Part_JoiningCount (part_at s pid))"
  have gr: "grown cfg s s'" using addMissing_ok [OF ord ok ex, of cfg] s' by auto
  then have ok': "place_ok s'" and fr: "same_frame s s'" and se: "serving s' pid = serving s pid" by (simp_all add: grown_def)
  have cs: "sid \<in> set ?cs \<longleftrightarrow> mget (st_Serv s) sid \<noteq> None \<and> \<not> HasReplica sid pid s" for sid
    unfolding mget_keys using reorders_set(1) [OF ord] by auto
  have d: "distinct (qs_Joining (part_at s pid))" "distinct (qs_Serving (part_at s pid))" using ok by (simp_all add: place_ok_def keys_ok_def)
  have n: "?n = min (pg_ReplicationFactor cfg - int (card (joining s pid)) - int (card (serving s pid)))
      (pg_MaxJoiningForPartition cfg - int (card (joining s pid)))"
    using distinct_card [OF d(1)] distinct_card [OF d(2)] by (simp add: Part_TotalCount_def Part_JoiningCount_def)
  have r: "(if ?n \<le> 0 \<or> ?cs = [] then Some s else add_candidates cfg pid ?cs ?n s) = Some s'"
    using s' unfolding addMissing_def Let_def sort_sort_Nil by (simp split: if_splits)
  have "int (card (joining s pid)) + ?n \<le> int (card (joining s' pid)) \<or> (\<forall>sid \<in> set ?cs. \<not> canAddReplica cfg s' sid pid)"
  proof (cases "?n \<le> 0 \<or> ?cs = []")
    case True
    then have e: "s' = s" using r by (simp only: if_True option.inject)
    from True show ?thesis
    proof
      assume "?n \<le> 0"
      then show ?thesis unfolding e by linarith
    next
      assume "?cs = []"
      then have "\<forall>sid \<in> set ?cs. \<not> canAddReplica cfg s' sid pid" by (simp only: list.set ball_empty)
      then show ?thesis by (rule disjI2)
    qed
  next
    case False
    then have "add_candidates cfg pid ?cs ?n s = Some s'" using r by (simp only: if_False)
    then show ?thesis by (rule add_candidates_full [OF ok ex, rotated]) (use cs in blast)
  qed
  moreover have "\<not> canAddReplica cfg s' sid pid" if "mget (st_Serv s) sid \<noteq> None" "sid \<notin> set ?cs" for sid
    using canAddReplica_wider [OF grown_wider [OF ok gr], of cfg sid pid] that cs by (auto simp: canAddReplica_def)
  moreover have "\<not> canAddReplica cfg s' sid pid" if "pg_MaxJoiningForPartition cfg \<le> int (card (joining s' pid))" for sid
    using that unfolding canAddReplica_cards [OF ok'] by linarith
  ultimately show ?thesis unfolding filled_def same_frame_simps(1) [OF fr] se n by (auto simp: min_def split: if_splits)
qed

lemma each_grown:
  assumes "\<And>s pid. place_ok s \<Longrightarrow> mget (st_Part s) pid \<noteq> None \<Longrightarrow> \<exists>s'. f pid s = Some s' \<and> grown cfg s s' \<and> filled cfg s' pid"
  shows "place_ok s \<Longrightarrow> \<forall>pid \<in> set pids. mget (st_Part s) pid \<noteq> None \<Longrightarrow>
    \<exists>s'. each_part f pids s = Some s' \<and> grown cfg s s' \<and> (\<forall>pid \<in> set pids. filled cfg s' pid)"
proof (induction pids arbitrary: s)
  case (Cons pid pids)
  then obtain s1 where s1: "f pid s = Some s1" "grown cfg s s1" "filled cfg s1 pid" using assms [of s pid] by auto
  then have f: "same_frame s s1" "place_ok s1" by (simp_all add: grown_def)
  obtain s' where "each_part f pids s1 = Some s'" "grown cfg s1 s'" "\<forall>pid \<in> set pids. filled cfg s' pid"
    using Cons.IH [of s1] f Cons.prems(2) same_frame_simps(2) [OF f(1)] by auto
  with s1 grown_trans [OF s1(2)] filled_grown [OF f(2)] show ?case by auto
qed (simp add: grown_refl)

subsection \<open>Leaving when there are too many\<close>

text \<open>Serving replicas start to leave, so that \<open>f p c\<close> of the \<open>c\<close> serving replicas of partition \<open>p\<close> remain.\<close>

definition trimmed :: "(u32 \<Rightarrow> nat \<Rightarrow> nat) \<Rightarrow> place \<Rightarrow> place \<Rightarrow> bool" where
  "trimmed f s s' \<longleftrightarrow> place_ok s' \<and> same_frame s s' \<and> st_Joining s' = st_Joining s \<and>
     (\<forall>p. joining s' p = joining s p \<and> serving s' p \<subseteq> serving s p \<and>
       leaving s' p = leaving s p \<union> (serving s p - serving s' p) \<and>
       card (serving s' p) = f p (card (serving s p)))"

lemma trimmed_refl: "place_ok s \<Longrightarrow> (\<And>p. f p (card (serving s p)) = card (serving s p)) \<Longrightarrow> trimmed f s s"
  by (simp add: trimmed_def)

lemma trimmed_cong: "trimmed f s s' \<Longrightarrow> (\<And>p. f p (card (serving s p)) = g p (card (serving s p))) \<Longrightarrow> trimmed g s s'"
  by (simp add: trimmed_def)

lemma trimmed_trans:
  assumes "trimmed f s s1" "trimmed g s1 s2"
  shows "trimmed (\<lambda>p c. g p (f p c)) s s2"
proof -
  have f: "same_frame s s1" "same_frame s1 s2" using assms by (simp_all add: trimmed_def)
  have "joining s2 p = joining s p \<and> serving s2 p \<subseteq> serving s p \<and>
       leaving s2 p = leaving s p \<union> (serving s p - serving s2 p) \<and>
       card (serving s2 p) = g p (f p (card (serving s p)))" for p
  proof -
    have a: "joining s1 p = joining s p" "serving s1 p \<subseteq> serving s p" "leaving s1 p = leaving s p \<union> (serving s p - serving s1 p)"
      "card (serving s1 p) = f p (card (serving s p))"
      using assms(1) by (simp_all add: trimmed_def)
    have b: "joining s2 p = joining s1 p" "serving s2 p \<subseteq> serving s1 p" "leaving s2 p = leaving s1 p \<union> (serving s1 p - serving s2 p)"
      "card (serving s2 p) = g p (card (serving s1 p))"
      using assms(2) by (simp_all add: trimmed_def)
    have "leaving s2 p = leaving s p \<union> (serving s p - serving s2 p)" unfolding a(3) b(3) using a(2) b(2) by blast
    then show ?thesis using a(1,4) b(1,4) subset_trans [OF b(2) a(2)] by simp
  qed
  with assms same_frame_trans [OF f] show ?thesis by (simp add: trimmed_def)
qed

lemma leave_candidates_ok:
  "place_ok s \<Longrightarrow> distinct sids \<Longrightarrow> set sids \<subseteq> serving s pid \<Longrightarrow> n \<le> int (length sids) \<Longrightarrow>
    \<exists>s'. leave_candidates pid sids n s = Some s' \<and> trimmed (\<lambda>p c. if p = pid then c - nat n else c) s s'"
proof (induction sids arbitrary: s n)
  case Nil
  then show ?case by (simp add: trimmed_refl)
next
  case (Cons sid sids)
  show ?case
  proof (cases "n \<le> 0")
    case True
    then show ?thesis by (simp add: trimmed_refl Cons.prems(1))
  next
    case False
    have m: "sid \<in> serving s pid" using Cons.prems(3) by simp
    obtain s1 where s1: "TransitionServingToLeaving sid pid s = Some s1" "place_ok s1" "same_frame s s1" "st_Joining s1 = st_Joining s"
      "\<forall>p. joining s1 p = joining s p \<and> leaving s1 p = leaving s p \<union> (if p = pid then {sid} else {}) \<and>
        serving s1 p = serving s p - (if p = pid then {sid} else {})"
      using ToLeaving_ok [OF Cons.prems(1) m] by (elim exE conjE)
    have t: "trimmed (\<lambda>p c. if p = pid then c - 1 else c) s s1"
      using s1(2-5) m by (auto simp: trimmed_def)
    have "\<exists>s'. leave_candidates pid sids (n - 1) s1 = Some s' \<and> trimmed (\<lambda>p c. if p = pid then c - nat (n - 1) else c) s1 s'"
      by (rule Cons.IH) (use s1(2,5) Cons.prems(2-4) in auto)
    then obtain s' where s': "leave_candidates pid sids (n - 1) s1 = Some s'"
      "trimmed (\<lambda>p c. if p = pid then c - nat (n - 1) else c) s1 s'" by blast
    have "trimmed (\<lambda>p c. if p = pid then c - nat n else c) s s'"
      by (rule trimmed_cong [OF trimmed_trans [OF t s'(2)]]) (use False in auto)
    with False s1(1) s'(1) show ?thesis by auto
  qed
qed

lemma trimmed_filled:
  assumes "place_ok s" "filled cfg s pid" "pid \<in> P"
    and t: "trimmed (\<lambda>p c. if p \<in> P then min (nat (pg_ReplicationFactor cfg)) c else c) s s'"
  shows "filled cfg s' pid"
proof -
  have f: "same_frame s s'" and w: "wider s s'" and j: "joining s' pid = joining s pid"
    and c: "card (serving s' pid) = min (nat (pg_ReplicationFactor cfg)) (card (serving s pid))"
    using t assms(1,3) by (auto simp: trimmed_def wider_def)
  show ?thesis using assms(2) canAddReplica_wider [OF w] c unfolding filled_def same_frame_simps(1) [OF f] j by auto
qed

lemma removeExtra_ok:
  assumes ord: "reorders ord" and ok: "place_ok s" and rf: "0 \<le> pg_ReplicationFactor cfg"
  shows "\<exists>s'. removeExtra ord cfg pid s = Some s' \<and>
    trimmed (\<lambda>p c. if p = pid then min (nat (pg_ReplicationFactor cfg)) c else c) s s'"
proof -
  let ?n = "int (length (qs_Serving (part_at s pid))) - pg_ReplicationFactor cfg"
  let ?c = "sort_sort (more_loaded s pid) (or_sids ord (qs_Serving (part_at s pid)))"
  have d: "distinct (qs_Serving (part_at s pid))" using ok by (simp add: place_ok_def keys_ok_def)
  then have card: "card (serving s pid) = length (qs_Serving (part_at s pid))" by (rule distinct_card)
  have kn: "\<forall>sid \<in> serving s pid. known s sid pid" using ok by (auto simp: place_ok_def apart_def)
  obtain s' where s': "leave_candidates pid ?c ?n s = Some s'" "trimmed (\<lambda>p c. if p = pid then c - nat ?n else c) s s'"
    using leave_candidates_ok [OF ok, of ?c pid ?n] d reorders_set [OF ord] rf by auto
  have "trimmed (\<lambda>p c. if p = pid then min (nat (pg_ReplicationFactor cfg)) c else c) s s'"
    by (rule trimmed_cong [OF s'(2)]) (use rf card in auto)
  moreover have "trimmed (\<lambda>p c. if p = pid then min (nat (pg_ReplicationFactor cfg)) c else c) s s" if "?n \<le> 0"
    by (rule trimmed_refl [OF ok]) (use that card in auto)
  ultimately show ?thesis
    using s'(1) kn reorders_set(1) [OF ord] by (auto simp: removeExtra_def Let_def Part_ServingCount_def list_all_iff)
qed

lemma each_removeExtra_ok:
  assumes ord: "reorders ord" and rf: "0 \<le> pg_ReplicationFactor cfg"
  shows "place_ok s \<Longrightarrow> \<exists>s'. each_part (removeExtra ord cfg) pids s = Some s' \<and>
    trimmed (\<lambda>p c. if p \<in> set pids then min (nat (pg_ReplicationFactor cfg)) c else c) s s'"
proof (induction pids arbitrary: s)
  case (Cons pid pids)
  obtain s1 where s1: "removeExtra ord cfg pid s = Some s1"
    "trimmed (\<lambda>p c. if p = pid then min (nat (pg_ReplicationFactor cfg)) c else c) s s1"
    using removeExtra_ok [OF ord Cons.prems rf, of pid] by blast
  have "place_ok s1" using s1(2) by (simp add: trimmed_def)
  from Cons.IH [OF this] obtain s' where s': "each_part (removeExtra ord cfg) pids s1 = Some s'"
    "trimmed (\<lambda>p c. if p \<in> set pids then min (nat (pg_ReplicationFactor cfg)) c else c) s1 s'" by blast
  have "trimmed (\<lambda>p c. if p \<in> set (pid # pids) then min (nat (pg_ReplicationFactor cfg)) c else c) s s'"
    by (rule trimmed_cong [OF trimmed_trans [OF s1(2) s'(2)]]) auto
  with s1(1) s'(1) show ?case by auto
qed (simp add: trimmed_refl)

subsection \<open>Moving replicas to less loaded servers\<close>

lemma try_dests_Some:
  "try_dests ord cfg s src ds = Some (sid, pid) \<Longrightarrow> reorders ord \<Longrightarrow>
    sid \<in> sv_Id ` set ds \<and> pid \<in> set (sv_Serving src) \<and> canAddReplica cfg s sid pid"
proof (induction ds)
  case (Cons d ds)
  show ?case
  proof (cases "filter (\<lambda>pid. canAddReplica cfg s (sv_Id d) pid) (or_pids ord (sv_Serving src))")
    case Nil
    then show ?thesis using Cons by (auto split: if_splits)
  next
    case c: (Cons q qs)
    let ?sh = "or_shuffle ord (q # qs)"
    have se: "set ?sh = set (q # qs)" by (rule reorders_set(3) [OF Cons.prems(2)])
    then have "?sh \<noteq> []" by auto
    then have "hd ?sh \<in> set (q # qs)" using se hd_in_set by blast
    then have "hd ?sh \<in> set (filter (\<lambda>pid. canAddReplica cfg s (sv_Id d) pid) (or_pids ord (sv_Serving src)))" by (simp only: c)
    then have h: "hd ?sh \<in> set (sv_Serving src)" "canAddReplica cfg s (sv_Id d) (hd ?sh)"
      using reorders_set(2) [OF Cons.prems(2)] by auto
    have "sid = sv_Id d \<and> pid = hd ?sh" using Cons.prems(1) c by (auto split: if_splits)
    with h show ?thesis by simp
  qed
qed simp

lemma try_sources_Some:
  "try_sources ord cfg s ss = Some (sid, pid) \<Longrightarrow> reorders ord \<Longrightarrow>
    sid \<in> sv_Id ` set ss \<and> (\<exists>src \<in> set ss. pid \<in> set (sv_Serving src)) \<and> canAddReplica cfg s sid pid"
  by (induction ss) (auto split: option.splits dest!: try_dests_Some)

lemma find_move_Some:
  assumes "find_move ord cfg s = Some (sid, pid)" "reorders ord" "place_ok s"
  shows "canAddReplica cfg s sid pid" "mget (st_Serv s) sid \<noteq> None" "mget (st_Part s) pid \<noteq> None"
proof -
  have t: "sid \<in> sv_Id ` serv_at s ` set (map fst (st_Serv s))" "\<exists>i. pid \<in> set (sv_Serving (serv_at s i))" "canAddReplica cfg s sid pid"
    using try_sources_Some [OF assms(1)[unfolded find_move_def] assms(2)] reorders_set(1) [OF assms(2)] by auto
  from t(3) show "canAddReplica cfg s sid pid" .
  from t(2) obtain i where "i \<in> serving s pid" using assms(3) by (auto simp: place_ok_def twins_def)
  then show "mget (st_Part s) pid \<noteq> None" using member_exists(2) [of s i pid] assms(3) by (auto simp: place_ok_def)
  from t(1) obtain i where i: "i \<in> set (map fst (st_Serv s))" "sid = sv_Id (serv_at s i)" by blast
  from i(1) have m: "mget (st_Serv s) i \<noteq> None" by (simp only: mget_keys)
  then have "sid = i" using assms(3) i(2) unfolding place_ok_def keys_ok_def by blast
  with m show "mget (st_Serv s) sid \<noteq> None" by simp
qed

lemma rebalance_ok:
  "reorders ord \<Longrightarrow> place_ok s \<Longrightarrow> \<exists>s'. rebalance ord cfg s = Some s' \<and> grown cfg s s' \<and> find_move ord cfg s' = None"
proof (induction ord cfg s rule: rebalance.induct)
  case (1 ord cfg s)
  show ?case
  proof (cases "find_move ord cfg s")
    case None
    then show ?thesis using 1 by (simp add: rebalance.simps [of ord cfg s] grown_refl)
  next
    case (Some mv)
    obtain sid pid where mv: "mv = (sid, pid)" by fastforce
    note mv' = find_move_Some [OF Some [unfolded mv] "1.prems"]
    obtain s1 where s1: "AddJoining sid pid s = Some s1" "grown cfg s s1"
      using AddJoining_grown [OF "1.prems"(2) mv'(2,3,1)] by blast
    have "place_ok s1" using s1(2) by (simp add: grown_def)
    with "1.IH" [OF Some mv [symmetric] s1(1) "1.prems"(1)] obtain s' where
      "rebalance ord cfg s1 = Some s'" "grown cfg s1 s'" "find_move ord cfg s' = None" by blast
    with Some mv s1 grown_trans [OF s1(2)] show ?thesis by (auto simp: rebalance.simps [of ord cfg s])
  qed
qed

section \<open>A round\<close>

lemma CloneMap_id: "gomap_wf m \<Longrightarrow> CloneMap m = m"
proof -
  have up: "AList.update k v xs = xs @ [(k, v)]" if "k \<notin> fst ` set xs" for k v and xs :: "('a \<times> 'b) list"
    using that by (induction xs) auto
  have "gomap_wf (acc @ m) \<Longrightarrow> fold (\<lambda>(k, v). mput k v) m acc = acc @ m" for acc
  proof (induction m arbitrary: acc)
    case (Cons x m)
    then have "fst x \<notin> fst ` set acc" by (auto simp: gomap_wf_def)
    then show ?case using Cons.IH [of "acc @ [x]"] Cons.prems up by (cases x) simp
  qed simp
  then show "gomap_wf m \<Longrightarrow> CloneMap m = m" by (simp add: CloneMap_def)
qed

lemma State_Clone_id: "gomap_wf (st_Replica s) \<Longrightarrow> State_Clone s = s"
proof -
  have "(\<lambda>(i :: u64, x). (i, ServerState_Clone x)) = id" "(\<lambda>(i :: u32, x). (i, PartitionState_Clone x)) = id"
    by (auto simp: ServerState_Clone_def PartitionState_Clone_def)
  then show "gomap_wf (st_Replica s) \<Longrightarrow> State_Clone s = s" by (simp add: State_Clone_def CloneMap_id)
qed

text \<open>The states a round starts from: partitions are numbered from zero, and all replicas are known.\<close>

definition starting :: "place \<Rightarrow> bool" where
  "starting s \<longleftrightarrow> place_ok s \<and> gomap_wf (st_Replica s) \<and> (\<forall>p. \<forall>sid \<in> joining s p. known s sid p) \<and>
     set (map fst (st_Part s)) = set (map of_nat [0..<PartitionCount s])"

text \<open>The replicas that can serve after a round: those that serve, and those that joined and are ready.\<close>

definition able :: "place \<Rightarrow> u32 \<Rightarrow> u64 set" where
  "able s p = serving s p \<union> (joining s p \<inter> ready s p)"

definition round_ok :: "part_config \<Rightarrow> place \<Rightarrow> place \<Rightarrow> bool" where
  "round_ok cfg s s' \<longleftrightarrow> place_ok s' \<and> same_frame s s' \<and> st_Joining s' \<le> max (pg_MaxJoining cfg) (st_Joining s) \<and>
     (\<forall>sid. card (joins_of s' sid) \<le> max (nat (pg_MaxJoiningForServer cfg)) (card (joins_of s sid))) \<and>
     (\<forall>p. serving s' p \<subseteq> able s p \<and>
       leaving s' p \<subseteq> leaving s p \<union> (able s p - serving s' p) \<and>
       able s p - serving s' p \<subseteq> leaving s' p \<and>
       joining s p - ready s p \<subseteq> joining s' p \<and>
       (\<forall>sid \<in> joining s' p - joining s p. \<not> known s sid p \<and> mget (st_Serv s) sid \<noteq> None) \<and>
       joining s' p \<inter> ready s p = {} \<and>
       card (joining s' p) \<le> max (nat (pg_MaxJoiningForPartition cfg)) (card (joining s p)) \<and>
       (mget (st_Part s) p \<noteq> None \<longrightarrow> card (serving s' p) = min (nat (pg_ReplicationFactor cfg)) (card (able s p))) \<and>
       (mget (st_Part s) p \<noteq> None \<longrightarrow> filled cfg s' p))"

lemma transitionToServing_ok:
  assumes "reorders ord" "place_ok s" "\<forall>p. \<forall>sid \<in> joining s p. known s sid p"
  shows "\<exists>s'. transitionToServing ord s = Some s' \<and> served (\<lambda>_. UNIV) s s'"
proof -
  obtain s' where s': "transitionToServing ord s = Some s'" "served (\<lambda>_. set (or_sids ord (map fst (st_Serv s)))) s s'"
    using serving_servers_ok [OF assms] unfolding transitionToServing_def by blast
  have "sid \<in> set (map fst (st_Serv s))" if "sid \<in> joining s p" for sid p
    using member_exists(1) [of s sid p] that assms(2) unfolding place_ok_def by (simp only: mget_keys simp_thms)
  then have "served (\<lambda>_. UNIV) s s'"
    by (intro served_cong [OF s'(2)]) (auto simp: reorders_set(1) [OF assms(1)] simp del: set_map)
  with s'(1) show ?thesis by blast
qed

lemma round_compose:
  assumes a1: "left_only s s1" and a2: "served (\<lambda>_. UNIV) s1 s2" and a3: "grown cfg s2 s3"
    and a4: "trimmed (\<lambda>p c. if p \<in> P then min (nat (pg_ReplicationFactor cfg)) c else c) s3 s4" and a5: "grown cfg s4 s5"
    and pk: "\<And>p. mget (st_Part s) p \<noteq> None \<longleftrightarrow> p \<in> P" and fl: "\<forall>p \<in> P. filled cfg s3 p"
  shows "round_ok cfg s s5"
proof -
  have "place_ok s3" "place_ok s4" using a3 a4 by (simp_all add: grown_def trimmed_def)
  then have f5: "filled cfg s5 p" if "mget (st_Part s) p \<noteq> None" for p
    using filled_grown [OF _ a5 trimmed_filled [OF _ _ _ a4]] fl that pk by blast
  have f: "same_frame s s1" "same_frame s1 s2" "same_frame s2 s3" "same_frame s3 s4" "same_frame s4 s5"
    using assms by (simp_all add: left_only_def served_def grown_def trimmed_def)
  have f2: "same_frame s s2" using same_frame_trans [OF f(1,2)] .
  have f4: "same_frame s s4" using same_frame_trans [OF same_frame_trans [OF f2 f(3)] f(4)] .
  have j: "st_Joining s5 \<le> max (pg_MaxJoining cfg) (st_Joining s)"
    using assms unfolding left_only_def served_def grown_def trimmed_def by linarith
  have v: "card (joins_of s5 sid) \<le> max (nat (pg_MaxJoiningForServer cfg)) (card (joins_of s sid))" for sid
  proof -
    have "joins_of s2 sid \<subseteq> joins_of s sid" using a1 a2 by (auto simp: joins_of_def left_only_def served_def)
    then have "card (joins_of s2 sid) \<le> card (joins_of s sid)" by (intro card_mono) simp_all
    moreover have "card (joins_of s3 sid) \<le> max (nat (pg_MaxJoiningForServer cfg)) (card (joins_of s2 sid))"
      "card (joins_of s5 sid) \<le> max (nat (pg_MaxJoiningForServer cfg)) (card (joins_of s4 sid))"
      using a3 a5 by (simp_all add: grown_def)
    moreover have "joins_of s4 sid = joins_of s3 sid" using a4 by (simp add: joins_of_def trimmed_def)
    ultimately show ?thesis by simp
  qed
  have "place_ok s5" using a5 by (simp add: grown_def)
  moreover have "serving s5 p \<subseteq> able s p \<and> leaving s5 p \<subseteq> leaving s p \<union> (able s p - serving s5 p) \<and>
       able s p - serving s5 p \<subseteq> leaving s5 p \<and> joining s p - ready s p \<subseteq> joining s5 p \<and>
       (\<forall>sid \<in> joining s5 p - joining s p. \<not> known s sid p \<and> mget (st_Serv s) sid \<noteq> None) \<and>
       joining s5 p \<inter> ready s p = {} \<and>
       card (joining s5 p) \<le> max (nat (pg_MaxJoiningForPartition cfg)) (card (joining s p)) \<and>
       (mget (st_Part s) p \<noteq> None \<longrightarrow> card (serving s5 p) = min (nat (pg_ReplicationFactor cfg)) (card (able s p))) \<and>
       (mget (st_Part s) p \<noteq> None \<longrightarrow> filled cfg s5 p)" for p
  proof -
    have e1: "serving s1 p = serving s p" "joining s1 p = joining s p" "leaving s1 p \<subseteq> leaving s p" "ready s1 p = ready s p"
      using a1 same_frame_simps(4) [OF f(1)] by (simp_all add: left_only_def)
    have e2: "serving s2 p = able s p" "joining s2 p = joining s p - ready s p" "leaving s2 p = leaving s1 p"
      using a2 by (simp_all add: served_def able_def e1)
    have e3: "serving s3 p = serving s2 p" "joining s2 p \<subseteq> joining s3 p" "leaving s3 p = leaving s2 p"
      using a3 by (simp_all add: grown_def)
    have e4: "serving s4 p \<subseteq> serving s3 p" "joining s4 p = joining s3 p" "leaving s4 p = leaving s3 p \<union> (serving s3 p - serving s4 p)"
      "card (serving s4 p) = (if p \<in> P then min (nat (pg_ReplicationFactor cfg)) (card (serving s3 p)) else card (serving s3 p))"
      using a4 by (simp_all add: trimmed_def)
    have e5: "serving s5 p = serving s4 p" "joining s4 p \<subseteq> joining s5 p" "leaving s5 p = leaving s4 p"
      using a5 by (simp_all add: grown_def)
    note s = e2(1) e3(1) e4(1) e5(1) e4(4) and jn = e2(2) e3(2) e4(2) e5(2)
    have l: "leaving s3 p \<subseteq> leaving s p" "leaving s5 p = leaving s3 p \<union> (able s p - serving s5 p)"
      using e1(3) by (simp_all only: e2 e3 e4(3) e5)
    have nw: "\<forall>sid \<in> joining s3 p - joining s2 p. \<not> known s sid p \<and> mget (st_Serv s) sid \<noteq> None"
      "\<forall>sid \<in> joining s5 p - joining s4 p. \<not> known s sid p \<and> mget (st_Serv s) sid \<noteq> None"
      using a3 a5 unfolding grown_def same_frame_simps [OF f2] same_frame_simps [OF f4] by simp_all
    have new: "\<forall>sid \<in> joining s5 p - joining s2 p. \<not> known s sid p \<and> mget (st_Serv s) sid \<noteq> None"
      using nw jn(3) by blast
    have rd: "known s sid p" if "sid \<in> ready s p" for sid using that by (auto simp: ready_def)
    have c: "card (joining s2 p) \<le> card (joining s p)" unfolding jn(1) by (rule card_mono) auto
    have "card (joining s3 p) \<le> max (nat (pg_MaxJoiningForPartition cfg)) (card (joining s2 p))"
      "card (joining s5 p) \<le> max (nat (pg_MaxJoiningForPartition cfg)) (card (joining s4 p))"
      using a3 a5 by (simp_all add: grown_def)
    then have "card (joining s5 p) \<le> max (nat (pg_MaxJoiningForPartition cfg)) (card (joining s p))" using c jn(3) by simp
    moreover have "joining s5 p \<inter> ready s p = {}" using new rd jn(1) by blast
    moreover have "\<forall>sid \<in> joining s5 p - joining s p. \<not> known s sid p \<and> mget (st_Serv s) sid \<noteq> None" using new jn(1) by blast
    moreover have "joining s p - ready s p \<subseteq> joining s5 p" using jn by blast
    moreover have "leaving s5 p \<subseteq> leaving s p \<union> (able s p - serving s5 p)" "able s p - serving s5 p \<subseteq> leaving s5 p" using l by blast+
    ultimately show ?thesis using s pk [of p] f5 [of p] by simp
  qed
  ultimately show ?thesis unfolding round_ok_def using j v same_frame_trans [OF f4 f(5)] by blast
qed

lemma Next_place_ok:
  assumes ord: "reorders ord" and st: "starting s" and rf: "0 \<le> pg_ReplicationFactor cfg"
  shows "\<exists>s'. Next_place ord cfg s = Some s' \<and> round_ok cfg s s' \<and> (MaxImbalance s' \<le> 1 \<or> find_move ord cfg s' = None)"
proof -
  let ?pids = "map of_nat [0..<PartitionCount s] :: u32 list"
  have ok: "place_ok s" and cl: "State_Clone s = s" and kn: "\<forall>p. \<forall>sid \<in> joining s p. known s sid p"
    using st State_Clone_id unfolding starting_def by blast+
  have pk: "mget (st_Part s) p \<noteq> None \<longleftrightarrow> p \<in> set ?pids" for p
    using st unfolding starting_def mget_keys by blast
  obtain s1 where s1: "removeLeaving ord s = Some s1" "left_only s s1"
    using leaving_servers_ok [OF ord ok] unfolding removeLeaving_def by blast
  then have k1: "place_ok s1" "same_frame s s1" "\<forall>p. \<forall>sid \<in> joining s1 p. known s1 sid p"
    using kn same_frame_simps(3) [of s s1] by (auto simp: left_only_def)
  obtain s2 where s2: "transitionToServing ord s1 = Some s2" "served (\<lambda>_. UNIV) s1 s2"
    using transitionToServing_ok [OF ord k1(1,3)] by blast
  then have k2: "place_ok s2" "same_frame s s2" using same_frame_trans [OF k1(2)] by (auto simp: served_def)
  have "\<forall>pid \<in> set ?pids. mget (st_Part s2) pid \<noteq> None" unfolding same_frame_simps(2) [OF k2(2)] using pk by blast
  from each_grown [where f = "addMissing ord cfg", OF _ k2(1) this] addMissing_ok [OF ord] addMissing_filled [OF ord]
  obtain s3 where s3: "each_part (addMissing ord cfg) ?pids s2 = Some s3" "grown cfg s2 s3" "\<forall>p \<in> set ?pids. filled cfg s3 p" by blast
  then have k3: "place_ok s3" "same_frame s s3" using same_frame_trans [OF k2(2)] by (auto simp: grown_def)
  obtain s4 where s4: "each_part (removeExtra ord cfg) ?pids s3 = Some s4"
    "trimmed (\<lambda>p c. if p \<in> set ?pids then min (nat (pg_ReplicationFactor cfg)) c else c) s3 s4"
    using each_removeExtra_ok [OF ord rf k3(1)] by blast
  then have k4: "place_ok s4" "same_frame s s4" using same_frame_trans [OF k3(2)] by (auto simp: trimmed_def)
  obtain s5 where s5: "(if MaxImbalance s4 > 1 then rebalance ord cfg s4 else Some s4) = Some s5" "grown cfg s4 s5"
    "MaxImbalance s5 \<le> 1 \<or> find_move ord cfg s5 = None"
    using rebalance_ok [OF ord k4(1), of cfg] grown_refl [OF k4(1), of cfg] by (cases "MaxImbalance s4 > 1") auto
  have "round_ok cfg s s5" by (rule round_compose [OF s1(2) s2(2) s3(2) s4(2) s5(2) pk s3(3)])
  with s1 s2 s3 s4 s5 cl show ?thesis by (auto simp: Next_place_def Let_def)
qed

end
