(* ===== verification/Control_Assigner.thy ===== *)
theory Control_Assigner
  imports Control_Placement_Inv Control_Fsm_Inv
begin

text \<open>
  The assigner beside the state machine: the placement it reads from a cluster state is faithful, its
  round fills the partitions as far as it can, and the state machine takes the command of a round
  unless it would take the only serving replica of a partition away.
\<close>

section \<open>Reading the cluster state\<close>

type_synonym entry = "u32 \<times> string \<times> part_replica"

definition entries :: "parts \<Rightarrow> entry set" where
  "entries ps = {(pid, n, r). \<exists>p. mget (ps_Items ps) pid = Some p \<and> mget (pa_Replicas p) n = Some r}"

definition held :: "(replica_state \<Rightarrow> bool) \<Rightarrow> entry set \<Rightarrow> u32 \<Rightarrow> u64 set" where
  "held Q R pid = {sid. \<exists>n r. (pid, n, r) \<in> R \<and> rp_ServerId r = sid \<and> Q (rp_State r)}"

abbreviation rep_of :: "u32 \<Rightarrow> string \<Rightarrow> part_replica \<Rightarrow> rep_state" where
  "rep_of pid n r \<equiv> \<lparr>rk_Pid = pid, rk_Name = n, rk_CreatedTime = rp_CreatedTime r, rk_Ready = rp_Ready r\<rparr>"

text \<open>The placement holds the entries of \<open>R\<close>, on both sides and in the map of replicas.\<close>

definition mirrors :: "entry set \<Rightarrow> place \<Rightarrow> bool" where
  "mirrors R s \<longleftrightarrow> keys_ok s \<and> gomap_wf (st_Replica s) \<and> twins s \<and> counted s \<and>
     (\<forall>pid. serving s pid = held IsServing R pid \<and> joining s pid = held ((=) RS_Joining) R pid \<and>
       leaving s pid = held ((=) RS_Leaving) R pid) \<and>
     (\<forall>sid pid x. GetReplica sid pid s = Some x \<longrightarrow> (\<exists>n r. (pid, n, r) \<in> R \<and> rp_ServerId r = sid \<and> x = rep_of pid n r)) \<and>
     (\<forall>pid. \<forall>sid \<in> held (\<lambda>_. True) R pid. known s sid pid)"

lemma held_insert:
  "held Q (insert (pid, n, r) R) p = (if p = pid \<and> Q (rp_State r) then insert (rp_ServerId r) (held Q R p) else held Q R p)"
  by (auto simp: held_def)

lemma AddReplica_simps [simp]:
  "serv_at (AddReplica sid pid x s) i = serv_at s i"
  "part_at (AddReplica sid pid x s) p = part_at s p"
  "GetReplica i p (AddReplica sid pid x s) = (if i = sid \<and> p = pid then Some x else GetReplica i p s)"
  "st_Serv (AddReplica sid pid x s) = st_Serv s" "st_Part (AddReplica sid pid x s) = st_Part s"
  "st_Replica (AddReplica sid pid x s) = mput (sid, pid) x (st_Replica s)"
  "st_Joining (AddReplica sid pid x s) = st_Joining s"
  by (simp_all add: AddReplica_def serv_at_def part_at_def GetReplica_def)

lemma edit_Replica [simp]: "st_Replica (edit sid f pid g k s) = st_Replica s"
  by (simp add: edit_def)

text \<open>An edit that puts the server into the set of the state of the replica adds the entry.\<close>

lemma mirrors_edit:
  fixes n :: string and k :: int
  assumes m: "mirrors R s" and ex: "mget (st_Serv s) (rp_ServerId r) \<noteq> None" "mget (st_Part s) pid \<noteq> None"
    and f: "\<And>x. sv_Id (f x) = sv_Id x"
      "\<And>x. sv_Serving (f x) = (if IsServing (rp_State r) then List.insert pid (sv_Serving x) else sv_Serving x)"
      "\<And>x. sv_Joining (f x) = (if rp_State r = RS_Joining then List.insert pid (sv_Joining x) else sv_Joining x)"
      "\<And>x. sv_Leaving (f x) = (if rp_State r = RS_Leaving then List.insert pid (sv_Leaving x) else sv_Leaving x)"
    and g: "\<And>x. qs_Serving (g x) = (if IsServing (rp_State r) then List.insert (rp_ServerId r) (qs_Serving x) else qs_Serving x)"
      "\<And>x. qs_Joining (g x) = (if rp_State r = RS_Joining then List.insert (rp_ServerId r) (qs_Joining x) else qs_Joining x)"
      "\<And>x. qs_Leaving (g x) = (if rp_State r = RS_Leaving then List.insert (rp_ServerId r) (qs_Leaving x) else qs_Leaving x)"
    and new: "rp_ServerId r \<notin> joining s pid" and cnt: "k = (if rp_State r = RS_Joining then 1 else 0)"
  defines "s' \<equiv> AddReplica (rp_ServerId r) pid (rep_of pid n r) (edit (rp_ServerId r) f pid g k s)"
  shows "mirrors (insert (pid, n, r) R) s'"
proof -
  have cs: "counted s" using m by (simp add: mirrors_def)
  have c: "counted s'"
  proof (cases "rp_State r = RS_Joining")
    case True
    show ?thesis by (rule counted_insert [OF cs new]) (simp_all add: s'_def cnt g(2) True)
  next
    case False
    show ?thesis by (rule counted_same [OF cs]) (simp_all add: s'_def cnt g(2) False)
  qed
  let ?e = "edit (rp_ServerId r) f pid g k s"
  have "keys_ok ?e" by (rule edit_keys [OF _ ex]) (use m in \<open>auto simp: mirrors_def f g\<close>)
  then have k: "keys_ok s'" by (simp add: s'_def keys_ok_def)
  have t: "twins s'" using m by (auto simp: s'_def mirrors_def twins_def f g)
  have w: "gomap_wf (st_Replica s')" using m by (simp add: s'_def mirrors_def)
  have h: "serving s' p = held IsServing (insert (pid, n, r) R) p" "joining s' p = held ((=) RS_Joining) (insert (pid, n, r) R) p"
    "leaving s' p = held ((=) RS_Leaving) (insert (pid, n, r) R) p" for p
    using m by (auto simp: s'_def mirrors_def held_insert g)
  have "GetReplica sid p s' = Some x \<longrightarrow> (\<exists>n' r'. (p, n', r') \<in> insert (pid, n, r) R \<and> rp_ServerId r' = sid \<and> x = rep_of p n' r')" for sid p x
    using m unfolding mirrors_def by (simp add: s'_def) blast
  moreover have "\<forall>sid \<in> held (\<lambda>_. True) (insert (pid, n, r) R) p. known s' sid p" for p
    using m by (auto simp: s'_def mirrors_def held_insert)
  ultimately show ?thesis using k t w h c by (simp add: mirrors_def)
qed

definition same_keys :: "place \<Rightarrow> place \<Rightarrow> bool" where
  "same_keys s s' \<longleftrightarrow> map fst (st_Serv s') = map fst (st_Serv s) \<and> map fst (st_Part s') = map fst (st_Part s)"

lemma same_keys_edit:
  "mget (st_Serv s) sid \<noteq> None \<Longrightarrow> mget (st_Part s) pid \<noteq> None \<Longrightarrow> same_keys s (AddReplica sid' pid' x (edit sid f pid g k s))"
  using edit_frame [of s sid pid f g k] by (simp add: same_keys_def same_frame_def)

lemma make_replica_ok:
  assumes m: "mirrors R s" and ex: "mget (st_Serv s) (rp_ServerId r) \<noteq> None" "mget (st_Part s) pid \<noteq> None"
    and st: "rp_State r \<noteq> RS_Stopped" and new: "rp_ServerId r \<notin> joining s pid"
  shows "\<exists>s1. (if IsServing (rp_State r) then AddServing (rp_ServerId r) pid s
            else if rp_State r = RS_Joining then AddJoining (rp_ServerId r) pid s
            else if rp_State r = RS_Leaving then AddLeaving (rp_ServerId r) pid s else None) = Some s1 \<and>
      mirrors (insert (pid, n, r) R) (AddReplica (rp_ServerId r) pid (rep_of pid n r) s1) \<and>
      same_keys s (AddReplica (rp_ServerId r) pid (rep_of pid n r) s1)"
proof -
  note e = AddServing_edit [OF ex] AddJoining_edit [OF ex] AddLeaving_edit [OF ex] and k = same_keys_edit [OF ex]
  consider "IsServing (rp_State r)" | "rp_State r = RS_Joining" | "rp_State r = RS_Leaving"
    using st by (cases "rp_State r") (auto simp: IsServing_def)
  then show ?thesis
  proof cases
    case 1
    then have "rp_State r \<noteq> RS_Joining" "rp_State r \<noteq> RS_Leaving" by (auto simp: IsServing_def)
    with 1 show ?thesis unfolding e by (auto intro!: mirrors_edit [OF m ex _ _ _ _ _ _ _ new] k)
  next
    case 2
    then show ?thesis unfolding e by (auto simp: IsServing_def intro!: mirrors_edit [OF m ex _ _ _ _ _ _ _ new] k)
  next
    case 3
    then show ?thesis unfolding e by (auto simp: IsServing_def intro!: mirrors_edit [OF m ex _ _ _ _ _ _ _ new] k)
  qed
qed

lemma same_keys_mget: "same_keys s s' \<Longrightarrow> mget (st_Serv s') i \<noteq> None \<longleftrightarrow> mget (st_Serv s) i \<noteq> None"
  "same_keys s s' \<Longrightarrow> mget (st_Part s') p \<noteq> None \<longleftrightarrow> mget (st_Part s) p \<noteq> None"
  unfolding mget_keys same_keys_def by simp_all

lemma same_keys_trans: "same_keys s s1 \<Longrightarrow> same_keys s1 s2 \<Longrightarrow> same_keys s s2"
  by (simp add: same_keys_def)

lemma make_replicas_ok:
  "mirrors R s \<Longrightarrow> mget (st_Part s) pid \<noteq> None \<Longrightarrow>
    \<forall>(n, r) \<in> set m. mget (st_Serv s) (rp_ServerId r) \<noteq> None \<and> rp_State r \<noteq> RS_Stopped \<Longrightarrow>
    distinct (map (\<lambda>(_, r). rp_ServerId r) m) \<Longrightarrow> \<forall>(n, r) \<in> set m. rp_ServerId r \<notin> joining s pid \<Longrightarrow>
    \<exists>s'. make_replicas pid m s = Some s' \<and> mirrors (R \<union> {(pid, n, r) |n r. (n, r) \<in> set m}) s' \<and> same_keys s s'"
proof (induction m arbitrary: R s)
  case Nil
  then show ?case by (simp add: same_keys_def)
next
  case (Cons e m)
  obtain n r where e: "e = (n, r)" by fastforce
  have ex: "mget (st_Serv s) (rp_ServerId r) \<noteq> None" "rp_State r \<noteq> RS_Stopped" "rp_ServerId r \<notin> joining s pid"
    using Cons.prems(3,5) e by auto
  let ?add = "AddReplica (rp_ServerId r) pid (rep_of pid n r)"
  obtain s1 where s1: "(if IsServing (rp_State r) then AddServing (rp_ServerId r) pid s
            else if rp_State r = RS_Joining then AddJoining (rp_ServerId r) pid s
            else if rp_State r = RS_Leaving then AddLeaving (rp_ServerId r) pid s else None) = Some s1"
    "mirrors (insert (pid, n, r) R) (?add s1)" "same_keys s (?add s1)"
    using make_replica_ok [OF Cons.prems(1) ex(1) Cons.prems(2) ex(2,3), of n] by blast
  note sk = same_keys_mget [OF s1(3)]
  have "joining (?add s1) pid \<subseteq> insert (rp_ServerId r) (joining s pid)"
    using s1(2) Cons.prems(1) by (auto simp: mirrors_def held_insert split: if_splits)
  then have new: "\<forall>(n, r) \<in> set m. rp_ServerId r \<notin> joining (?add s1) pid"
    using Cons.prems(4,5) e by force
  have di: "distinct (map (\<lambda>(_, r). rp_ServerId r) m)" using Cons.prems(4) by simp
  have "\<exists>s'. make_replicas pid m (?add s1) = Some s' \<and>
      mirrors (insert (pid, n, r) R \<union> {(pid, n, r) |n r. (n, r) \<in> set m}) s' \<and> same_keys (?add s1) s'"
    by (rule Cons.IH [OF s1(2) _ _ di new]; unfold sk) (use Cons.prems(2,3) in simp_all)
  then obtain s' where s': "make_replicas pid m (?add s1) = Some s'"
      "mirrors (insert (pid, n, r) R \<union> {(pid, n, r) |n r. (n, r) \<in> set m}) s'" "same_keys (?add s1) s'" by blast
  have "insert (pid, n, r) R \<union> {(pid, n, r) |n r. (n, r) \<in> set m} = R \<union> {(pid, n, r) |n r. (n, r) \<in> set (e # m)}"
    using e by auto
  with s1(1) s' same_keys_trans [OF s1(3) s'(3)] show ?case by (auto simp: e)
qed

lemma AddPartition_ok:
  assumes "mirrors R s" "mget (st_Part s) pid = None"
  shows "mirrors R (AddPartition pid s)" and "map fst (st_Part (AddPartition pid s)) = map fst (st_Part s) @ [pid]"
    and "st_Serv (AddPartition pid s) = st_Serv s"
proof -
  let ?s = "AddPartition pid s"
  have at: "serv_at ?s i = serv_at s i" "qs_Serving (part_at ?s p) = qs_Serving (part_at s p)"
    "qs_Joining (part_at ?s p) = qs_Joining (part_at s p)" "qs_Leaving (part_at ?s p) = qs_Leaving (part_at s p)"
    "GetReplica i p ?s = GetReplica i p s" for i p
    using assms(2) by (simp_all add: AddPartition_def serv_at_def part_at_def GetReplica_def)
  have "st_Replica ?s = st_Replica s" "gomap_wf (st_Part ?s) = gomap_wf (st_Part s)" "st_Serv ?s = st_Serv s"
    "st_Joining ?s = st_Joining s"
    using assms by (simp_all add: AddPartition_def mirrors_def keys_ok_def)
  then show "mirrors R ?s" and "st_Serv ?s = st_Serv s"
    using assms(1) by (simp_all add: mirrors_def keys_ok_def twins_def counted_def joins_def at)
  show "map fst (st_Part ?s) = map fst (st_Part s) @ [pid]"
    using assms(2) by (simp add: AddPartition_def update_keys map_of_eq_None_iff)
qed

lemma AddServer_ok:
  assumes "mirrors R s"
  shows "mirrors R (AddServer sid s)" and "set (map fst (st_Serv (AddServer sid s))) = insert sid (set (map fst (st_Serv s)))"
    and "st_Part (AddServer sid s) = st_Part s"
proof -
  let ?s = "AddServer sid s"
  have at: "part_at ?s p = part_at s p" "sv_Serving (serv_at ?s i) = sv_Serving (serv_at s i)"
    "sv_Joining (serv_at ?s i) = sv_Joining (serv_at s i)" "sv_Leaving (serv_at ?s i) = sv_Leaving (serv_at s i)"
    "GetReplica i p ?s = GetReplica i p s" for i p
    by (auto simp: AddServer_def serv_at_def part_at_def GetReplica_def)
  have id: "mget (st_Serv ?s) i \<noteq> None \<longrightarrow> sv_Id (serv_at ?s i) = i" for i
    using assms by (auto simp: AddServer_def serv_at_def mirrors_def keys_ok_def)
  have "st_Replica ?s = st_Replica s" "gomap_wf (st_Serv ?s) = gomap_wf (st_Serv s)" "st_Part ?s = st_Part s"
    "st_Joining ?s = st_Joining s"
    using assms by (simp_all add: AddServer_def mirrors_def keys_ok_def)
  then show "mirrors R ?s" and "st_Part ?s = st_Part s"
    using assms id by (simp_all add: mirrors_def keys_ok_def twins_def counted_def joins_def at)
  show "set (map fst (st_Serv ?s)) = insert sid (set (map fst (st_Serv s)))"
    by (auto simp: AddServer_def update_keys map_of_eq_None_iff simp flip: set_map)
qed

lemma NewState_mirrors: "mirrors {} NewState"
  by (simp add: NewState_def mirrors_def keys_ok_def twins_def counted_def joins_def serv_at_def part_at_def GetReplica_def held_def gomap_wf_def)

lemma add_servers_ok:
  "mirrors R s \<Longrightarrow> mirrors R (fold (\<lambda>(sid, _). AddServer sid) xs s) \<and>
    set (map fst (st_Serv (fold (\<lambda>(sid, _). AddServer sid) xs s))) = fst ` set xs \<union> set (map fst (st_Serv s)) \<and>
    st_Part (fold (\<lambda>(sid, _). AddServer sid) xs s) = st_Part s"
proof (induction xs arbitrary: s)
  case (Cons x xs)
  from Cons.IH [OF AddServer_ok(1) [OF Cons.prems, of "fst x"]] AddServer_ok(2,3) [OF Cons.prems, of "fst x"]
  show ?case by (cases x) auto
qed simp

lemma make_parts_ok:
  "mirrors R s \<Longrightarrow> distinct (map fst (st_Part s) @ map fst m) \<Longrightarrow>
    \<forall>(pid, p) \<in> set m. \<forall>(n, r) \<in> set (pa_Replicas p). mget (st_Serv s) (rp_ServerId r) \<noteq> None \<and> rp_State r \<noteq> RS_Stopped \<Longrightarrow>
    \<forall>(pid, p) \<in> set m. distinct (map (\<lambda>(_, r). rp_ServerId r) (pa_Replicas p)) \<Longrightarrow>
    \<exists>s'. make_parts m s = Some s' \<and> map fst (st_Serv s') = map fst (st_Serv s) \<and> map fst (st_Part s') = map fst (st_Part s) @ map fst m \<and>
      mirrors (R \<union> {(pid, n, r). \<exists>p. (pid, p) \<in> set m \<and> (n, r) \<in> set (pa_Replicas p)}) s'"
proof (induction m arbitrary: R s)
  case (Cons e m)
  obtain pid p where e: "e = (pid, p)" by fastforce
  have new: "mget (st_Part s) pid = None" using Cons.prems(2) e by (auto simp: map_of_eq_None_iff)
  note ap = AddPartition_ok [OF Cons.prems(1) new]
  have "mget (st_Part (AddPartition pid s)) pid \<noteq> None" unfolding mget_keys ap(2) by simp
  moreover have "\<forall>(n, r) \<in> set (pa_Replicas p). mget (st_Serv (AddPartition pid s)) (rp_ServerId r) \<noteq> None \<and> rp_State r \<noteq> RS_Stopped"
    using Cons.prems(3) e unfolding ap(3) by simp
  moreover have "distinct (map (\<lambda>(_, r). rp_ServerId r) (pa_Replicas p))" using Cons.prems(4) e by simp
  moreover have "joining (AddPartition pid s) pid = {}" using new by (simp add: AddPartition_def part_at_def)
  then have "\<forall>(n, r) \<in> set (pa_Replicas p). rp_ServerId r \<notin> joining (AddPartition pid s) pid" by simp
  ultimately obtain s1 where s1: "make_replicas pid (pa_Replicas p) (AddPartition pid s) = Some s1"
    "mirrors (R \<union> {(pid, n, r) |n r. (n, r) \<in> set (pa_Replicas p)}) s1" "same_keys (AddPartition pid s) s1"
    using make_replicas_ok [OF ap(1)] by blast
  have k: "map fst (st_Part s1) = map fst (st_Part s) @ [pid]" "map fst (st_Serv s1) = map fst (st_Serv s)"
    using s1(3) ap(2,3) by (simp_all add: same_keys_def)
  have "mget (st_Serv s1) i \<noteq> None \<longleftrightarrow> mget (st_Serv s) i \<noteq> None" for i unfolding mget_keys k(2) by simp
  then have "\<forall>(pid, p) \<in> set m. \<forall>(n, r) \<in> set (pa_Replicas p). mget (st_Serv s1) (rp_ServerId r) \<noteq> None \<and> rp_State r \<noteq> RS_Stopped"
    using Cons.prems(3) by auto
  moreover have "distinct (map fst (st_Part s1) @ map fst m)" using Cons.prems(2) e k(1) by auto
  moreover have "\<forall>(pid, p) \<in> set m. distinct (map (\<lambda>(_, r). rp_ServerId r) (pa_Replicas p))" using Cons.prems(4) by simp
  ultimately obtain s' where s': "make_parts m s1 = Some s'" "map fst (st_Serv s') = map fst (st_Serv s1)"
    "map fst (st_Part s') = map fst (st_Part s1) @ map fst m"
    "mirrors (R \<union> {(pid, n, r) |n r. (n, r) \<in> set (pa_Replicas p)} \<union> {(pid, n, r). \<exists>p. (pid, p) \<in> set m \<and> (n, r) \<in> set (pa_Replicas p)}) s'"
    using Cons.IH [OF s1(2)] by blast
  have "R \<union> {(pid, n, r) |n r. (n, r) \<in> set (pa_Replicas p)} \<union> {(pid, n, r). \<exists>p. (pid, p) \<in> set m \<and> (n, r) \<in> set (pa_Replicas p)} =
      R \<union> {(pid, n, r). \<exists>p. (pid, p) \<in> set (e # m) \<and> (n, r) \<in> set (pa_Replicas p)}"
    using e by auto
  with s'(4) have "mirrors (R \<union> {(pid, n, r). \<exists>p. (pid, p) \<in> set (e # m) \<and> (n, r) \<in> set (pa_Replicas p)}) s'" by (simp only:)
  moreover have "make_parts (e # m) s = Some s'" using s1(1) s'(1) e by simp
  moreover have "map fst (st_Serv s') = map fst (st_Serv s)" "map fst (st_Part s') = map fst (st_Part s) @ map fst (e # m)"
    using s'(2,3) k e by simp_all
  ultimately show ?case by blast
qed (simp add: case_prod_unfold)

text \<open>No two replicas of a partition are on one server.\<close>

definition one_per_server :: "parts \<Rightarrow> bool" where
  "one_per_server ps \<longleftrightarrow> list_all (\<lambda>(_, p). distinct (map (\<lambda>(_, r). rp_ServerId r) (pa_Replicas p))) (ps_Items ps)"

lemma entries_unique:
  assumes "one_per_server ps" "(pid, n, r) \<in> entries ps" "(pid, n', r') \<in> entries ps" "rp_ServerId r = rp_ServerId r'"
  shows "n = n' \<and> r = r'"
proof -
  obtain p where p: "mget (ps_Items ps) pid = Some p" "mget (pa_Replicas p) n = Some r" "mget (pa_Replicas p) n' = Some r'"
    using assms(2,3) by (auto simp: entries_def)
  have "(pid, p) \<in> set (ps_Items ps)" "(n, r) \<in> set (pa_Replicas p)" "(n', r') \<in> set (pa_Replicas p)"
    using p by (auto dest: map_of_SomeD)
  moreover from this(1) assms(1) have "inj_on (\<lambda>(_, r). rp_ServerId r) (set (pa_Replicas p))"
    by (auto simp: one_per_server_def list_all_iff distinct_map)
  ultimately show ?thesis using assms(4) inj_onD [of "\<lambda>(_, r). rp_ServerId r" _ "(n, r)" "(n', r')"] by simp
qed

lemma held_disjoint:
  assumes "one_per_server ps" "\<And>st. \<not> (P st \<and> Q st)"
  shows "held P (entries ps) pid \<inter> held Q (entries ps) pid = {}"
proof -
  have False if h: "sid \<in> held P (entries ps) pid" "sid \<in> held Q (entries ps) pid" for sid
  proof -
    obtain n r n' r' where e: "(pid, n, r) \<in> entries ps" "rp_ServerId r = sid" "P (rp_State r)"
      "(pid, n', r') \<in> entries ps" "rp_ServerId r' = sid" "Q (rp_State r')" using h by (auto simp: held_def)
    then have "r = r'" using entries_unique [OF assms(1) e(1,4)] by simp
    with e assms(2) show False by blast
  qed
  then show ?thesis by blast
qed

lemma mirrors_apart:
  assumes m: "mirrors (entries ps) s" and one: "one_per_server ps"
  shows "apart s"
proof -
  have h: "serving s p = held IsServing (entries ps) p" "joining s p = held ((=) RS_Joining) (entries ps) p"
    "leaving s p = held ((=) RS_Leaving) (entries ps) p" for p using m by (simp_all add: mirrors_def)
  have d: "held IsServing (entries ps) p \<inter> held ((=) RS_Joining) (entries ps) p = {}"
    "held IsServing (entries ps) p \<inter> held ((=) RS_Leaving) (entries ps) p = {}"
    "held ((=) RS_Joining) (entries ps) p \<inter> held ((=) RS_Leaving) (entries ps) p = {}" for p
    by (rule held_disjoint [OF one]; auto simp: IsServing_def)+
  have "\<forall>sid \<in> held Q (entries ps) p. known s sid p" for Q p
  proof
    fix sid assume "sid \<in> held Q (entries ps) p"
    then have "sid \<in> held (\<lambda>_. True) (entries ps) p" by (auto simp: held_def)
    then show "known s sid p" using m by (simp add: mirrors_def)
  qed
  then show ?thesis unfolding apart_def h using d by blast
qed

lemma below_words:"{i :: u32. i < c} = set (map of_nat [0..<unat c])" "card {i :: u32. i < c} = unat c"
proof -
  have small: "unat (of_nat k :: u32) = k" if "k < unat c" for k
  proof -
    have "unat c < 2 ^ 32" using unsigned_less [of c] by simp
    then have "k < 2 ^ 32" using that by linarith
    then show ?thesis by (simp add: unsigned_of_nat take_bit_nat_eq_self)
  qed
  show e: "{i :: u32. i < c} = set (map of_nat [0..<unat c])"
  proof (intro set_eqI iffI)
    fix i :: u32 assume "i \<in> {i. i < c}"
    then have "unat i < unat c" by (simp add: word_less_nat_alt)
    then have "of_nat (unat i) \<in> set (map (of_nat :: nat \<Rightarrow> u32) [0..<unat c])" unfolding set_map by (intro imageI) simp
    then show "i \<in> set (map of_nat [0..<unat c])" by simp
  next
    fix i :: u32 assume "i \<in> set (map of_nat [0..<unat c])"
    then obtain k where "k < unat c" "i = of_nat k" by auto
    then show "i \<in> {i. i < c}" using small by (simp add: word_less_nat_alt)
  qed
  have "inj_on (of_nat :: nat \<Rightarrow> u32) {0..<unat c}"
    by (rule inj_on_inverseI [of _ unat]) (simp add: small)
  then show "card {i :: u32. i < c} = unat c" unfolding e by (simp add: card_image)
qed

lemma DataServers_keys: "servers_ok ss \<Longrightarrow> i \<in> fst ` set (Servers_DataServers ss) \<longleftrightarrow> isValidDataServer ss i"
proof -
  assume "servers_ok ss"
  then have wf: "(i, x) \<in> set (ss_Items ss) \<longleftrightarrow> mget (ss_Items ss) i = Some x" for i x
    by (intro gomap_mem_iff) (simp add: servers_ok_def)
  have "i \<in> fst ` set (Servers_DataServers ss) \<longleftrightarrow> (\<exists>x. (i, x) \<in> set (ss_Items ss) \<and> srv_Type x = ST_Data)"
    by (force simp: Servers_DataServers_def ForType_def)
  also have "\<dots> \<longleftrightarrow> isValidDataServer ss i" unfolding wf isValidDataServer_def by (simp split: option.splits)
  finally show ?thesis .
qed

lemma parts_entries:
  assumes "parts_ok ss np ps"
  shows "entries ps = {(pid, n, r). \<exists>p. (pid, p) \<in> set (ps_Items ps) \<and> (n, r) \<in> set (pa_Replicas p)}"
proof -
  have i: "(pid, p) \<in> set (ps_Items ps) \<longleftrightarrow> mget (ps_Items ps) pid = Some p" for pid p
    by (rule gomap_mem_iff) (use assms in \<open>simp add: parts_ok_def\<close>)
  have r: "(n, r) \<in> set (pa_Replicas p) \<longleftrightarrow> mget (pa_Replicas p) n = Some r" if "mget (ps_Items ps) pid = Some p" for pid p n r
    by (rule gomap_mem_iff) (use assms that in \<open>simp add: parts_ok_def part_ok_def\<close>)
  show ?thesis unfolding entries_def i using r by blast
qed

text \<open>The placement that the assigner reads from a well-formed cluster state.\<close>

lemma makeState_ok:
  assumes ss: "servers_ok ss" and ps: "parts_ok ss np ps" and one: "one_per_server ps"
  shows "\<exists>s. makeState ss ps = Some s \<and> starting s \<and> mirrors (entries ps) s \<and>
    (\<forall>i. mget (st_Serv s) i \<noteq> None \<longleftrightarrow> isValidDataServer ss i) \<and> (\<forall>pid. mget (st_Part s) pid \<noteq> None \<longleftrightarrow> pid < np)"
proof -
  let ?s0 = "fold (\<lambda>(sid, _). AddServer sid) (Servers_DataServers ss) NewState"
  have s0: "mirrors {} ?s0" "set (map fst (st_Serv ?s0)) = fst ` set (Servers_DataServers ss)" "st_Part ?s0 = []"
    using add_servers_ok [OF NewState_mirrors, of "Servers_DataServers ss"] by (simp_all add: NewState_def)
  have v: "mget (st_Serv ?s0) i \<noteq> None \<longleftrightarrow> isValidDataServer ss i" for i
    unfolding mget_keys s0(2) by (rule DataServers_keys [OF ss])
  have wf: "gomap_wf (ps_Items ps)" "fst ` set (ps_Items ps) = {i. i < np}" using ps by (simp_all add: parts_ok_def)
  have rep: "isValidDataServer ss (rp_ServerId r) \<and> rp_State r \<noteq> RS_Stopped" if "(pid, n, r) \<in> entries ps" for pid n r
  proof -
    from that obtain p where p: "mget (ps_Items ps) pid = Some p" "mget (pa_Replicas p) n = Some r" by (auto simp: entries_def)
    have "part_ok ss pid p" using ps p(1) by (simp add: parts_ok_def)
    then have "replica_ok ss pid (pa_LastReplicaId p) n r" using p(2) by (simp add: part_ok_def)
    then show ?thesis by (simp add: replica_ok_def)
  qed
  have all: "\<forall>(pid, p) \<in> set (ps_Items ps). \<forall>(n, r) \<in> set (pa_Replicas p). mget (st_Serv ?s0) (rp_ServerId r) \<noteq> None \<and> rp_State r \<noteq> RS_Stopped"
    using rep unfolding v parts_entries [OF ps] by blast
  have di: "distinct (map fst (st_Part ?s0) @ map fst (ps_Items ps))" using wf(1) s0(3) by (simp add: gomap_wf_def)
  obtain s where s: "makeState ss ps = Some s" "map fst (st_Serv s) = map fst (st_Serv ?s0)"
    "map fst (st_Part s) = map fst (st_Part ?s0) @ map fst (ps_Items ps)" "mirrors ({} \<union> entries ps) s"
    using make_parts_ok [OF s0(1) di all one [unfolded one_per_server_def list_all_iff]]
    unfolding makeState_def parts_entries [OF ps] by (elim exE conjE)
  then have m: "mirrors (entries ps) s" and pk: "map fst (st_Part s) = map fst (ps_Items ps)" using s0(3) by simp_all
  have sv: "mget (st_Serv s) i \<noteq> None \<longleftrightarrow> isValidDataServer ss i" for i using v unfolding mget_keys s(2) .
  have pt: "mget (st_Part s) pid \<noteq> None \<longleftrightarrow> pid < np" for pid unfolding mget_keys pk using wf(2) by simp
  have "PartitionCount s = card {i. i < np}"
    using wf distinct_card [of "map fst (ps_Items ps)"] arg_cong [OF pk, of length] by (simp add: PartitionCount_def gomap_wf_def)
  then have "set (map fst (st_Part s)) = set (map of_nat [0..<PartitionCount s])"
    unfolding pk below_words(2) using wf(2) below_words(1) [of np] by simp
  moreover have "apart s" by (rule mirrors_apart [OF m one])
  moreover have "known s sid p" if "sid \<in> joining s p" for sid p
  proof -
    have "sid \<in> held (\<lambda>_. True) (entries ps) p" using that m by (auto simp: mirrors_def held_def)
    then show ?thesis using m by (simp add: mirrors_def)
  qed
  ultimately have "starting s" using m unfolding starting_def place_ok_def mirrors_def by blast
  with s(1) m sv pt show ?thesis by (intro exI [of _ s] conjI allI)
qed

section \<open>When a placement is settled\<close>

text \<open>No server has two replicas more than another one that could take one of its partitions.\<close>

definition settled :: "part_config \<Rightarrow> place \<Rightarrow> bool" where
  "settled cfg s \<longleftrightarrow> (\<forall>(i, x) \<in> set (st_Serv s). \<forall>(j, y) \<in> set (st_Serv s). Serv_TotalCount x - Serv_TotalCount y > 1 \<longrightarrow>
     (\<forall>pid \<in> set (sv_Serving x). \<not> canAddReplica cfg s j pid))"

lemma sort_sort_desc:
  fixes k :: "'a \<Rightarrow> int"
  shows "sorted_wrt (\<lambda>a b. k a \<ge> k b) (sort_sort (\<lambda>a b. k b - k a < 0) xs)"
proof -
  have i: "sorted_wrt (\<lambda>a b. k a \<ge> k b) ys \<Longrightarrow> sorted_wrt (\<lambda>a b. k a \<ge> k b) (insert_by (\<lambda>a b. k b - k a < 0) x ys)" for x ys
    by (induction ys) auto
  show ?thesis unfolding sort_sort_def by (induction xs) (simp_all add: i [simplified])
qed

lemma try_dests_None:
  "try_dests ord cfg s src ds = None \<Longrightarrow> reorders ord \<Longrightarrow> sorted_wrt (\<lambda>a b. Serv_TotalCount a \<le> Serv_TotalCount b) ds \<Longrightarrow>
    d \<in> set ds \<Longrightarrow> Serv_TotalCount src - Serv_TotalCount d > 1 \<Longrightarrow> pid \<in> set (sv_Serving src) \<Longrightarrow> \<not> canAddReplica cfg s (sv_Id d) pid"
proof (induction ds)
  case (Cons x ds)
  have "Serv_TotalCount x \<le> Serv_TotalCount d" using Cons.prems(3,4) by auto
  then have gt: "\<not> Serv_TotalCount src - Serv_TotalCount x \<le> 1" using Cons.prems(5) by linarith
  then have f: "filter (\<lambda>pid. canAddReplica cfg s (sv_Id x) pid) (or_pids ord (sv_Serving src)) = []"
    and t: "try_dests ord cfg s src ds = None" using Cons.prems(1) by (simp_all split: list.splits)
  show ?case
  proof (cases "d = x")
    case True
    have "pid \<in> set (or_pids ord (sv_Serving src))" using Cons.prems(2,6) reorders_set(2) by simp
    then show ?thesis using f True by (auto simp: filter_empty_conv)
  next
    case False
    then show ?thesis using Cons.IH [OF t] Cons.prems by simp
  qed
qed simp

lemma try_sources_None:
  "try_sources ord cfg s ss = None \<Longrightarrow> reorders ord \<Longrightarrow> sorted_wrt (\<lambda>a b. Serv_TotalCount a \<ge> Serv_TotalCount b) ss \<Longrightarrow>
    src \<in> set ss \<Longrightarrow> d \<in> set ss \<Longrightarrow> Serv_TotalCount src - Serv_TotalCount d > 1 \<Longrightarrow> pid \<in> set (sv_Serving src) \<Longrightarrow>
    \<not> canAddReplica cfg s (sv_Id d) pid"
proof (induction ss)
  case (Cons x ss)
  have t: "try_dests ord cfg s x (rev ss) = None" "try_sources ord cfg s ss = None"
    using Cons.prems(1) by (simp_all split: option.splits)
  consider "src = x" "d \<in> set ss" | "src \<in> set ss" "d = x" | "src \<in> set ss" "d \<in> set ss" using Cons.prems(4-6) by auto
  then show ?case
  proof cases
    case 1
    then show ?thesis using try_dests_None [OF t(1) Cons.prems(2)] Cons.prems(3,6,7) by (simp add: sorted_wrt_rev)
  next
    case 2
    then have "Serv_TotalCount src \<le> Serv_TotalCount d" using Cons.prems(3) by simp
    then show ?thesis using Cons.prems(6) by linarith
  next
    case 3
    then show ?thesis using Cons.IH [OF t(2)] Cons.prems by simp
  qed
qed simp

lemma imbalance_loop_bounds:
  "imbalance_loop m lo hi = (a, b) \<Longrightarrow> a \<le> lo \<and> hi \<le> b \<and> (\<forall>(i, x) \<in> set m. a \<le> Serv_TotalCount x \<and> Serv_TotalCount x \<le> b)"
  by (induction m lo hi rule: imbalance_loop.induct) fastforce+

lemma settled_intro:
  assumes "reorders ord" "place_ok s" "MaxImbalance s \<le> 1 \<or> find_move ord cfg s = None"
  shows "settled cfg s"
  unfolding settled_def
proof (clarify)
  fix i x j y pid
  assume a: "(i, x) \<in> set (st_Serv s)" "(j, y) \<in> set (st_Serv s)" "1 < Serv_TotalCount x - Serv_TotalCount y"
    "pid \<in> set (sv_Serving x)" "canAddReplica cfg s j pid"
  have wf: "gomap_wf (st_Serv s)" using assms(2) by (simp add: place_ok_def keys_ok_def)
  have at: "serv_at s i = x" "serv_at s j = y" "mget (st_Serv s) j \<noteq> None"
    using a(1,2) wf by (simp_all add: serv_at_def gomap_mem_iff)
  have j: "sv_Id y = j" using assms(2) at(2,3) unfolding place_ok_def keys_ok_def by blast
  obtain lo hi where l: "imbalance_loop (st_Serv s) max_int 0 = (lo, hi)" by fastforce
  have "lo \<le> Serv_TotalCount y" "Serv_TotalCount x \<le> hi" using imbalance_loop_bounds [OF l] a(1,2) by auto
  then have "hi - lo > 1" using a(3) by linarith
  then have "find_move ord cfg s = None" using assms(3) l by (auto simp: MaxImbalance_def)
  note n = try_sources_None [OF this [unfolded find_move_def] assms(1) sort_sort_desc, of x y pid]
  have "x \<in> serv_at s ` set (map fst (st_Serv s))" "y \<in> serv_at s ` set (map fst (st_Serv s))" using a(1,2) at(1,2) by force+
  with n a(3-5) j show False using reorders_set(1) [OF assms(1)] by simp
qed

section \<open>The command of a round\<close>

lemma update_names_ok:
  "\<forall>sid \<in> set sids. known s sid pid \<Longrightarrow> \<exists>us. update_names s pid st sids = Some us \<and>
    set us = {\<lparr>ud_PartitionId = pid, ud_Replica = rk_Name x, ud_State = st\<rparr> |sid x. sid \<in> set sids \<and> GetReplica sid pid s = Some x}"
proof (induction sids)
  case (Cons sid sids)
  obtain x where x: "GetReplica sid pid s = Some x" using Cons.prems by auto
  obtain us where "update_names s pid st sids = Some us"
    "set us = {\<lparr>ud_PartitionId = pid, ud_Replica = rk_Name x, ud_State = st\<rparr> |sid x. sid \<in> set sids \<and> GetReplica sid pid s = Some x}"
    using Cons.IH Cons.prems by auto
  with x show ?case by auto
qed simp

lemma remove_names_ok:
  "\<forall>sid \<in> set sids. known s sid pid \<Longrightarrow> \<exists>rs. remove_names s pid sids = Some rs \<and>
    set rs = {\<lparr>re_PartitionId = pid, re_Replica = rk_Name x\<rparr> |sid x. sid \<in> set sids \<and> GetReplica sid pid s = Some x}"
proof (induction sids)
  case (Cons sid sids)
  obtain x where x: "GetReplica sid pid s = Some x" using Cons.prems by auto
  obtain rs where "remove_names s pid sids = Some rs"
    "set rs = {\<lparr>re_PartitionId = pid, re_Replica = rk_Name x\<rparr> |sid x. sid \<in> set sids \<and> GetReplica sid pid s = Some x}"
    using Cons.IH Cons.prems by auto
  with x show ?case by auto
qed simp

text \<open>What a round asks for in one partition.\<close>

definition asked_adds :: "place \<Rightarrow> place \<Rightarrow> u32 \<Rightarrow> asg_add set" where
  "asked_adds s s' pid = {\<lparr>ad_PartitionId = pid, ad_ServerId = sid\<rparr> |sid. sid \<in> joining s' pid - joining s pid}"

definition asked_updates :: "place \<Rightarrow> place \<Rightarrow> u32 \<Rightarrow> asg_update set" where
  "asked_updates s s' pid =
     {\<lparr>ud_PartitionId = pid, ud_Replica = rk_Name x, ud_State = RS_Voter\<rparr> |sid x.
        sid \<in> serving s' pid - serving s pid \<and> GetReplica sid pid s' = Some x} \<union>
     {\<lparr>ud_PartitionId = pid, ud_Replica = rk_Name x, ud_State = RS_Leaving\<rparr> |sid x.
        sid \<in> leaving s' pid - leaving s pid \<and> GetReplica sid pid s' = Some x}"

definition asked_removes :: "place \<Rightarrow> place \<Rightarrow> u32 \<Rightarrow> asg_remove set" where
  "asked_removes s s' pid = {\<lparr>re_PartitionId = pid, re_Replica = rk_Name x\<rparr> |sid x.
     sid \<in> leaving s pid - leaving s' pid \<and> GetReplica sid pid s' = Some x}"

lemma filter_out: "set (filter (\<lambda>x. x \<notin> set ys) xs) = set xs - set ys"
  by auto

lemma part_changes_ok:
  assumes ord: "reorders ord" and ok: "place_ok s" "place_ok s'" and fr: "same_frame s s'"
  shows "\<exists>as us rs. part_changes ord s s' pid = Some (as, us, rs) \<and> set as = asked_adds s s' pid \<and>
    set us = asked_updates s s' pid \<and> set rs = asked_removes s s' pid"
proof -
  let ?v = "filter (\<lambda>sid. sid \<notin> set (qs_Serving (part_at s pid))) (or_sids ord (qs_Serving (part_at s' pid)))"
  let ?l = "filter (\<lambda>sid. sid \<notin> set (qs_Leaving (part_at s pid))) (or_sids ord (qs_Leaving (part_at s' pid)))"
  let ?r = "filter (\<lambda>sid. sid \<notin> set (qs_Leaving (part_at s' pid))) (or_sids ord (qs_Leaving (part_at s pid)))"
  have sets: "set ?v = serving s' pid - serving s pid" "set ?l = leaving s' pid - leaving s pid" "set ?r = leaving s pid - leaving s' pid"
    by (simp_all only: filter_out reorders_set(1) [OF ord])
  have kn: "\<forall>sid \<in> serving s' pid \<union> leaving s' pid. known s' sid pid" using ok(2) by (simp add: place_ok_def apart_def)
  have "\<forall>sid \<in> leaving s pid. known s sid pid" using ok(1) by (simp add: place_ok_def apart_def)
  then have "\<forall>sid \<in> leaving s pid. known s' sid pid" unfolding same_frame_simps(3) [OF fr] .
  then have k: "\<forall>sid \<in> set ?v. known s' sid pid" "\<forall>sid \<in> set ?l. known s' sid pid" "\<forall>sid \<in> set ?r. known s' sid pid"
    unfolding sets using kn by blast+
  obtain u1 where u1: "update_names s' pid RS_Voter ?v = Some u1" "set u1 = {\<lparr>ud_PartitionId = pid, ud_Replica = rk_Name x, ud_State = RS_Voter\<rparr> |sid x.
      sid \<in> serving s' pid - serving s pid \<and> GetReplica sid pid s' = Some x}"
    using update_names_ok [OF k(1), of RS_Voter] unfolding sets by (elim exE conjE)
  obtain u2 where u2: "update_names s' pid RS_Leaving ?l = Some u2" "set u2 = {\<lparr>ud_PartitionId = pid, ud_Replica = rk_Name x, ud_State = RS_Leaving\<rparr> |sid x.
      sid \<in> leaving s' pid - leaving s pid \<and> GetReplica sid pid s' = Some x}"
    using update_names_ok [OF k(2), of RS_Leaving] unfolding sets by (elim exE conjE)
  obtain rs where rs: "remove_names s' pid ?r = Some rs" "set rs = asked_removes s s' pid"
    using remove_names_ok [OF k(3)] unfolding sets asked_removes_def by (elim exE conjE)
  have "set (u1 @ u2) = asked_updates s s' pid" by (simp only: set_append u1(2) u2(2) asked_updates_def)
  moreover have "set (map (\<lambda>sid. \<lparr>ad_PartitionId = pid, ad_ServerId = sid\<rparr>)
      (filter (\<lambda>sid. sid \<notin> set (qs_Joining (part_at s pid))) (or_sids ord (qs_Joining (part_at s' pid))))) = asked_adds s s' pid"
    unfolding asked_adds_def set_map filter_out reorders_set(1) [OF ord] by blast
  ultimately show ?thesis unfolding part_changes_def Let_def u1(1) u2(1) rs(1) using rs(2) by simp
qed

lemma all_changes_ok:
  assumes "reorders ord" "place_ok s" "place_ok s'" "same_frame s s'"
  shows "\<exists>as us rs. all_changes ord s s' pids = Some (as, us, rs) \<and> set as = \<Union> (asked_adds s s' ` set pids) \<and>
    set us = \<Union> (asked_updates s s' ` set pids) \<and> set rs = \<Union> (asked_removes s s' ` set pids)"
proof (induction pids)
  case (Cons pid pids)
  obtain as us rs where 1: "all_changes ord s s' pids = Some (as, us, rs)" "set as = \<Union> (asked_adds s s' ` set pids)"
    "set us = \<Union> (asked_updates s s' ` set pids)" "set rs = \<Union> (asked_removes s s' ` set pids)"
    using Cons.IH by (elim exE conjE)
  obtain as' us' rs' where 2: "part_changes ord s s' pid = Some (as', us', rs')" "set as' = asked_adds s s' pid"
    "set us' = asked_updates s s' pid" "set rs' = asked_removes s s' pid"
    using part_changes_ok [OF assms, of pid] by (elim exE conjE)
  show ?case using 1 2 by simp
qed simp

section \<open>What the state machine checks\<close>

lemma validate_adds_accepts:
  "\<forall>x \<in> set xs. isValidPartitionID f (ad_PartitionId x) \<and> isValidDataServer ss (ad_ServerId x) \<and>
     getReplicaByServer ps (ad_PartitionId x) (ad_ServerId x) = Some None \<Longrightarrow> validate_adds f ss ps xs = Some None"
  by (induction xs) auto

definition takes_last :: "parts \<Rightarrow> asg_update \<Rightarrow> bool" where
  "takes_last ps x \<longleftrightarrow> \<not> IsServing (ud_State x) \<and> (\<exists>p r. mget (ps_Items ps) (ud_PartitionId x) = Some p \<and>
     mget (pa_Replicas p) (ud_Replica x) = Some r \<and> Part_ServingReplicaCount p = 1 \<and> IsServing (rp_State r))"

lemma validate_updates_result:
  "\<forall>x \<in> set xs. isValidPartitionID f (ud_PartitionId x) \<and> (\<exists>p r. mget (ps_Items ps) (ud_PartitionId x) = Some p \<and>
      mget (pa_Replicas p) (ud_Replica x) = Some r \<and> isValidReplicaTransition (Some r) (ud_State x)) \<Longrightarrow>
    validate_updates f ps xs =
      Some (if \<exists>x \<in> set xs. takes_last ps x then Some (OtherError ''cannot remove last serving replica'') else None)"
proof (induction xs)
  case (Cons x xs)
  obtain p r where x: "isValidPartitionID f (ud_PartitionId x)" "mget (ps_Items ps) (ud_PartitionId x) = Some p"
    "mget (pa_Replicas p) (ud_Replica x) = Some r" "isValidReplicaTransition (Some r) (ud_State x)" using Cons.prems by auto
  have t: "takes_last ps x \<longleftrightarrow> \<not> IsServing (ud_State x) \<and> Part_ServingReplicaCount p = 1 \<and> IsServing (rp_State r)"
    using x by (simp add: takes_last_def)
  have "validate_updates f ps xs =
      Some (if \<exists>x \<in> set xs. takes_last ps x then Some (OtherError ''cannot remove last serving replica'') else None)"
    using Cons.IH Cons.prems by simp
  with x t show ?case by simp
qed simp

lemma validate_removes_accepts:
  "\<forall>x \<in> set xs. isValidPartitionID f (re_PartitionId x) \<and> (\<exists>p r. mget (ps_Items ps) (re_PartitionId x) = Some p \<and>
      mget (pa_Replicas p) (re_Replica x) = Some r \<and> rp_State r = RS_Leaving) \<Longrightarrow> validate_removes f ps xs = Some None"
  by (induction xs) auto

lemma entriesI: "mget (ps_Items ps) pid = Some p \<Longrightarrow> mget (pa_Replicas p) n = Some r \<Longrightarrow> (pid, n, r) \<in> entries ps"
  by (simp add: entries_def)

lemma entriesE:
  assumes "(pid, n, r) \<in> entries ps"
  obtains p where "mget (ps_Items ps) pid = Some p" "mget (pa_Replicas p) n = Some r"
  using assms by (auto simp: entries_def)

lemma replica_entry:
  assumes "mirrors (entries ps) s" "GetReplica sid pid s = Some x"
  obtains n r where "(pid, n, r) \<in> entries ps" "rp_ServerId r = sid" "rk_Name x = n" "rk_Ready x = rp_Ready r"
proof -
  have "\<forall>sid pid x. GetReplica sid pid s = Some x \<longrightarrow> (\<exists>n r. (pid, n, r) \<in> entries ps \<and> rp_ServerId r = sid \<and> x = rep_of pid n r)"
    using assms(1) by (simp add: mirrors_def)
  with assms(2) obtain n r where "(pid, n, r) \<in> entries ps" "rp_ServerId r = sid" "x = rep_of pid n r" by blast
  with that show thesis by simp
qed

lemma round_okD:
  assumes "round_ok cfg s s'"
  shows "place_ok s'" "same_frame s s'" "serving s' p \<subseteq> able s p" "leaving s' p \<subseteq> leaving s p \<union> (able s p - serving s' p)"
    "able s p - serving s' p \<subseteq> leaving s' p" "\<forall>sid \<in> joining s' p - joining s p. \<not> known s sid p \<and> mget (st_Serv s) sid \<noteq> None"
  using assms by (simp_all add: round_ok_def)

lemma round_total:
  assumes "place_ok s" "round_ok cfg s s'"
  shows "card (joins s') \<le> max (nat (pg_MaxJoining cfg)) (card (joins s))"
proof -
  have "counted s" "counted s'" "st_Joining s' \<le> max (pg_MaxJoining cfg) (st_Joining s)"
    using assms by (simp_all add: round_ok_def place_ok_def)
  then show ?thesis by (auto simp: counted_def)
qed

lemma place_okD:
  assumes "place_ok s"
  shows "serving s p \<inter> leaving s p = {}" "\<forall>sid \<in> serving s p. known s sid p"
  using assms by (simp_all add: place_ok_def apart_def)

lemma held_state:
  assumes "one_per_server ps" "(pid, n, r) \<in> entries ps" "rp_ServerId r \<in> held Q (entries ps) pid"
  shows "Q (rp_State r)"
proof -
  obtain n' r' where e: "(pid, n', r') \<in> entries ps" "rp_ServerId r' = rp_ServerId r" "Q (rp_State r')"
    using assms(3) by (auto simp: held_def)
  then show ?thesis using entries_unique [OF assms(1,2) e(1)] by simp
qed

lemma unknown_has_no_replica:
  assumes m: "mirrors (entries ps) s" and ps: "parts_ok ss np ps" and p: "mget (ps_Items ps) pid = Some p" and no: "\<not> known s sid pid"
  shows "getReplicaByServer ps pid sid = Some None"
proof (cases "ReplicaForServer sid p")
  case (Some x)
  have "gomap_wf (pa_Replicas p)" using ps p by (simp add: parts_ok_def part_ok_def)
  with Some obtain n where x: "mget (pa_Replicas p) n = Some x" "rp_ServerId x = sid"
    using find_server_Some unfolding ReplicaForServer_def by blast
  have "(pid, n, x) \<in> entries ps" by (rule entriesI [OF p x(1)])
  then have "sid \<in> held (\<lambda>_. True) (entries ps) pid" using x(2) by (auto simp: held_def)
  with m no show ?thesis by (simp add: mirrors_def)
qed (simp add: getReplicaByServer_def p)

lemma serving_count:
  assumes one: "one_per_server ps" and ps: "parts_ok ss np ps" and p: "mget (ps_Items ps) pid = Some p"
  shows "Part_ServingReplicaCount p = card (held IsServing (entries ps) pid)"
proof -
  let ?sv = "filter (\<lambda>(_, x). IsServing (rp_State x)) (pa_Replicas p)"
  have wf: "gomap_wf (pa_Replicas p)" using ps p by (simp add: parts_ok_def part_ok_def)
  have "(pid, p) \<in> set (ps_Items ps)" using p by (rule map_of_SomeD)
  then have "distinct (map (\<lambda>(_, r). rp_ServerId r) (pa_Replicas p))" using one by (auto simp: one_per_server_def list_all_iff)
  then have d: "distinct (map (\<lambda>(_, r). rp_ServerId r) ?sv)" by (rule distinct_map_filter)
  have "set (map (\<lambda>(_, r). rp_ServerId r) ?sv) = held IsServing (entries ps) pid"
  proof (intro set_eqI iffI)
    fix sid assume "sid \<in> set (map (\<lambda>(_, r). rp_ServerId r) ?sv)"
    then obtain n r where "(n, r) \<in> set (pa_Replicas p)" "IsServing (rp_State r)" "sid = rp_ServerId r" by auto
    then show "sid \<in> held IsServing (entries ps) pid" using wf p entriesI by (fastforce simp: held_def gomap_mem_iff)
  next
    fix sid assume "sid \<in> held IsServing (entries ps) pid"
    then obtain n r where e: "(pid, n, r) \<in> entries ps" "rp_ServerId r = sid" "IsServing (rp_State r)" by (auto simp: held_def)
    then have "(n, r) \<in> set (pa_Replicas p)" using p by (auto simp: entries_def dest: map_of_SomeD)
    then show "sid \<in> set (map (\<lambda>(_, r). rp_ServerId r) ?sv)" using e(2,3) by force
  qed
  with distinct_card [OF d] show ?thesis by (simp add: Part_ServingReplicaCount_def)
qed

section \<open>What a round asks for is valid\<close>

lemma asked_add_valid:
  assumes m: "mirrors (entries ps) s" and ps: "parts_ok ss np ps" and rd: "round_ok cfg s s'"
    and sv: "\<And>i. mget (st_Serv s) i \<noteq> None \<longleftrightarrow> isValidDataServer ss i" and x: "x \<in> asked_adds s s' pid" "pid < np"
  shows "ad_PartitionId x = pid \<and> isValidDataServer ss (ad_ServerId x) \<and> getReplicaByServer ps pid (ad_ServerId x) = Some None"
proof -
  obtain sid where sid: "x = \<lparr>ad_PartitionId = pid, ad_ServerId = sid\<rparr>" "sid \<in> joining s' pid - joining s pid"
    using x(1) by (auto simp: asked_adds_def)
  have n: "\<not> known s sid pid \<and> mget (st_Serv s) sid \<noteq> None" using round_okD(6) [OF rd] sid(2) by blast
  obtain p where "mget (ps_Items ps) pid = Some p" using parts_ok_get [OF ps x(2)] by blast
  with n sid(1) show ?thesis using unknown_has_no_replica [OF m ps] sv [of sid] by simp
qed

text \<open>The replica that an update names, with its server.\<close>

lemma asked_update_entry:
  assumes m: "mirrors (entries ps) s" and one: "one_per_server ps" and rd: "round_ok cfg s s'" and x: "x \<in> asked_updates s s' pid"
  obtains p r where "ud_PartitionId x = pid" "mget (ps_Items ps) pid = Some p" "mget (pa_Replicas p) (ud_Replica x) = Some r"
    and "ud_State x = RS_Voter \<and> rp_State r = RS_Joining \<or>
      ud_State x = RS_Leaving \<and> rp_ServerId r \<in> leaving s' pid - leaving s pid"
proof -
  have fr: "same_frame s s'" using rd by (simp add: round_ok_def)
  obtain sid y where y: "GetReplica sid pid s = Some y" "ud_PartitionId x = pid" "ud_Replica x = rk_Name y"
    "ud_State x = RS_Voter \<and> sid \<in> serving s' pid - serving s pid \<or> ud_State x = RS_Leaving \<and> sid \<in> leaving s' pid - leaving s pid"
    using x unfolding asked_updates_def same_frame_simps(3) [OF fr] by fastforce
  obtain n r where e: "(pid, n, r) \<in> entries ps" "rp_ServerId r = sid" "rk_Name y = n" using replica_entry [OF m y(1)] by blast
  obtain p where p: "mget (ps_Items ps) pid = Some p" "mget (pa_Replicas p) n = Some r" using entriesE [OF e(1)] by blast
  have "rp_State r = RS_Joining" if "sid \<in> serving s' pid - serving s pid"
  proof -
    have "serving s' pid \<subseteq> serving s pid \<union> joining s pid" using round_okD(3) [OF rd] unfolding able_def by blast
    then have "rp_ServerId r \<in> held ((=) RS_Joining) (entries ps) pid" using that m e(2) by (auto simp: mirrors_def)
    from held_state [OF one e(1) this] show ?thesis by simp
  qed
  then show thesis by (intro that [of p r]) (use y p e in auto)
qed

lemma asked_remove_entry:
  assumes m: "mirrors (entries ps) s" and one: "one_per_server ps" and rd: "round_ok cfg s s'" and x: "x \<in> asked_removes s s' pid"
  shows "re_PartitionId x = pid \<and> (\<exists>p r. mget (ps_Items ps) pid = Some p \<and> mget (pa_Replicas p) (re_Replica x) = Some r \<and> rp_State r = RS_Leaving)"
proof -
  have fr: "same_frame s s'" using rd by (simp add: round_ok_def)
  obtain sid y where y: "GetReplica sid pid s = Some y" "x = \<lparr>re_PartitionId = pid, re_Replica = rk_Name y\<rparr>" "sid \<in> leaving s pid"
    using x unfolding asked_removes_def same_frame_simps(3) [OF fr] by blast
  obtain n r where e: "(pid, n, r) \<in> entries ps" "rp_ServerId r = sid" "rk_Name y = n" using replica_entry [OF m y(1)] by blast
  have "rp_ServerId r \<in> held ((=) RS_Leaving) (entries ps) pid" using y(3) m e(2) by (simp add: mirrors_def)
  from held_state [OF one e(1) this] have "rp_State r = RS_Leaving" by simp
  moreover obtain p where "mget (ps_Items ps) pid = Some p" "mget (pa_Replicas p) n = Some r" using entriesE [OF e(1)] by blast
  ultimately show ?thesis using e(3) y(2) by simp
qed

text \<open>The round takes the only serving replica of a partition away.\<close>

definition strands :: "place \<Rightarrow> place \<Rightarrow> u32 \<Rightarrow> bool" where
  "strands s s' pid \<longleftrightarrow> card (serving s pid) = 1 \<and> \<not> serving s pid \<subseteq> serving s' pid"

lemma takes_last_iff:
  assumes m: "mirrors (entries ps) s" and one: "one_per_server ps" and ps: "parts_ok ss np ps" and rd: "round_ok cfg s s'" and pid: "pid < np"
    and ok: "place_ok s"
  shows "(\<exists>x \<in> asked_updates s s' pid. takes_last ps x) \<longleftrightarrow> strands s s' pid"
proof
  assume "\<exists>x \<in> asked_updates s s' pid. takes_last ps x"
  then obtain x where x: "x \<in> asked_updates s s' pid" "takes_last ps x" by blast
  obtain p r where e: "ud_PartitionId x = pid" "mget (ps_Items ps) pid = Some p" "mget (pa_Replicas p) (ud_Replica x) = Some r"
    "ud_State x = RS_Voter \<and> rp_State r = RS_Joining \<or> ud_State x = RS_Leaving \<and> rp_ServerId r \<in> leaving s' pid - leaving s pid"
    using asked_update_entry [OF m one rd x(1)] by blast
  then have t: "Part_ServingReplicaCount p = 1" "IsServing (rp_State r)" "rp_ServerId r \<in> leaving s' pid"
    using x(2) by (auto simp: takes_last_def IsServing_def)
  have "rp_ServerId r \<in> serving s pid" using m entriesI [OF e(2,3)] t(2) by (auto simp: mirrors_def held_def)
  moreover have "rp_ServerId r \<notin> serving s' pid" using place_okD(1) [OF round_okD(1) [OF rd]] t(3) by blast
  ultimately show "strands s s' pid" using t(1) serving_count [OF one ps e(2)] m by (auto simp: strands_def mirrors_def)
next
  assume st: "strands s s' pid"
  then obtain sid where sid: "sid \<in> serving s pid" "sid \<notin> serving s' pid" by (auto simp: strands_def)
  obtain n r where e: "(pid, n, r) \<in> entries ps" "rp_ServerId r = sid" "IsServing (rp_State r)"
    using sid(1) m by (auto simp: mirrors_def held_def)
  obtain p where p: "mget (ps_Items ps) pid = Some p" "mget (pa_Replicas p) n = Some r" using entriesE [OF e(1)] by blast
  have "sid \<in> leaving s' pid" using round_okD(5) [OF rd] sid unfolding able_def by blast
  moreover have "sid \<notin> leaving s pid" using place_okD(1) [OF ok] sid(1) by blast
  moreover obtain y where y: "GetReplica sid pid s = Some y" using place_okD(2) [OF ok] sid(1) by blast
  moreover have "GetReplica sid pid s' = Some y" unfolding same_frame_simps(3) [OF round_okD(2) [OF rd]] by (rule y)
  ultimately have x: "\<lparr>ud_PartitionId = pid, ud_Replica = rk_Name y, ud_State = RS_Leaving\<rparr> \<in> asked_updates s s' pid"
    unfolding asked_updates_def by blast
  obtain n' r' where e': "(pid, n', r') \<in> entries ps" "rp_ServerId r' = sid" "rk_Name y = n'" using replica_entry [OF m y] by blast
  have "n' = n" using entries_unique [OF one e(1) e'(1)] e(2) e'(2) by simp
  then have "takes_last ps \<lparr>ud_PartitionId = pid, ud_Replica = rk_Name y, ud_State = RS_Leaving\<rparr>"
    using st p e(3) e'(3) m serving_count [OF one ps p(1)] by (simp add: takes_last_def IsServing_def strands_def mirrors_def)
  with x show "\<exists>x \<in> asked_updates s s' pid. takes_last ps x" by blast
qed

lemma command_checked:
  assumes m: "mirrors (entries ps) s" and one: "one_per_server ps" and ps: "parts_ok ss (fs_partitionCount f) ps" and rd: "round_ok cfg s s'"
    and ok: "place_ok s" and sv: "\<And>i. mget (st_Serv s) i \<noteq> None \<longleftrightarrow> isValidDataServer ss i"
    and as: "set (ua_Add c) = \<Union> (asked_adds s s' ` {pid. pid < fs_partitionCount f})"
    and us: "set (ua_Update c) = \<Union> (asked_updates s s' ` {pid. pid < fs_partitionCount f})"
    and rs: "set (ua_Remove c) = \<Union> (asked_removes s s' ` {pid. pid < fs_partitionCount f})" and ne: "\<not> IsEmpty_update c"
  shows "validateUpdateAssignments f ss ps c =
    Some (if \<exists>pid < fs_partitionCount f. strands s s' pid then Some (OtherError ''cannot remove last serving replica'') else None)"
proof -
  have "\<forall>x \<in> set (ua_Add c). isValidPartitionID f (ad_PartitionId x) \<and> isValidDataServer ss (ad_ServerId x) \<and>
      getReplicaByServer ps (ad_PartitionId x) (ad_ServerId x) = Some None"
  proof
    fix x assume "x \<in> set (ua_Add c)"
    then obtain pid where "pid < fs_partitionCount f" "x \<in> asked_adds s s' pid" using as by auto
    with asked_add_valid [OF m ps rd sv, of x pid] show "isValidPartitionID f (ad_PartitionId x) \<and> isValidDataServer ss (ad_ServerId x) \<and>
      getReplicaByServer ps (ad_PartitionId x) (ad_ServerId x) = Some None" by (simp add: isValidPartitionID_def)
  qed
  then have a: "validate_adds f ss ps (ua_Add c) = Some None" by (rule validate_adds_accepts)
  have "\<forall>x \<in> set (ua_Update c). isValidPartitionID f (ud_PartitionId x) \<and> (\<exists>p r. mget (ps_Items ps) (ud_PartitionId x) = Some p \<and>
      mget (pa_Replicas p) (ud_Replica x) = Some r \<and> isValidReplicaTransition (Some r) (ud_State x))"
  proof
    fix x assume "x \<in> set (ua_Update c)"
    then obtain pid where pid: "pid < fs_partitionCount f" "x \<in> asked_updates s s' pid" using us by auto
    obtain p r where e: "ud_PartitionId x = pid" "mget (ps_Items ps) pid = Some p" "mget (pa_Replicas p) (ud_Replica x) = Some r"
      "ud_State x = RS_Voter \<and> rp_State r = RS_Joining \<or> ud_State x = RS_Leaving \<and> rp_ServerId r \<in> leaving s' pid - leaving s pid"
      using asked_update_entry [OF m one rd pid(2)] by blast
    then have "isValidReplicaTransition (Some r) (ud_State x)" by (auto simp: isValidReplicaTransition_def)
    with e pid(1) show "isValidPartitionID f (ud_PartitionId x) \<and> (\<exists>p r. mget (ps_Items ps) (ud_PartitionId x) = Some p \<and>
      mget (pa_Replicas p) (ud_Replica x) = Some r \<and> isValidReplicaTransition (Some r) (ud_State x))" by (simp add: isValidPartitionID_def)
  qed
  note u = validate_updates_result [OF this]
  have t: "(\<exists>x \<in> set (ua_Update c). takes_last ps x) \<longleftrightarrow> (\<exists>pid < fs_partitionCount f. strands s s' pid)"
    using takes_last_iff [OF m one ps rd _ ok] unfolding us by blast
  have "\<forall>x \<in> set (ua_Remove c). isValidPartitionID f (re_PartitionId x) \<and> (\<exists>p r. mget (ps_Items ps) (re_PartitionId x) = Some p \<and>
      mget (pa_Replicas p) (re_Replica x) = Some r \<and> rp_State r = RS_Leaving)"
  proof
    fix x assume "x \<in> set (ua_Remove c)"
    then obtain pid where "pid < fs_partitionCount f" "x \<in> asked_removes s s' pid" using rs by auto
    with asked_remove_entry [OF m one rd, of x pid] show "isValidPartitionID f (re_PartitionId x) \<and>
      (\<exists>p r. mget (ps_Items ps) (re_PartitionId x) = Some p \<and> mget (pa_Replicas p) (re_Replica x) = Some r \<and> rp_State r = RS_Leaving)"
      by (simp add: isValidPartitionID_def)
  qed
  then have r: "validate_removes f ps (ua_Remove c) = Some None" by (rule validate_removes_accepts)
  show ?thesis using ne a u r unfolding t by (simp add: validateUpdateAssignments_def)
qed

lemma makeUpdateAssignments_ok:
  assumes "reorders ord" "place_ok s" "round_ok cfg s s'" and pt: "\<And>pid. mget (st_Part s) pid \<noteq> None \<longleftrightarrow> pid < np"
  shows "\<exists>c. makeUpdateAssignments ord v s s' = Some c \<and> ua_IfMatch c = v \<and>
    set (ua_Add c) = \<Union> (asked_adds s s' ` {pid. pid < np}) \<and> set (ua_Update c) = \<Union> (asked_updates s s' ` {pid. pid < np}) \<and>
    set (ua_Remove c) = \<Union> (asked_removes s s' ` {pid. pid < np})"
proof -
  note fr = round_okD(1,2) [OF assms(3)]
  have keys: "set (or_pids ord (map fst (st_Part s'))) = {pid. pid < np}"
    using pt unfolding reorders_set(2) [OF assms(1)] mget_keys same_frame_def
    by (metis (no_types, lifting) Collect_cong Collect_mem_eq fr(2) same_frame_def)
  obtain as us rs where "all_changes ord s s' (or_pids ord (map fst (st_Part s'))) = Some (as, us, rs)"
    "set as = \<Union> (asked_adds s s' ` {pid. pid < np})" "set us = \<Union> (asked_updates s s' ` {pid. pid < np})"
    "set rs = \<Union> (asked_removes s s' ` {pid. pid < np})"
    using all_changes_ok [OF assms(1,2) fr, of "or_pids ord (map fst (st_Part s'))"] unfolding keys by (elim exE conjE)
  then show ?thesis by (simp add: makeUpdateAssignments_def)
qed

text \<open>The servers whose replica of the partition can serve: it serves, or it joined and is ready.\<close>

definition can_serve :: "parts \<Rightarrow> u32 \<Rightarrow> u64 set" where
  "can_serve ps pid = {rp_ServerId r |n r. (pid, n, r) \<in> entries ps \<and> (IsServing (rp_State r) \<or> rp_State r = RS_Joining \<and> rp_Ready r)}"

lemma can_serveI:
  "(pid, n, r) \<in> entries ps \<Longrightarrow> IsServing (rp_State r) \<or> rp_State r = RS_Joining \<and> rp_Ready r \<Longrightarrow> rp_ServerId r \<in> can_serve ps pid"
  by (auto simp: can_serve_def)

lemma able_can_serve:
  assumes m: "mirrors (entries ps) s" and one: "one_per_server ps"
  shows "able s pid = can_serve ps pid"
proof (intro set_eqI iffI)
  fix sid assume "sid \<in> able s pid"
  then consider "sid \<in> held IsServing (entries ps) pid" | "sid \<in> held ((=) RS_Joining) (entries ps) pid" "sid \<in> ready s pid"
    using m by (auto simp: able_def mirrors_def)
  then show "sid \<in> can_serve ps pid"
  proof cases
    case 1
    then show ?thesis by (auto simp: held_def can_serve_def)
  next
    case 2
    then obtain x where x: "GetReplica sid pid s = Some x" "rk_Ready x" by (auto simp: ready_def)
    obtain n r where e: "(pid, n, r) \<in> entries ps" "rp_ServerId r = sid" "rk_Ready x = rp_Ready r" using replica_entry [OF m x(1)] by blast
    moreover have "rp_State r = RS_Joining" using held_state [OF one e(1), of "(=) RS_Joining"] 2(1) e(2) by simp
    ultimately show ?thesis using x(2) by (auto simp: can_serve_def)
  qed
next
  fix sid assume "sid \<in> can_serve ps pid"
  then obtain n r where e: "(pid, n, r) \<in> entries ps" "rp_ServerId r = sid" "IsServing (rp_State r) \<or> rp_State r = RS_Joining \<and> rp_Ready r"
    by (auto simp: can_serve_def)
  have "sid \<in> held (\<lambda>_. True) (entries ps) pid" using e(1,2) by (auto simp: held_def)
  then have "known s sid pid" using m by (simp add: mirrors_def)
  then obtain x where x: "GetReplica sid pid s = Some x" by blast
  obtain n' r' where e': "(pid, n', r') \<in> entries ps" "rp_ServerId r' = sid" "rk_Ready x = rp_Ready r'" using replica_entry [OF m x] by blast
  then have "r' = r" using entries_unique [OF one e(1) e'(1)] e(2) by simp
  moreover have "sid \<in> held IsServing (entries ps) pid \<or> sid \<in> held ((=) RS_Joining) (entries ps) pid \<and> rp_Ready r"
    using e unfolding held_def by (elim disjE) force+
  ultimately show "sid \<in> able s pid" using m x e'(3) by (auto simp: able_def ready_def mirrors_def)
qed

section \<open>The assigner and the state machine\<close>

text \<open>
  C17: From every well-formed cluster state in which no two replicas of a partition share a server,
  whatever the order of map iteration and shuffling, a round of placement terminates without a panic.
  In the result every partition serves from as many of the replicas that can serve (those that serve,
  and those that joined and are ready) as the replication factor asks for, the others of them are
  leaving. A partition with fewer serving and joining replicas than the replication factor can get no
  further one within the limits, and no replica can be moved to a server that has at least two fewer.
  The joining replicas in all, of a server and of a partition stay within the three limits of the
  configuration, or do not grow where they exceeded them already; and the views of servers and of
  partitions agree.
\<close>

theorem assigner_round_result:
  assumes "servers_ok ss" "parts_ok ss np ps" "one_per_server ps" "reorders ord" "0 \<le> pg_ReplicationFactor cfg"
  shows "\<exists>cur next. makeState ss ps = Some cur \<and> Next_place ord cfg cur = Some next \<and> place_ok next \<and> settled cfg next \<and>
    card (joins next) \<le> max (nat (pg_MaxJoining cfg)) (card {(sid, pid). sid \<in> held ((=) RS_Joining) (entries ps) pid}) \<and>
    (\<forall>sid. card (joins_of next sid) \<le>
      max (nat (pg_MaxJoiningForServer cfg)) (card {pid. sid \<in> held ((=) RS_Joining) (entries ps) pid})) \<and>
    (\<forall>pid. serving next pid \<subseteq> can_serve ps pid \<and> can_serve ps pid - serving next pid \<subseteq> leaving next pid \<and>
      card (joining next pid) \<le> max (nat (pg_MaxJoiningForPartition cfg)) (card (held ((=) RS_Joining) (entries ps) pid)) \<and>
      (pid < np \<longrightarrow> card (serving next pid) = min (nat (pg_ReplicationFactor cfg)) (card (can_serve ps pid)) \<and> filled cfg next pid))"
proof -
  obtain s where s: "makeState ss ps = Some s" "starting s" "mirrors (entries ps) s"
    "\<forall>i. mget (st_Serv s) i \<noteq> None \<longleftrightarrow> isValidDataServer ss i" "\<forall>pid. mget (st_Part s) pid \<noteq> None \<longleftrightarrow> pid < np"
    using makeState_ok [OF assms(1-3)] by (elim exE conjE)
  obtain s' where s': "Next_place ord cfg s = Some s'" "round_ok cfg s s'" "MaxImbalance s' \<le> 1 \<or> find_move ord cfg s' = None"
    using Next_place_ok [OF assms(4) s(2) assms(5)] by (elim exE conjE)
  have ok: "place_ok s'" using s'(2) by (rule round_okD(1))
  have "settled cfg s'" by (rule settled_intro [OF assms(4) ok s'(3)])
  moreover have j: "joining s pid = held ((=) RS_Joining) (entries ps) pid" for pid using s(3) by (simp add: mirrors_def)
  moreover have "card (joins s') \<le> max (nat (pg_MaxJoining cfg)) (card {(sid, pid). sid \<in> held ((=) RS_Joining) (entries ps) pid})"
    using round_total [OF _ s'(2)] s(2) by (simp add: starting_def joins_def j)
  moreover have "card (joins_of s' sid) \<le> max (nat (pg_MaxJoiningForServer cfg)) (card {pid. sid \<in> held ((=) RS_Joining) (entries ps) pid})" for sid
    using s'(2) unfolding round_ok_def joins_of_def [of s] j by blast
  ultimately show ?thesis using s(1,5) s'(1,2) ok by (auto simp: round_ok_def able_can_serve [OF s(3) assms(3)])
qed

text \<open>
  C18: From every such cluster state a round of the assigner does not panic, and the command it
  submits carries the version of the assignments it read. The state machine, in the state the command
  was computed from, accepts the command, unless some partition has a single serving replica and the
  round moves it away: then, and only then, it refuses the whole command.
\<close>

theorem assigner_command_checked:
  assumes "servers_ok ss" "parts_ok ss (fs_partitionCount f) ps" "one_per_server ps" "reorders ord" "0 \<le> pg_ReplicationFactor cfg"
  shows "\<exists>cur next res. makeState ss ps = Some cur \<and> Next_place ord cfg cur = Some next \<and> updateAssignments ord cfg ss ps = Some res \<and>
    (case res of None \<Rightarrow> True | Some cmd \<Rightarrow> ua_IfMatch cmd = ps_AssignmentsVersion ps \<and>
      validateUpdateAssignments f ss ps cmd =
        Some (if \<exists>pid < fs_partitionCount f. strands cur next pid then Some (OtherError ''cannot remove last serving replica'') else None))"
proof -
  obtain s where s: "makeState ss ps = Some s" "starting s" "mirrors (entries ps) s"
    "\<forall>i. mget (st_Serv s) i \<noteq> None \<longleftrightarrow> isValidDataServer ss i" "\<forall>pid. mget (st_Part s) pid \<noteq> None \<longleftrightarrow> pid < fs_partitionCount f"
    using makeState_ok [OF assms(1-3)] by (elim exE conjE)
  obtain s' where s': "Next_place ord cfg s = Some s'" "round_ok cfg s s'"
    using Next_place_ok [OF assms(4) s(2) assms(5)] by (elim exE conjE)
  have ok: "place_ok s" using s(2) by (simp add: starting_def)
  have pt: "mget (st_Part s) pid \<noteq> None \<longleftrightarrow> pid < fs_partitionCount f" and sv: "mget (st_Serv s) i \<noteq> None \<longleftrightarrow> isValidDataServer ss i" for pid i
    using s(4,5) by blast+
  obtain c where c: "makeUpdateAssignments ord (ps_AssignmentsVersion ps) s s' = Some c" "ua_IfMatch c = ps_AssignmentsVersion ps"
    "set (ua_Add c) = \<Union> (asked_adds s s' ` {pid. pid < fs_partitionCount f})"
    "set (ua_Update c) = \<Union> (asked_updates s s' ` {pid. pid < fs_partitionCount f})"
    "set (ua_Remove c) = \<Union> (asked_removes s s' ` {pid. pid < fs_partitionCount f})"
    using makeUpdateAssignments_ok [where v = "ps_AssignmentsVersion ps", OF assms(4) ok s'(2) pt] by (elim exE conjE)
  have u: "updateAssignments ord cfg ss ps = Some (if IsEmpty_update c then None else Some c)"
    using s(1) s'(1) c(1) by (simp add: updateAssignments_def)
  show ?thesis
  proof (cases "IsEmpty_update c")
    case True
    then show ?thesis using u s(1) s'(1) by (auto intro!: exI)
  next
    case False
    from command_checked [OF s(3) assms(3,2) s'(2) ok sv c(3-5) this] False show ?thesis
      using u s(1) s'(1) c(2) by (intro exI [of _ s] exI [of _ s'] exI [of _ "Some c"]) simp
  qed
qed

subsection \<open>A small cluster\<close>

text \<open>Three servers and a partition with a serving replica and one that joined and is ready.\<close>

definition demo_data_server :: "u64 \<Rightarrow> server" where
  "demo_data_server i = \<lparr>srv_Id = i, srv_Name = ''data'', srv_Type = ST_Data, srv_Tags = [], srv_RegisteredAt = 0, srv_LastSeen = 0,
     srv_LastAddress = ''host''\<rparr>"

definition demo_servers :: servers where
  "demo_servers = \<lparr>ss_Version = 1, ss_RegisterVersion = 1,
     ss_Items = [(1, demo_data_server 1), (2, demo_data_server 2), (3, demo_data_server 3)], ss_LastId = 3, ss_Tokens = []\<rparr>"

definition demo_replica :: "u64 \<Rightarrow> replica_state \<Rightarrow> part_replica" where
  "demo_replica n st = \<lparr>rp_Name = replica_name 0 n, rp_ServerId = n, rp_State = st, rp_CreatedTime = uint n,
     rp_StateTransitionTime = 0, rp_LastUpdate = 0, rp_AppliedIndex = 0, rp_Ready = True\<rparr>"

definition demo_parts :: parts where
  "demo_parts = \<lparr>ps_Version = 1, ps_AssignmentsVersion = 1, ps_Items = [(0, \<lparr>pa_Id = 0,
       pa_Replicas = [(replica_name 0 1, demo_replica 1 RS_Voter), (replica_name 0 2, demo_replica 2 RS_Joining)],
       pa_LastReplicaId = 2, pa_AssignmentsVersion = 1, pa_Leader = '''', pa_LeaderTerm = 0, pa_LeaderAppliedIndex = 0,
       pa_CommitedIndex = 0\<rparr>)], ps_MaxImbalance = 0\<rparr>"

definition demo_orders :: orders where
  "demo_orders = \<lparr>or_sids = (\<lambda>xs. xs), or_pids = (\<lambda>xs. xs), or_shuffle = (\<lambda>xs. xs)\<rparr>"

definition demo_config :: "int \<Rightarrow> part_config" where
  "demo_config n = \<lparr>pg_ReplicationFactor = n, pg_MaxJoining = 16, pg_MaxJoiningForServer = 2, pg_MaxJoiningForPartition = 1\<rparr>"

definition demo_fsm :: fsm where
  "demo_fsm = NewFSM\<lparr>fs_partitionCount := 1\<rparr>"

lemma demo_reorders: "reorders demo_orders"
  by (simp add: reorders_def demo_orders_def)

lemma demo_servers_ok: "servers_ok demo_servers"
  by (auto simp: servers_ok_def demo_servers_def demo_data_server_def gomap_wf_def split: if_splits)

lemma demo_parts_ok: "parts_ok demo_servers 1 demo_parts"
proof -
  have "{i :: u32. i < 1} = {0}" using below_words(1) [of 1] by simp
  moreover have "isValidDataServer demo_servers n" if "n = 1 \<or> n = 2" for n
    using that by (auto simp: isValidDataServer_def demo_servers_def demo_data_server_def)
  ultimately show ?thesis
    by (auto simp: parts_ok_def part_ok_def replica_ok_def demo_parts_def demo_replica_def gomap_wf_def split: if_splits)
qed

lemma demo_one_per_server: "one_per_server demo_parts"
  by (simp add: one_per_server_def demo_parts_def demo_replica_def)

lemma demo_entries:
  "entries demo_parts = {(0, replica_name 0 1, demo_replica 1 RS_Voter), (0, replica_name 0 2, demo_replica 2 RS_Joining)}"
  by (auto simp: entries_def demo_parts_def split: if_splits)

lemma demo_can_serve: "can_serve demo_parts 0 = {1, 2}"
proof -
  have "rp_ServerId (demo_replica n st) = n" "rp_State (demo_replica n st) = st" "rp_Ready (demo_replica n st)" for n st
    by (simp_all add: demo_replica_def)
  note r = this
  have mem: "(0, replica_name 0 1, demo_replica 1 RS_Voter) \<in> entries demo_parts"
    "(0, replica_name 0 2, demo_replica 2 RS_Joining) \<in> entries demo_parts" unfolding demo_entries by simp_all
  have "rp_ServerId (demo_replica 1 RS_Voter) \<in> can_serve demo_parts 0" "rp_ServerId (demo_replica 2 RS_Joining) \<in> can_serve demo_parts 0"
    by (rule can_serveI [OF mem(1)] can_serveI [OF mem(2)]; simp add: r IsServing_def)+
  moreover have "can_serve demo_parts 0 \<subseteq> {1, 2}" by (auto simp: can_serve_def demo_entries r)
  ultimately show ?thesis by (auto simp: r)
qed

theorem assigner_round_result_witness:
  "servers_ok demo_servers \<and> parts_ok demo_servers 1 demo_parts \<and> one_per_server demo_parts \<and> reorders demo_orders \<and>
   (\<exists>cur next. makeState demo_servers demo_parts = Some cur \<and> Next_place demo_orders (demo_config 2) cur = Some next \<and>
      settled (demo_config 2) next \<and> serving next 0 = {1, 2})"
proof -
  obtain cur "next" where n: "makeState demo_servers demo_parts = Some cur" "Next_place demo_orders (demo_config 2) cur = Some next"
    "settled (demo_config 2) next" "serving next 0 \<subseteq> {1, 2}" "card (serving next 0) = 2"
    using assigner_round_result [OF demo_servers_ok demo_parts_ok demo_one_per_server demo_reorders, of "demo_config 2"]
    by (auto simp: demo_config_def dest!: spec [of _ 0] simp: demo_can_serve)
  have "serving next 0 = {1, 2}" by (rule card_subset_eq) (use n(4,5) in simp_all)
  with n show ?thesis using demo_servers_ok demo_parts_ok demo_one_per_server demo_reorders by blast
qed

lemma demo_accepted:
  "map_option (map_option (validateUpdateAssignments demo_fsm demo_servers demo_parts))
     (updateAssignments demo_orders (demo_config 2) demo_servers demo_parts) = Some (Some (Some None))"
  by code_simp

theorem assigner_command_checked_witness:
  "servers_ok demo_servers \<and> parts_ok demo_servers (fs_partitionCount demo_fsm) demo_parts \<and> one_per_server demo_parts \<and>
   reorders demo_orders \<and>
   (\<exists>cur next cmd. makeState demo_servers demo_parts = Some cur \<and> Next_place demo_orders (demo_config 2) cur = Some next \<and>
      updateAssignments demo_orders (demo_config 2) demo_servers demo_parts = Some (Some cmd) \<and> ua_IfMatch cmd = 1 \<and>
      validateUpdateAssignments demo_fsm demo_servers demo_parts cmd = Some None \<and> \<not> strands cur next 0)"
proof -
  have one: "fs_partitionCount demo_fsm = 1" "ps_AssignmentsVersion demo_parts = 1" by (simp_all add: demo_fsm_def demo_parts_def)
  have ps: "parts_ok demo_servers (fs_partitionCount demo_fsm) demo_parts" using demo_parts_ok one by simp
  obtain cur "next" res where n: "makeState demo_servers demo_parts = Some cur" "Next_place demo_orders (demo_config 2) cur = Some next"
    "updateAssignments demo_orders (demo_config 2) demo_servers demo_parts = Some res"
    "case res of None \<Rightarrow> True | Some cmd \<Rightarrow> ua_IfMatch cmd = ps_AssignmentsVersion demo_parts \<and>
      validateUpdateAssignments demo_fsm demo_servers demo_parts cmd = Some (if \<exists>pid < fs_partitionCount demo_fsm. strands cur next pid
        then Some (OtherError ''cannot remove last serving replica'') else None)"
    using assigner_command_checked [OF demo_servers_ok ps demo_one_per_server demo_reorders, of "demo_config 2"]
    by (auto simp: demo_config_def)
  obtain cmd where cmd: "res = Some cmd" "validateUpdateAssignments demo_fsm demo_servers demo_parts cmd = Some None"
    using demo_accepted n(3) by auto
  then have "\<not> strands cur next 0" using n(4) one by (auto split: if_splits)
  with n cmd one show ?thesis using demo_servers_ok ps demo_one_per_server demo_reorders by auto
qed

text \<open>With one replica wanted, the replica that is ready replaces the serving one, and the command is refused.\<close>

lemma demo_refused:
  "map_option (map_option (validateUpdateAssignments demo_fsm demo_servers demo_parts))
     (updateAssignments demo_orders (demo_config 1) demo_servers demo_parts) =
   Some (Some (Some (Some (OtherError ''cannot remove last serving replica''))))"
  by code_simp

end
