(* ===== verification/Spec2Isabelle.thy ===== *)
theory Spec2Isabelle
  imports Hlc Txn_Refine Rocks_Reference Txn_Service Txn_Leader Watchdog_Props Api_Props Control_Fsm_Inv Control_Assigner
begin

text \<open>
  Verification of ScoutDB, a distributed transactional store written in Go.

  \<^bold>\<open>The program.\<close> An API server turns a client's actions into a transaction over the partitions that
  hold its keys and coordinates it (\<^verbatim>\<open>src/internal/api/server/txn\<close>). A data server runs replicas of
  partitions. The leader of a partition collects commands into batches, stamps them with a hybrid
  logical clock (\<^verbatim>\<open>src/internal/hlc\<close>) and hands them to a replicated log; every replica applies the
  log to its transaction manager (\<^verbatim>\<open>src/internal/data/server/txn\<close>), which writes to a multi-version
  store over a key-value store or RocksDB (\<^verbatim>\<open>src/internal/data/server/storage\<close>). A watchdog at the
  principal partition of a transaction finishes what a coordinator left behind. The control plane
  (\<^verbatim>\<open>src/internal/control\<close>) keeps the replicated state of the cluster; its leader assigns replicas of
  partitions to servers.

  \<^bold>\<open>Conventions.\<close> A struct is a record whose fields carry a short prefix and the name in the source;
  an enumeration or a message with alternatives is a datatype; \<^verbatim>\<open>uint8\<close>, \<^verbatim>\<open>uint32\<close> and \<^verbatim>\<open>uint64\<close> are
  words of that width. A Go map is an association list (\<open>gomap\<close>), which also fixes the order in which
  a loop visits it. A pair of a value and an error is \<open>err + 'a\<close>, an error alone is \<open>err option\<close>, and a
  pointer that can be nil is an option. \<open>None\<close> as the result of a whole operation is a panic, the end of
  the process, or an operation that blocks for ever. Code that is not in the repository is a
  parameter: the wall clock is a sequence of readings, the replicated log and the other servers are
  state transformers, RocksDB is a record of operations with the laws of the locale \<open>grocks\<close>, and
  decoding of bytes is a function.

  \<^bold>\<open>Foundations.\<close> \<open>Prelude\<close>: words, errors (\<^verbatim>\<open>internal/errors/types.go\<close>), Go maps, byte strings.
  \<open>Helpers\<close>: \<^verbatim>\<open>utils/helpers.go\<close>. \<open>Ordering\<close>: three-way comparison, binary search and sorting; the locale
  \<open>comparator\<close>. \<open>Retry\<close>: \<^verbatim>\<open>utils/retries.go\<close>; a retry succeeds exactly when one of the allowed attempts
  does. \<open>Queue\<close>: \<^verbatim>\<open>utils/queue.go\<close> with an explicit heap of nodes; it implements the locale \<open>deque\<close> with
  the list of values as abstraction.

  \<^bold>\<open>Clock.\<close> \<open>Hlc\<close>: \<^verbatim>\<open>Now\<close>, \<^verbatim>\<open>Update\<close> and the conversions of \<^verbatim>\<open>hlc.go\<close> on 64-bit words. Any run of calls
  gives strictly increasing timestamps, an update goes past the timestamp received and not further
  ahead than allowed, and conversions round-trip. \<^verbatim>\<open>Now\<close> and \<^verbatim>\<open>Update\<close> hold the mutex of the clock, so each
  is one step; their loops make at most \<open>maxRetries\<close> attempts, as in the source.

  \<^bold>\<open>Storage.\<close> \<open>KV_Store\<close>: addresses (\<^verbatim>\<open>kv/address.go\<close>), the store interface as the locale \<open>kv_store\<close>, and
  the in-memory store, an interpretation of it. \<open>Mvcc\<close>: value encoding, the multi-version interface
  (locales \<open>mvcc_scan\<close>, \<open>mvcc_db\<close>), its emulation over any key-value store, and the breakers.
  \<open>Rocks_Encoding\<close>, \<open>Rocks\<close>: encoded keys, comparator, merge operator, column families, and the
  key-value and multi-version back ends over RocksDB. \<open>Rocks_Reference\<close>: a database that keeps every law
  of \<open>grocks\<close>, on which the properties are instantiated. Shown are: encoded keys sort as addresses
  do, encodings round-trip, merging is associative, reads return the newest visible version, and
  where \<^verbatim>\<open>Address.Next\<close> is a successor and where it is not, with the wrong reads that follow.

  \<^bold>\<open>Transactions at a partition.\<close> \<open>Txn_Data\<close>, \<open>Txn_Validate\<close>: messages, locks, validation (\<^verbatim>\<open>data_txn.go\<close>).
  \<open>Txn_Manager\<close>: the manager (\<^verbatim>\<open>manager.go\<close>, \<^verbatim>\<open>manager_apply.go\<close>, \<^verbatim>\<open>manager_locks.go\<close>, \<^verbatim>\<open>status.go\<close>).
  \<open>Txn_Spec\<close>: an abstract machine of transactions as a step relation with its invariant; \<open>Txn_Refine\<close>:
  the manager refines it, hence prepared transactions never hold conflicting locks, a final outcome
  never changes, and a snapshot restores the manager. \<open>Txn_Reader\<close>, \<open>Txn_Writer\<close>, \<open>Txn_Service\<close>: \<^verbatim>\<open>reader.go\<close>,
  \<^verbatim>\<open>writer.go\<close>, \<^verbatim>\<open>service.go\<close>; batches leave in order and every command is answered. \<open>Txn_Reads\<close>, \<open>Txn_Snapshot\<close>,
  \<open>Txn_Leader\<close>: a read at a safe timestamp gives the same results whatever is applied later, first under
  an assumption on the stamps, then for the writer, manager, reader and store of a leader together.
  \<open>Watchdog\<close>, \<open>Watchdog_Props\<close>: \<^verbatim>\<open>watchdog_2pc.go\<close>; a pass takes exactly the transactions that are due, and
  two ways in which transactions escape it in every run: those that start later than the watchdog, and
  those that had already timed out when it started.

  \<^bold>\<open>Coordinators.\<close> \<open>Api_Txn\<close>: building a transaction, the retrying client and the coordinators for two-phase
  commit, read-only and snapshot transactions. \<open>Api_Protocol\<close>, \<open>Api_Props\<close>: on any servers and any network
  the two-phase commit coordinator commits only what every participant prepared and the principal
  stored, and its result tells the truth about the answers.

  \<^bold>\<open>Control plane.\<close> \<open>Control_Data\<close>: messages, queries and validation (\<^verbatim>\<open>control.go\<close>). \<open>Control_Fsm\<close>: the
  replicated state machine (\<^verbatim>\<open>control/server/storage/fsm*.go\<close>). \<open>Control_Fsm_Inv\<close>: the invariant of cluster
  states over all logs and snapshots, and no command panics once the cluster is bootstrapped, as long as
  counters do not wrap and restored maps are not empty. \<open>Control_Placement\<close>: placement of replicas
  (\<^verbatim>\<open>control/server/leader/partitions\<close>). \<open>Control_Placement_Inv\<close>: each step of a round keeps the views of
  servers and partitions in agreement and changes the sets of a partition in its own way.
  The number of joining replicas that the state carries is the size of the set it counts, and replicas
  join within the limits for the cluster, a server and a partition.
  \<open>Control_Assigner\<close>: a round started from a cluster state reaches the replication factor as far as the
  replicas and the limits allow and leaves nothing to move, and the state machine accepts the resulting command
  exactly when it keeps the single serving replica of every partition that has only one.

  \<^bold>\<open>Bounds and fuel.\<close> Loops are structural recursion or have a termination measure: binary search the
  width of its interval, rebalancing the number of replicas that may still join. The pass of the
  watchdog over its queue takes fuel, the length of the queue, and is proved to end within it. Loops
  that the source never leaves (the main loops of writer and watchdog) are step functions over events.
  \<^verbatim>\<open>RetryForever\<close> makes \<open>MaxInt\<close> attempts, as in the source.

  \<^bold>\<open>Not modelled.\<close> Goroutine scheduling, channels as such, timers and contexts, except where an operation
  hands them a result; a lock makes the operation it protects one step. The Raft library with its
  stores and transport, gRPC with its interceptors, balancers and resolvers, generated message
  code, logging, metrics, tracing, configuration files, the command line tools, the session streams
  between control plane and servers, the life cycle of partition replicas, and the test
  infrastructure: these are input and output, generated code, or wiring around libraries that are not
  in the repository. The graph and key-value services, which translate requests into transactions,
  are left out. In the assigner, the wait for the first data server is left out, and a round reads
  servers and partitions from one cluster state.
\<close>

end
